(* ===== verification/Prelude.thy ===== *)
theory Prelude
  imports Main "HOL-Library.Word" "HOL-Library.Sublist" "HOL-Library.Multiset"
begin

text \<open>
  What the components share: the machine integers, the string operations of Rust and Go,
  reading and printing numbers, and generic facts on lists and maps.

  A \<open>String\<close> is its UTF-8 byte sequence, so \<open>string\<close> (a list of bytes) is read as that
  sequence: \<open>len()\<close> is the length of the list, \<open>starts_with\<close> is list prefix, and the ASCII
  operations act byte by byte.
\<close>

section \<open>Machine integers\<close>

type_synonym i32 = "32 word"
type_synonym i64 = "64 word"
type_synonym u16 = "16 word"
type_synonym u64 = "64 word"

text \<open>\<open>usize\<close> on the 64-bit targets the images are built for.\<close>

type_synonym usize = "64 word"

lemma sint_inject: "sint a = sint b \<longleftrightarrow> a = b"
  by (auto intro: signed_word_eqI)

text \<open>\<open>Ord::max\<close> on \<open>i32\<close> compares signed values.\<close>

definition i32_max :: "i32 \<Rightarrow> i32 \<Rightarrow> i32" where
  "i32_max a b = (if sint a \<le> sint b then b else a)"

text \<open>\<open>u64::saturating_mul\<close>.\<close>

definition saturating_mul :: "u64 \<Rightarrow> u64 \<Rightarrow> u64" where
  "saturating_mul a b = (if unat a * unat b < 2 ^ 64 then a * b else - 1)"

section \<open>Collections of facts\<close>

named_theorems str_simps \<open>evaluation and shape of the string operations\<close>
named_theorems parse_defs \<open>the parsers of the configuration's enumerations\<close>

section \<open>Strings\<close>

subsection \<open>ASCII case\<close>

definition ascii_lower :: "char \<Rightarrow> char" where
  "ascii_lower c =
     (let n = (of_char c :: nat) in if 65 \<le> n \<and> n \<le> 90 then char_of (n + 32) else c)"

definition to_ascii_lowercase :: "string \<Rightarrow> string" where
  "to_ascii_lowercase s = map ascii_lower s"

definition eq_ignore_ascii_case :: "string \<Rightarrow> string \<Rightarrow> bool" where
  "eq_ignore_ascii_case s t = (to_ascii_lowercase s = to_ascii_lowercase t)"

lemma of_char_ascii_lower:
  "(of_char (ascii_lower c) :: nat) =
     (if 65 \<le> (of_char c :: nat) \<and> (of_char c :: nat) \<le> 90 then of_char c + 32 else of_char c)"
  by (simp add: ascii_lower_def Let_def)

lemma ascii_lower_idem [simp]: "ascii_lower (ascii_lower c) = ascii_lower c"
  by (rule of_char_eqI [where 'a = nat]) (simp add: of_char_ascii_lower)

lemma to_ascii_lowercase_idem [simp]:
  "to_ascii_lowercase (to_ascii_lowercase s) = to_ascii_lowercase s"
  by (simp add: to_ascii_lowercase_def)

lemma to_ascii_lowercase_Nil [simp]: "to_ascii_lowercase s = [] \<longleftrightarrow> s = []"
  by (simp add: to_ascii_lowercase_def)

lemma to_ascii_lowercase_empty [simp]: "to_ascii_lowercase [] = []"
  by (simp add: to_ascii_lowercase_def)

lemma length_to_ascii_lowercase [simp]: "length (to_ascii_lowercase s) = length s"
  by (simp add: to_ascii_lowercase_def)

lemma eq_ignore_ascii_case_refl [simp]: "eq_ignore_ascii_case s s"
  by (simp add: eq_ignore_ascii_case_def)

lemma eq_ignore_ascii_case_sym: "eq_ignore_ascii_case s t \<longleftrightarrow> eq_ignore_ascii_case t s"
  by (auto simp: eq_ignore_ascii_case_def)

lemma eq_ignore_ascii_case_trans:
  "eq_ignore_ascii_case s t \<Longrightarrow> eq_ignore_ascii_case t u \<Longrightarrow> eq_ignore_ascii_case s u"
  by (simp add: eq_ignore_ascii_case_def)

subsection \<open>Prefixes and substrings\<close>

abbreviation (input) starts_with :: "string \<Rightarrow> string \<Rightarrow> bool" where
  "starts_with s p \<equiv> prefix p s"

text \<open>\<open>str::contains\<close> with a string pattern.\<close>

definition str_contains :: "string \<Rightarrow> string \<Rightarrow> bool" where
  "str_contains s needle = sublist needle s"

subsection \<open>Trimming\<close>

text \<open>
  \<open>str::trim\<close> removes the characters with the Unicode property \<open>White_Space\<close>; these are
  their UTF-8 encodings: U+0009 to U+000D, U+0020, U+0085, U+00A0, U+1680,
  U+2000 to U+200A, U+2028, U+2029, U+202F, U+205F and U+3000.
\<close>

definition white_space :: "string list" where
  "white_space =
     [[CHR 0x09], [CHR 0x0A], [CHR 0x0B], [CHR 0x0C], [CHR 0x0D], [CHR 0x20],
      [CHR 0xC2, CHR 0x85], [CHR 0xC2, CHR 0xA0], [CHR 0xE1, CHR 0x9A, CHR 0x80],
      [CHR 0xE2, CHR 0x80, CHR 0x80], [CHR 0xE2, CHR 0x80, CHR 0x81],
      [CHR 0xE2, CHR 0x80, CHR 0x82], [CHR 0xE2, CHR 0x80, CHR 0x83],
      [CHR 0xE2, CHR 0x80, CHR 0x84], [CHR 0xE2, CHR 0x80, CHR 0x85],
      [CHR 0xE2, CHR 0x80, CHR 0x86], [CHR 0xE2, CHR 0x80, CHR 0x87],
      [CHR 0xE2, CHR 0x80, CHR 0x88], [CHR 0xE2, CHR 0x80, CHR 0x89],
      [CHR 0xE2, CHR 0x80, CHR 0x8A], [CHR 0xE2, CHR 0x80, CHR 0xA8],
      [CHR 0xE2, CHR 0x80, CHR 0xA9], [CHR 0xE2, CHR 0x80, CHR 0xAF],
      [CHR 0xE2, CHR 0x81, CHR 0x9F], [CHR 0xE3, CHR 0x80, CHR 0x80]]"

text \<open>Removing leading occurrences of any of the given byte sequences, as long as one matches.\<close>

function strip_front :: "string list \<Rightarrow> string \<Rightarrow> string" where
  "strip_front ws s =
     (case find (\<lambda>w. w \<noteq> [] \<and> prefix w s) ws of
        None \<Rightarrow> s
      | Some w \<Rightarrow> strip_front ws (drop (length w) s))"
  by pat_completeness auto
termination
  by (relation "measure (\<lambda>(ws, s). length s)")
     (auto simp: find_Some_iff prefix_def)

declare strip_front.simps [simp del]

definition trim_start :: "string \<Rightarrow> string" where
  "trim_start s = strip_front white_space s"

definition trim_end :: "string \<Rightarrow> string" where
  "trim_end s = rev (strip_front (map rev white_space) (rev s))"

definition trim :: "string \<Rightarrow> string" where
  "trim s = trim_end (trim_start s)"

text \<open>\<open>str::trim_end_matches\<close> with a one-byte character pattern.\<close>

definition trim_end_matches :: "char \<Rightarrow> string \<Rightarrow> string" where
  "trim_end_matches c s = rev (dropWhile (\<lambda>x. x = c) (rev s))"

definition stripped :: "string list \<Rightarrow> string \<Rightarrow> bool" where
  "stripped ws s \<longleftrightarrow> (\<forall>w \<in> set ws. w \<noteq> [] \<longrightarrow> \<not> prefix w s)"

lemma stripped_strip_front: "stripped ws (strip_front ws s)"
proof (induction ws s rule: strip_front.induct)
  case (1 ws s)
  then show ?case
    by (subst strip_front.simps) (auto simp: stripped_def find_None_iff split: option.splits)
qed

lemma strip_front_stripped: "stripped ws s \<Longrightarrow> strip_front ws s = s"
  by (subst strip_front.simps) (auto simp: stripped_def find_None_iff find_Some_iff split: option.splits)

lemma suffix_strip_front: "suffix (strip_front ws s) s"
proof (induction ws s rule: strip_front.induct)
  case (1 ws s)
  then show ?case
    by (subst strip_front.simps)
       (auto split: option.splits intro: suffix_order.trans [OF _ suffix_drop])
qed

lemma stripped_prefix: "stripped ws s \<Longrightarrow> prefix t s \<Longrightarrow> stripped ws t"
  by (auto simp: stripped_def intro: prefix_order.trans)

lemma prefix_trim_end: "prefix (trim_end s) s"
  using suffix_strip_front [of "map rev white_space" "rev s"]
  by (simp add: trim_end_def suffix_to_prefix)

lemma trim_end_idem: "trim_end (trim_end s) = trim_end s"
  by (simp add: trim_end_def strip_front_stripped stripped_strip_front)

lemma trim_idem [simp]: "trim (trim s) = trim s"
proof -
  have "stripped white_space (trim_end (trim_start s))"
    using stripped_prefix [OF _ prefix_trim_end] stripped_strip_front
    unfolding trim_start_def by blast
  then have "trim_start (trim s) = trim s"
    by (simp add: trim_def trim_start_def strip_front_stripped)
  then show ?thesis
    by (simp add: trim_def trim_end_idem)
qed

lemma sublist_trim: "sublist (trim s) s"
proof -
  have "prefix (trim s) (trim_start s)"
    unfolding trim_def by (rule prefix_trim_end)
  moreover have "suffix (trim_start s) s"
    unfolding trim_start_def by (rule suffix_strip_front)
  ultimately show ?thesis
    by (blast intro: sublist_order.order.trans)
qed

lemma strip_front_Nil [simp]: "strip_front ws [] = []"
  using suffix_strip_front [of ws "[]"] by simp

lemma trim_Nil [simp]: "trim [] = []"
  by (simp add: trim_def trim_start_def trim_end_def)

lemma trim_end_matches_last: "trim_end_matches c s \<noteq> [] \<Longrightarrow> last (trim_end_matches c s) \<noteq> c"
  by (metis (mono_tags) hd_dropWhile hd_rev rev_is_Nil_conv rev_rev_ident trim_end_matches_def)

lemma prefix_trim_end_matches: "prefix (trim_end_matches c s) s"
  by (simp add: trim_end_matches_def suffix_dropWhile suffix_to_prefix [symmetric]
      flip: suffix_to_prefix) (metis rev_rev_ident suffix_dropWhile suffix_to_prefix)

section \<open>Printing integers\<close>

text \<open>\<open>Display\<close> of the integer types: decimal digits, with a sign when negative.\<close>

fun show_nat :: "nat \<Rightarrow> string" where
  "show_nat n =
     (if n < 10 then [char_of (48 + n)] else show_nat (n div 10) @ [char_of (48 + n mod 10)])"

declare show_nat.simps [simp del]

definition show_int :: "int \<Rightarrow> string" where
  "show_int i = (if i < 0 then CHR ''-'' # show_nat (nat (- i)) else show_nat (nat i))"

lemma digit_chars [str_simps]:
  "char_of (48 :: nat) = CHR ''0''" "char_of (49 :: nat) = CHR ''1''" "char_of (50 :: nat) = CHR ''2''"
  "char_of (51 :: nat) = CHR ''3''" "char_of (52 :: nat) = CHR ''4''" "char_of (53 :: nat) = CHR ''5''"
  "char_of (54 :: nat) = CHR ''6''" "char_of (55 :: nat) = CHR ''7''" "char_of (56 :: nat) = CHR ''8''"
  "char_of (57 :: nat) = CHR ''9''"
  by code_simp+

definition digits_value :: "string \<Rightarrow> nat" where
  "digits_value s = foldl (\<lambda>acc c. 10 * acc + (of_char c - 48)) 0 s"

lemma digits_value_show_nat [simp]: "digits_value (show_nat n) = n"
proof (induction n rule: show_nat.induct)
  case (1 n)
  then show ?case
    by (cases "n < 10") (simp_all add: show_nat.simps [of n] digits_value_def)
qed

lemma show_nat_inject [simp]: "show_nat m = show_nat n \<longleftrightarrow> m = n"
  by (metis digits_value_show_nat)

text \<open>Reading decimal digits: the value so far and the digits still to read.\<close>

definition is_digit :: "char \<Rightarrow> bool" where
  "is_digit c \<longleftrightarrow> 48 \<le> (of_char c :: nat) \<and> (of_char c :: nat) \<le> 57"

definition digits_from :: "nat \<Rightarrow> string \<Rightarrow> nat" where
  "digits_from acc s = foldl (\<lambda>acc c. 10 * acc + (of_char c - 48)) acc s"

lemma digits_from_simps [simp]:
  "digits_from acc [] = acc" "digits_from acc (c # s) = digits_from (10 * acc + (of_char c - 48)) s"
  by (simp_all add: digits_from_def)

lemma digits_value_from: "digits_value s = digits_from 0 s"
  by (simp add: digits_value_def digits_from_def)

lemma digits_from_mono: "acc \<le> digits_from acc s"
proof (induction s arbitrary: acc)
  case (Cons c s)
  show ?case using Cons [of "10 * acc + (of_char c - 48)"] by simp
qed simp

lemma show_nat_digits: "list_all is_digit (show_nat n) \<and> show_nat n \<noteq> []"
proof (induction n rule: show_nat.induct)
  case (1 n)
  have "is_digit (char_of (48 + d))" if "d < 10" for d :: nat
    using that by (simp add: is_digit_def)
  with 1 show ?case by (cases "n < 10") (simp_all add: show_nat.simps [of n])
qed

section \<open>Lists\<close>

lemma filter_split:
  assumes "filter P xs = us @ x # vs"
  obtains bs as where "xs = bs @ x # as" "us = filter P bs" "P x" "vs = filter P as"
  using assms
proof (induction xs arbitrary: us thesis)
  case (Cons y xs)
  show ?case
  proof (cases "P y \<and> us = []")
    case True
    then show ?thesis using Cons.prems(2) by (intro Cons.prems(1) [of "[]" xs]) auto
  next
    case False
    then obtain us' where us: "filter P xs = us' @ x # vs" "us = (if P y then y # us' else us')"
      using Cons.prems(2) by (cases us) (auto split: if_splits)
    obtain bs as where "xs = bs @ x # as" "us' = filter P bs" "P x" "vs = filter P as"
      by (rule Cons.IH [OF _ us(1)])
    then show ?thesis using us(2) by (intro Cons.prems(1) [of "y # bs" as]) auto
  qed
qed simp

end
