(* ===== verification/Config.thy ===== *)
theory Config
  imports Prelude
begin

text \<open>
  The messages of the \<open>argon.config\<close> protocol, one record per message of
  \<open>images/dataplane/src/argon.config.rs\<close> with its fields in tag order.  Field names carry
  the message's initials because record selectors are global.  A protobuf \<open>int32\<close> is a
  32-bit word, a \<open>map<string, string>\<close> a finite partial map, \<open>bytes\<close> a string.
\<close>

record watch_request =
  wr_node_id :: string

record endpoint =
  ep_address :: string
  ep_port :: i32
  ep_weight :: i32
  ep_zone :: string
  ep_region :: string

record header_rewrite =
  hr_name :: string
  hr_mode :: string
  hr_value :: string

record auth_config =
  ac_url :: string
  ac_signin :: string
  ac_response_headers :: "string list"
  ac_skip_paths :: "string list"
  ac_cookie_name :: string

record cluster =
  cl_name :: string
  cl_lb_policy :: string
  cl_endpoints :: "endpoint list"
  cl_timeout_ms :: i32
  cl_retries :: i32
  cl_backend_protocol :: string
  cl_request_headers :: "header_rewrite list"
  cl_backend_tls_insecure_skip_verify :: bool
  cl_auth :: "auth_config option"

record route =
  rt_host :: string
  rt_path :: string
  rt_path_type :: string
  rt_cluster :: string
  rt_priority :: i32

record server_tls_bundle =
  tb_name :: string
  tb_sni :: "string list"
  tb_cert_pem :: string
  tb_key_pem :: string
  tb_not_after_unix :: i64
  tb_version :: string

record snapshot =
  sn_version :: string
  sn_controller_id :: string
  sn_ingress_class_name :: string
  sn_generated_at_unix_sec :: i64
  sn_resource_versions :: "string \<rightharpoonup> string"
  sn_routes :: "route list"
  sn_clusters :: "cluster list"
  sn_server_tls :: "server_tls_bundle list"

text \<open>\<open>Snapshot::default()\<close>: every field at its protobuf default.\<close>

definition snapshot_default :: snapshot where
  "snapshot_default =
     \<lparr>sn_version = [], sn_controller_id = [], sn_ingress_class_name = [],
      sn_generated_at_unix_sec = 0, sn_resource_versions = Map.empty,
      sn_routes = [], sn_clusters = [], sn_server_tls = []\<rparr>"

end
