(* ===== verification/Ordering.thy ===== *)
theory Ordering
  imports Prelude
begin

text \<open>
  \<open>std::cmp::Ordering\<close>, the stable \<open>slice::sort_by\<close> and \<open>Iterator::min_by_key\<close> of the
  Rust standard library.  The locale \<open>total_cmp\<close> is the contract \<open>sort_by\<close> puts on its
  comparison function (a total preorder); under it the sort is sorted, a permutation and
  stable, and the first match in the sorted list is the best match of the unsorted one,
  \<open>best_by\<close>, earliest first among equals.
\<close>

section \<open>Orderings\<close>

datatype ordering = Less | Equal | Greater

text \<open>\<open>Ordering::then\<close> and \<open>Ordering::then_with\<close> (the closure has no effects).\<close>

definition then_cmp :: "ordering \<Rightarrow> ordering \<Rightarrow> ordering" where
  "then_cmp a b = (case a of Equal \<Rightarrow> b | _ \<Rightarrow> a)"

definition reverse_cmp :: "ordering \<Rightarrow> ordering" where
  "reverse_cmp a = (case a of Less \<Rightarrow> Greater | Equal \<Rightarrow> Equal | Greater \<Rightarrow> Less)"

text \<open>\<open>Ord::cmp\<close> on integers.\<close>

definition cmp_of :: "'k::linorder \<Rightarrow> 'k \<Rightarrow> ordering" where
  "cmp_of a b = (if a < b then Less else if b < a then Greater else Equal)"

lemma then_cmp_simps [simp]:
  "then_cmp Equal b = b" "then_cmp Less b = Less" "then_cmp Greater b = Greater"
  by (simp_all add: then_cmp_def)

lemma reverse_cmp_simps [simp]:
  "reverse_cmp Less = Greater" "reverse_cmp Equal = Equal" "reverse_cmp Greater = Less"
  by (simp_all add: reverse_cmp_def)

lemma cmp_of_simps:
  "cmp_of a b = Less \<longleftrightarrow> a < b" "cmp_of a b = Equal \<longleftrightarrow> a = b" "cmp_of a b = Greater \<longleftrightarrow> b < a"
  by (auto simp: cmp_of_def)

section \<open>Sorting and scanning\<close>

text \<open>
  \<open>sort_by\<close> is a stable sort; its result is determined by the comparison function, so an
  insertion that never moves an element past an equal one computes it.
\<close>

fun insert_by :: "('a \<Rightarrow> 'a \<Rightarrow> ordering) \<Rightarrow> 'a \<Rightarrow> 'a list \<Rightarrow> 'a list" where
  "insert_by cmp x [] = [x]"
| "insert_by cmp x (y # ys) = (if cmp x y = Greater then y # insert_by cmp x ys else x # y # ys)"

fun sort_by :: "('a \<Rightarrow> 'a \<Rightarrow> ordering) \<Rightarrow> 'a list \<Rightarrow> 'a list" where
  "sort_by cmp [] = []"
| "sort_by cmp (x # xs) = insert_by cmp x (sort_by cmp xs)"

text \<open>The least element of a list, the earliest one among equals.\<close>

fun best_by :: "('a \<Rightarrow> 'a \<Rightarrow> ordering) \<Rightarrow> 'a list \<Rightarrow> 'a option" where
  "best_by cmp [] = None"
| "best_by cmp (x # xs) =
     (case best_by cmp xs of
        None \<Rightarrow> Some x
      | Some y \<Rightarrow> if cmp x y = Greater then Some y else Some x)"

definition min_by_key :: "('a \<Rightarrow> 'k::linorder) \<Rightarrow> 'a list \<Rightarrow> 'a option" where
  "min_by_key key xs = best_by (\<lambda>a b. cmp_of (key a) (key b)) xs"

definition cmp_le :: "('a \<Rightarrow> 'a \<Rightarrow> ordering) \<Rightarrow> 'a \<Rightarrow> 'a \<Rightarrow> bool" where
  "cmp_le cmp x y \<longleftrightarrow> cmp x y \<noteq> Greater"

lemma mset_insert_by [simp]: "mset (insert_by cmp x ys) = add_mset x (mset ys)"
  by (induction ys) auto

lemma mset_sort_by [simp]: "mset (sort_by cmp xs) = mset xs"
  by (induction xs) auto

lemma set_insert_by [simp]: "set (insert_by cmp x ys) = insert x (set ys)"
  by (induction ys) auto

lemma set_sort_by [simp]: "set (sort_by cmp xs) = set xs"
  by (induction xs) auto

lemma length_sort_by [simp]: "length (sort_by cmp xs) = length xs"
  by (metis mset_sort_by size_mset)

lemma best_by_None [simp]: "best_by cmp xs = None \<longleftrightarrow> xs = []"
  by (cases xs) (auto split: option.splits)

lemma best_by_in_set: "best_by cmp xs = Some r \<Longrightarrow> r \<in> set xs"
  by (induction xs arbitrary: r) (auto split: option.splits if_splits)

section \<open>The contract of a comparison function\<close>

locale total_cmp =
  fixes cmp :: "'a \<Rightarrow> 'a \<Rightarrow> ordering"
  assumes cmp_swap: "cmp y x = reverse_cmp (cmp x y)"
    and cmp_le_trans: "cmp x y \<noteq> Greater \<Longrightarrow> cmp y z \<noteq> Greater \<Longrightarrow> cmp x z \<noteq> Greater"
begin

lemma cmp_refl: "cmp x x = Equal"
  using cmp_swap [of x x] by (cases "cmp x x") auto

lemma cmp_GreaterD: "cmp x y = Greater \<Longrightarrow> cmp y x = Less"
  by (simp add: cmp_swap [of y x])

lemma sorted_insert_by:
  "sorted_wrt (cmp_le cmp) ys \<Longrightarrow> sorted_wrt (cmp_le cmp) (insert_by cmp x ys)"
  by (induction ys) (use cmp_le_trans in \<open>fastforce simp: cmp_le_def dest: cmp_GreaterD\<close>)+

lemma sorted_sort_by: "sorted_wrt (cmp_le cmp) (sort_by cmp xs)"
  by (induction xs) (auto intro: sorted_insert_by)

lemma filter_insert_by_Equal:
  "cmp k x = Equal \<Longrightarrow>
   filter (\<lambda>y. cmp k y = Equal) (insert_by cmp x ys) = x # filter (\<lambda>y. cmp k y = Equal) ys"
proof (induction ys)
  case (Cons y ys)
  show ?case
  proof (cases "cmp x y = Greater")
    case True
    have "cmp k y \<noteq> Equal"
    proof
      assume "cmp k y = Equal"
      then have "cmp x y \<noteq> Greater"
        using Cons.prems cmp_le_trans [of x k y] cmp_swap [of x k] by simp
      with True show False by simp
    qed
    with True Cons show ?thesis by simp
  next
    case False
    with Cons.prems show ?thesis by simp
  qed
qed simp

lemma filter_insert_by_other:
  "cmp k x \<noteq> Equal \<Longrightarrow>
   filter (\<lambda>y. cmp k y = Equal) (insert_by cmp x ys) = filter (\<lambda>y. cmp k y = Equal) ys"
  by (induction ys) auto

lemma stable_sort_by:
  "filter (\<lambda>y. cmp k y = Equal) (sort_by cmp xs) = filter (\<lambda>y. cmp k y = Equal) xs"
proof (induction xs)
  case (Cons x xs)
  then show ?case
    by (cases "cmp k x = Equal") (simp_all add: filter_insert_by_Equal filter_insert_by_other)
qed simp

lemma find_insert_by:
  assumes "sorted_wrt (cmp_le cmp) ys"
  shows "find P (insert_by cmp x ys) =
     (if P x then
        (case find P ys of
           None \<Rightarrow> Some x
         | Some y \<Rightarrow> if cmp x y = Greater then Some y else Some x)
      else find P ys)"
  using assms
proof (induction ys)
  case (Cons y ys)
  have le: "cmp x y \<noteq> Greater \<Longrightarrow> find P ys = Some z \<Longrightarrow> cmp x z \<noteq> Greater" for z
    using Cons.prems cmp_le_trans [of x y z] by (auto simp: cmp_le_def find_Some_iff)
  show ?case
    using Cons le by (auto split: option.splits)
qed simp

text \<open>The first match of the sorted list is the best match of the unsorted one.\<close>

lemma find_sort_by: "find P (sort_by cmp xs) = best_by cmp (filter P xs)"
  by (induction xs) (simp_all add: find_insert_by sorted_sort_by)

text \<open>What \<open>best_by\<close> returns: smaller than everything before it, at most everything after it.\<close>

lemma best_by_split:
  "best_by cmp xs = Some r \<Longrightarrow>
   \<exists>ps qs. xs = ps @ r # qs \<and> (\<forall>p \<in> set ps. cmp r p = Less) \<and> (\<forall>q \<in> set qs. cmp r q \<noteq> Greater)"
proof (induction xs arbitrary: r)
  case (Cons x xs)
  show ?case
  proof (cases "best_by cmp xs")
    case None
    with Cons.prems have "x # xs = [] @ r # []" by simp
    then show ?thesis by force
  next
    case (Some y)
    from Cons.IH [OF Some] obtain ps qs where
      *: "xs = ps @ y # qs" "\<forall>p \<in> set ps. cmp y p = Less" "\<forall>q \<in> set qs. cmp y q \<noteq> Greater"
      by blast
    show ?thesis
    proof (cases "cmp x y = Greater")
      case True
      with Cons.prems Some have r: "r = y" by simp
      have "x # xs = (x # ps) @ y # qs" using *(1) by simp
      moreover have "\<forall>p \<in> set (x # ps). cmp y p = Less"
        using *(2) cmp_GreaterD [OF True] by simp
      ultimately show ?thesis using *(3) r by blast
    next
      case False
      with Cons.prems Some have r: "r = x" by simp
      have "\<forall>q \<in> set xs. cmp x q \<noteq> Greater"
      proof
        fix q
        assume "q \<in> set xs"
        with * have "cmp y q \<noteq> Greater" using cmp_refl by auto
        then show "cmp x q \<noteq> Greater" using False cmp_le_trans by blast
      qed
      with r show ?thesis by (intro exI [of _ "[]"] exI [of _ xs]) simp
    qed
  qed
qed simp

lemma best_by_le: "best_by cmp xs = Some r \<Longrightarrow> y \<in> set xs \<Longrightarrow> cmp r y \<noteq> Greater"
  using best_by_split [of xs r] cmp_refl by fastforce

end

text \<open>Comparing by a key into a linear order meets the contract.\<close>

interpretation key_cmp: total_cmp "\<lambda>a b. cmp_of (key a :: 'k::linorder) (key b)"
  by unfold_locales (auto simp: cmp_of_def split: if_splits)

lemma min_by_key_None [simp]: "min_by_key key xs = None \<longleftrightarrow> xs = []"
  by (simp add: min_by_key_def)

lemma min_by_key_SomeD:
  assumes "min_by_key key xs = Some r"
  shows "r \<in> set xs" "y \<in> set xs \<Longrightarrow> key r \<le> key y"
proof -
  show "r \<in> set xs" using assms best_by_in_set by (auto simp: min_by_key_def)
  assume "y \<in> set xs"
  with assms have "cmp_of (key r) (key y) \<noteq> Greater"
    unfolding min_by_key_def by (rule key_cmp.best_by_le)
  then show "key r \<le> key y" by (auto simp: cmp_of_simps)
qed

end
