(* ===== verification/Atomics.thy ===== *)
theory Atomics
  imports Prelude
begin

text \<open>
  The shared counters of the data plane.  An \<open>Arc<AtomicUsize>\<close> is an address of a store
  of cells, so that two clones of the same \<open>Arc\<close> (the one kept in a cluster and the one a
  request holds) name the same cell, and a rebuilt routing table gets cells of its own.
  Every operation of \<open>std::sync::atomic\<close> is one atomic step on the store; arithmetic
  wraps at the width of \<open>usize\<close>.
\<close>

type_synonym arc = nat

record store =
  cells :: "arc \<Rightarrow> usize"
  fresh :: arc

definition store_init :: store where
  "store_init = \<lparr>cells = (\<lambda>_. 0), fresh = 0\<rparr>"

text \<open>\<open>Arc::new(AtomicUsize::new(v))\<close>.\<close>

definition atomic_new :: "usize \<Rightarrow> store \<Rightarrow> arc \<times> store" where
  "atomic_new v s = (fresh s, s\<lparr>cells := (cells s)(fresh s := v), fresh := Suc (fresh s)\<rparr>)"

definition atomic_load :: "arc \<Rightarrow> store \<Rightarrow> usize" where
  "atomic_load a s = cells s a"

text \<open>\<open>fetch_add\<close> and \<open>fetch_sub\<close> return the previous value.\<close>

definition fetch_add :: "arc \<Rightarrow> usize \<Rightarrow> store \<Rightarrow> usize \<times> store" where
  "fetch_add a d s = (cells s a, s\<lparr>cells := (cells s)(a := cells s a + d)\<rparr>)"

definition fetch_sub :: "arc \<Rightarrow> usize \<Rightarrow> store \<Rightarrow> usize \<times> store" where
  "fetch_sub a d s = (cells s a, s\<lparr>cells := (cells s)(a := cells s a - d)\<rparr>)"

lemmas atomic_defs = atomic_new_def atomic_load_def fetch_add_def fetch_sub_def

text \<open>One store extends another: no cell is freed and the old cells keep their values.\<close>

definition extends :: "store \<Rightarrow> store \<Rightarrow> bool" where
  "extends s t \<longleftrightarrow> fresh s \<le> fresh t \<and> (\<forall>a < fresh s. cells t a = cells s a)"

lemma extends_refl [simp, intro]: "extends s s"
  by (simp add: extends_def)

lemma extends_trans: "extends s t \<Longrightarrow> extends t u \<Longrightarrow> extends s u"
  by (auto simp: extends_def)

lemma extends_atomic_new: "extends s (snd (atomic_new v s))"
  by (simp add: extends_def atomic_new_def)

lemma extends_fresh: "extends s t \<Longrightarrow> fresh s \<le> fresh t"
  by (simp add: extends_def)

lemma extends_cells: "extends s t \<Longrightarrow> a < fresh s \<Longrightarrow> cells t a = cells s a"
  by (simp add: extends_def)

end
