(* ===== verification/Dash_Map.thy ===== *)
theory Dash_Map
  imports Atomics "HOL-Library.AList"
begin

text \<open>
  The interface of \<open>dashmap::DashMap\<close>, a third-party concurrent map.  Its operations are
  a parameter of the model (a record of functions over an abstract type \<open>'d\<close>), and the
  locale \<open>dash_map\<close> states what its documentation promises: a lookup returns the last
  value inserted for the key, and iteration visits each entry once, in an order that is
  not specified.  Association lists implement the interface.
\<close>

record ('d, 'k, 'v) dash_ops =
  dash_with_capacity :: "nat \<Rightarrow> 'd"
  dash_insert :: "'k \<Rightarrow> 'v \<Rightarrow> 'd \<Rightarrow> 'd"
  dash_get :: "'d \<Rightarrow> 'k \<Rightarrow> 'v option"
  dash_iter :: "'d \<Rightarrow> ('k \<times> 'v) list"

locale dash_map =
  fixes dm :: "('d, 'k, 'v) dash_ops"
  assumes get_empty: "dash_get dm (dash_with_capacity dm n) k = None"
    and get_insert: "dash_get dm (dash_insert dm k v d) k' = (if k' = k then Some v else dash_get dm d k')"
    and distinct_iter: "distinct (map fst (dash_iter dm d))"
    and iter_get: "(k, v) \<in> set (dash_iter dm d) \<longleftrightarrow> dash_get dm d k = Some v"
begin

lemma iter_Nil: "dash_iter dm d = [] \<longleftrightarrow> (\<forall>k. dash_get dm d k = None)"
proof
  assume "dash_iter dm d = []"
  then show "\<forall>k. dash_get dm d k = None"
    using iter_get [of _ _ d] by (metis empty_iff list.set(1) not_None_eq)
next
  assume *: "\<forall>k. dash_get dm d k = None"
  show "dash_iter dm d = []"
  proof (cases "dash_iter dm d")
    case (Cons e es)
    then show ?thesis using iter_get [of "fst e" "snd e" d] * by simp
  qed
qed

end

definition alist_dash :: "(('k \<times> 'v) list, 'k, 'v) dash_ops" where
  "alist_dash =
     \<lparr>dash_with_capacity = (\<lambda>n. []), dash_insert = (\<lambda>k v d. (k, v) # AList.delete k d),
      dash_get = map_of, dash_iter = AList.clearjunk\<rparr>"

lemma alist_dash_simps [simp]:
  "dash_with_capacity alist_dash n = []"
  "dash_insert alist_dash k v d = (k, v) # AList.delete k d"
  "dash_get alist_dash = map_of"
  "dash_iter alist_dash = AList.clearjunk"
  by (simp_all add: alist_dash_def)

interpretation alist: dash_map alist_dash
proof
  fix k :: 'k and v :: 'v and d :: "('k \<times> 'v) list"
  show "(k, v) \<in> set (dash_iter alist_dash d) \<longleftrightarrow> dash_get alist_dash d k = Some v"
    by (metis alist_dash_simps(3,4) distinct_clearjunk map_of_clearjunk map_of_eq_Some_iff)
qed (simp_all add: distinct_clearjunk delete_conv)

end
