(* ===== verification/Auth_Runtime.thy ===== *)
theory Auth_Runtime
  imports Config
begin

text \<open>
  \<open>AuthConfigDex\<close> of \<open>snapshot.rs\<close>: the per-cluster authorization settings the proxy works
  with, built from the \<open>AuthConfig\<close> message.  Blank strings become \<open>None\<close>, and the lists
  of header names and of skipped path prefixes are trimmed, freed of blanks and of
  duplicates up to ASCII case, in order.
\<close>

record auth_config_dex =
  ax_url :: "string option"
  ax_signin :: "string option"
  ax_response_headers :: "string list"
  ax_skip_paths :: "string list"
  ax_cookie_name :: "string option"

text \<open>The loop of \<open>normalize_list\<close>; \<open>out\<close> is the vector built so far.\<close>

fun normalize_loop :: "string list \<Rightarrow> string list \<Rightarrow> string list" where
  "normalize_loop out [] = out"
| "normalize_loop out (s # items) =
     (let v = trim s in
      if v = [] then normalize_loop out items
      else if \<not> list_ex (\<lambda>x. eq_ignore_ascii_case x v) out then normalize_loop (out @ [v]) items
      else normalize_loop out items)"

definition normalize_list :: "string list \<Rightarrow> string list" where
  "normalize_list items = normalize_loop [] items"

definition non_blank :: "string \<Rightarrow> string option" where
  "non_blank s = (if trim s = [] then None else Some s)"

definition auth_from_pb :: "auth_config \<Rightarrow> auth_config_dex" where
  "auth_from_pb pb =
     \<lparr>ax_url = non_blank (ac_url pb),
      ax_signin = non_blank (ac_signin pb),
      ax_response_headers = normalize_list (ac_response_headers pb),
      ax_skip_paths = normalize_list (ac_skip_paths pb),
      ax_cookie_name = non_blank (ac_cookie_name pb)\<rparr>"

definition build_auth_runtime :: "auth_config option \<Rightarrow> auth_config_dex option" where
  "build_auth_runtime auth =
     (case auth of
        None \<Rightarrow> None
      | Some pb \<Rightarrow>
          (let has_any =
             trim (ac_url pb) \<noteq> [] \<or> trim (ac_signin pb) \<noteq> [] \<or>
             ac_response_headers pb \<noteq> [] \<or> ac_skip_paths pb \<noteq> [] \<or>
             trim (ac_cookie_name pb) \<noteq> []
           in if \<not> has_any then None else Some (auth_from_pb pb)))"

section \<open>The normalized lists\<close>

text \<open>What the loop keeps: trimmed, not blank, no two equal up to ASCII case.\<close>

definition normalized :: "string list \<Rightarrow> bool" where
  "normalized xs \<longleftrightarrow>
     (\<forall>x \<in> set xs. trim x = x \<and> x \<noteq> []) \<and>
     sorted_wrt (\<lambda>x y. \<not> eq_ignore_ascii_case x y) xs"

lemma normalized_snoc:
  "normalized out \<Longrightarrow> trim v = v \<Longrightarrow> v \<noteq> [] \<Longrightarrow> \<not> list_ex (\<lambda>x. eq_ignore_ascii_case x v) out
   \<Longrightarrow> normalized (out @ [v])"
  by (auto simp: normalized_def sorted_wrt_append list_ex_iff)

lemma normalized_loop: "normalized out \<Longrightarrow> normalized (normalize_loop out items)"
  by (induction items arbitrary: out) (simp_all add: Let_def normalized_snoc)

lemma normalized_normalize_list: "normalized (normalize_list items)"
  unfolding normalize_list_def by (rule normalized_loop) (simp add: normalized_def)

lemma prefix_normalize_loop: "prefix out (normalize_loop out items)"
proof (induction items arbitrary: out)
  case (Cons s items)
  have "prefix out (normalize_loop (out @ [trim s]) items)"
    using prefix_order.trans [OF prefixI Cons.IH] by blast
  with Cons.IH show ?case by (simp add: Let_def)
qed simp

lemma normalize_loop_sound:
  "v \<in> set (normalize_loop out items) \<Longrightarrow> v \<in> set out \<or> v \<in> trim ` set items"
proof (induction items arbitrary: out)
  case (Cons s items)
  then have "v \<in> set (normalize_loop out items) \<or> v \<in> set (normalize_loop (out @ [trim s]) items)"
    by (auto simp: Let_def split: if_splits)
  then show ?case using Cons.IH by fastforce
qed simp

lemma normalize_loop_complete:
  "s \<in> set items \<Longrightarrow> trim s \<noteq> [] \<Longrightarrow>
   \<exists>v \<in> set (normalize_loop out items). eq_ignore_ascii_case v (trim s)"
proof (induction items arbitrary: out)
  case (Cons t items)
  show ?case
  proof (cases "s \<in> set items")
    case True
    then show ?thesis using Cons by (auto simp: Let_def)
  next
    case False
    with Cons.prems have [simp]: "t = s" by simp
    have sub: "set out' \<subseteq> set (normalize_loop out' items)" for out'
      using set_mono_prefix [OF prefix_normalize_loop] .
    show ?thesis
    proof (cases "list_ex (\<lambda>x. eq_ignore_ascii_case x (trim s)) out")
      case True
      then show ?thesis using Cons.prems sub [of out] by (auto simp: Let_def list_ex_iff)
    next
      case False
      then show ?thesis
        using Cons.prems sub [of "out @ [trim s]"] by (auto simp: Let_def intro!: bexI [of _ "trim s"])
    qed
  qed
qed simp

lemma normalize_loop_normalized: "normalized (out @ items) \<Longrightarrow> normalize_loop out items = out @ items"
proof (induction items arbitrary: out)
  case (Cons x items)
  have "normalized ((out @ [x]) @ items)" using Cons.prems by simp
  moreover have "trim x = x" "x \<noteq> []" "\<not> list_ex (\<lambda>y. eq_ignore_ascii_case y x) out"
    using Cons.prems by (auto simp: normalized_def sorted_wrt_append list_ex_iff)
  ultimately show ?case using Cons.IH by (simp add: Let_def)
qed simp

lemma normalize_list_normalized: "normalized xs \<Longrightarrow> normalize_list xs = xs"
  by (simp add: normalize_list_def normalize_loop_normalized)

text \<open>
  \<open>normalize_list\<close> returns a list of trimmed, non-blank entries of the input with no two
  equal up to ASCII case, in which every non-blank input item is represented up to
  case; and normalizing again changes nothing.
\<close>

theorem normalize_list_correct:
  "normalized (normalize_list items)
   \<and> set (normalize_list items) \<subseteq> set (map trim items)
   \<and> set (map trim items) - {[]}
       \<subseteq> {t. \<exists>v \<in> set (normalize_list items). eq_ignore_ascii_case v t}
   \<and> normalize_list (normalize_list items) = normalize_list items"
  using normalize_loop_sound [of _ "[]" items] normalize_loop_complete [of _ items "[]"]
    normalized_normalize_list [of items] normalize_list_normalized
  by (auto simp: normalize_list_def)

end
