(* ===== verification/Http_Lib.thy ===== *)
theory Http_Lib
  imports Prelude
begin

text \<open>
  The interface of the third-party \<open>http\<close> crate.  Its functions are parameters of the
  model: \<open>header_ops\<close> holds the operations of \<open>HeaderMap\<close> over an abstract type \<open>'h\<close>, and
  \<open>http_lib\<close> adds the fallible constructors of header names, header values, authorities
  and URIs over an abstract URI type \<open>'u\<close>.  A header name is its canonical string
  (\<open>HeaderName::as_str\<close>), a header value its bytes, an authority its string.

  The locale \<open>header_map\<close> states what the documentation of \<open>HeaderMap\<close> promises, in terms
  of the list of values \<open>get_all\<close> returns for a name.
\<close>

type_synonym header_name = string
type_synonym header_value = string
type_synonym authority = string

record 'h header_ops =
  hm_new :: 'h
  hm_get_all :: "'h \<Rightarrow> header_name \<Rightarrow> header_value list"
  hm_get :: "'h \<Rightarrow> header_name \<Rightarrow> header_value option"
  hm_contains_key :: "'h \<Rightarrow> header_name \<Rightarrow> bool"
  hm_insert :: "header_name \<Rightarrow> header_value \<Rightarrow> 'h \<Rightarrow> 'h"
  hm_append :: "header_name \<Rightarrow> header_value \<Rightarrow> 'h \<Rightarrow> 'h"
  hm_remove :: "header_name \<Rightarrow> 'h \<Rightarrow> 'h"

datatype scheme = HTTP | HTTPS | OtherScheme string

text \<open>\<open>http::uri::Parts\<close>.\<close>

record uri_parts =
  up_scheme :: "scheme option"
  up_authority :: "authority option"
  up_path_and_query :: "string option"

record ('h, 'u) http_lib =
  hl_headers :: "'h header_ops"
  header_name_from_bytes :: "string \<Rightarrow> header_name option"
  header_value_from_str :: "string \<Rightarrow> header_value option"
  header_value_to_str :: "header_value \<Rightarrow> string option"
  authority_from_str :: "string \<Rightarrow> authority option"
  authority_host :: "authority \<Rightarrow> string"
  uri_from_str :: "string \<Rightarrow> 'u option"
  uri_path :: "'u \<Rightarrow> string"
  uri_host :: "'u \<Rightarrow> string option"
  uri_path_and_query :: "'u \<Rightarrow> string option"
  uri_into_parts :: "'u \<Rightarrow> uri_parts"
  uri_from_parts :: "uri_parts \<Rightarrow> 'u option"

section \<open>The header map\<close>

locale header_map =
  fixes hm :: "'h header_ops"
  assumes get_all_new: "hm_get_all hm (hm_new hm) n = []"
    and get_get_all:
      "hm_get hm h n = (case hm_get_all hm h n of [] \<Rightarrow> None | v # _ \<Rightarrow> Some v)"
    and contains_key_get_all: "hm_contains_key hm h n \<longleftrightarrow> hm_get_all hm h n \<noteq> []"
    and get_all_insert:
      "hm_get_all hm (hm_insert hm n v h) m = (if m = n then [v] else hm_get_all hm h m)"
    and get_all_append:
      "hm_get_all hm (hm_append hm n v h) m =
         (if m = n then hm_get_all hm h m @ [v] else hm_get_all hm h m)"
    and get_all_remove:
      "hm_get_all hm (hm_remove hm n h) m = (if m = n then [] else hm_get_all hm h m)"
begin

lemmas get_all_simps = get_all_new get_all_insert get_all_append get_all_remove

lemma get_insert: "hm_get hm (hm_insert hm n v h) m = (if m = n then Some v else hm_get hm h m)"
  by (simp add: get_get_all get_all_insert)

lemma get_remove: "hm_get hm (hm_remove hm n h) m = (if m = n then None else hm_get hm h m)"
  by (simp add: get_get_all get_all_remove)

lemma contains_key_get: "hm_contains_key hm h n \<longleftrightarrow> hm_get hm h n \<noteq> None"
  by (simp add: contains_key_get_all get_get_all split: list.splits)

lemma get_all_fold_remove:
  "hm_get_all hm (fold (hm_remove hm) ns h) m = (if m \<in> set ns then [] else hm_get_all hm h m)"
  by (induction ns arbitrary: h) (auto simp: get_all_remove)

end

text \<open>A multimap from names to lists of values implements the interface.\<close>

definition multimap_headers :: "(header_name \<Rightarrow> header_value list) header_ops" where
  "multimap_headers =
     \<lparr>hm_new = (\<lambda>_. []), hm_get_all = (\<lambda>h n. h n),
      hm_get = (\<lambda>h n. case h n of [] \<Rightarrow> None | v # _ \<Rightarrow> Some v),
      hm_contains_key = (\<lambda>h n. h n \<noteq> []),
      hm_insert = (\<lambda>n v h. h(n := [v])), hm_append = (\<lambda>n v h. h(n := h n @ [v])),
      hm_remove = (\<lambda>n h. h(n := []))\<rparr>"

lemma multimap_headers_simps [simp]:
  "hm_new multimap_headers = (\<lambda>_. [])"
  "hm_get_all multimap_headers = (\<lambda>h n. h n)"
  "hm_get multimap_headers = (\<lambda>h n. case h n of [] \<Rightarrow> None | v # _ \<Rightarrow> Some v)"
  "hm_contains_key multimap_headers = (\<lambda>h n. h n \<noteq> [])"
  "hm_insert multimap_headers = (\<lambda>n v h. h(n := [v]))"
  "hm_append multimap_headers = (\<lambda>n v h. h(n := h n @ [v]))"
  "hm_remove multimap_headers = (\<lambda>n h. h(n := []))"
  by (simp_all add: multimap_headers_def)

interpretation mm: header_map multimap_headers
  by unfold_locales simp_all

lemma header_map_multimap: "header_map multimap_headers"
  by (rule mm.header_map_axioms)

end
