(* ===== verification/Header_Rules.thy ===== *)
theory Header_Rules
  imports Config Http_Lib
begin

text \<open>
  The request-header rewrites of a cluster: \<open>HeaderRewriteMode\<close>, \<open>HeaderRewriteRule\<close> and
  \<open>build_header_rewrites\<close> of \<open>snapshot.rs\<close>, and \<open>apply_header_rewrites\<close> of \<open>proxy.rs\<close>.
  \<open>rewrite_values\<close> is the specification: what a list of rules does to the values of one
  header.
\<close>

datatype header_rewrite_mode = Set | Append | Remove

definition header_rewrite_mode_parse :: "string \<Rightarrow> header_rewrite_mode option" where
  "header_rewrite_mode_parse mode =
     (let m = to_ascii_lowercase mode in
      if m = ''set'' then Some Set
      else if m = ''append'' then Some Append
      else if m = ''remove'' then Some Remove
      else None)"

record header_rewrite_rule =
  hrr_name :: header_name
  hrr_value :: "string option"
  hrr_mode :: header_rewrite_mode

section \<open>Building the rules\<close>

text \<open>
  The loop over the configured items; each \<open>continue\<close> of the source is a branch that drops
  the item.  \<open>from_bytes\<close> is \<open>HeaderName::from_bytes\<close>.
\<close>

fun build_header_rewrites ::
  "(string \<Rightarrow> header_name option) \<Rightarrow> header_rewrite list \<Rightarrow> header_rewrite_rule list" where
  "build_header_rewrites from_bytes [] = []"
| "build_header_rewrites from_bytes (item # items) =
     (let name = trim (hr_name item) in
      if name = [] then build_header_rewrites from_bytes items
      else case header_rewrite_mode_parse (hr_mode item) of
        None \<Rightarrow> build_header_rewrites from_bytes items
      | Some mode \<Rightarrow>
          (let value = (if mode = Remove then None else Some (hr_value item)) in
           case from_bytes name of
             None \<Rightarrow> build_header_rewrites from_bytes items
           | Some header_name \<Rightarrow>
               \<lparr>hrr_name = header_name, hrr_value = value, hrr_mode = mode\<rparr>
               # build_header_rewrites from_bytes items))"

text \<open>A rule carries a value exactly when its mode uses one.\<close>

definition rule_wf :: "header_rewrite_rule \<Rightarrow> bool" where
  "rule_wf r \<longleftrightarrow> (hrr_value r = None \<longleftrightarrow> hrr_mode r = Remove)"

lemma rules_wf_build: "r \<in> set (build_header_rewrites fb items) \<Longrightarrow> rule_wf r"
  by (induction items) (auto simp: Let_def rule_wf_def split: if_splits option.splits)

lemma rules_origin:
  "r \<in> set (build_header_rewrites fb items) \<Longrightarrow>
   \<exists>item \<in> set items. fb (trim (hr_name item)) = Some (hrr_name r)
     \<and> header_rewrite_mode_parse (hr_mode item) = Some (hrr_mode r)
     \<and> (hrr_mode r \<noteq> Remove \<longrightarrow> hrr_value r = Some (hr_value item))"
  by (induction items) (auto simp: Let_def split: if_splits option.splits)

section \<open>Applying the rules\<close>

text \<open>One iteration of the loop of \<open>apply_header_rewrites\<close>; \<open>from_str\<close> is \<open>HeaderValue::from_str\<close>.\<close>

definition apply_header_rewrite ::
  "'h header_ops \<Rightarrow> (string \<Rightarrow> header_value option) \<Rightarrow> header_rewrite_rule \<Rightarrow> 'h \<Rightarrow> 'h" where
  "apply_header_rewrite hm from_str rule headers =
     (case hrr_mode rule of
        Remove \<Rightarrow> hm_remove hm (hrr_name rule) headers
      | _ \<Rightarrow>
          (case hrr_value rule of
             None \<Rightarrow> headers
           | Some value \<Rightarrow>
               (case from_str value of
                  Some header_value \<Rightarrow>
                    if hrr_mode rule = Set then hm_insert hm (hrr_name rule) header_value headers
                    else hm_append hm (hrr_name rule) header_value headers
                | None \<Rightarrow> headers)))"

definition apply_header_rewrites ::
  "'h header_ops \<Rightarrow> (string \<Rightarrow> header_value option) \<Rightarrow> 'h \<Rightarrow> header_rewrite_rule list \<Rightarrow> 'h" where
  "apply_header_rewrites hm from_str headers rewrites =
     fold (apply_header_rewrite hm from_str) rewrites headers"

text \<open>The specification: the effect on the values of the header \<open>n\<close>, rule by rule.\<close>

definition rewrite_value_list ::
  "(string \<Rightarrow> header_value option) \<Rightarrow> header_name \<Rightarrow> header_rewrite_rule
    \<Rightarrow> header_value list \<Rightarrow> header_value list" where
  "rewrite_value_list from_str n rule vs =
     (if hrr_name rule \<noteq> n then vs
      else case (hrr_mode rule, Option.bind (hrr_value rule) from_str) of
        (Remove, _) \<Rightarrow> []
      | (Set, Some v) \<Rightarrow> [v]
      | (Append, Some v) \<Rightarrow> vs @ [v]
      | (_, None) \<Rightarrow> vs)"

definition rewrite_values ::
  "(string \<Rightarrow> header_value option) \<Rightarrow> header_name \<Rightarrow> header_rewrite_rule list
    \<Rightarrow> header_value list \<Rightarrow> header_value list" where
  "rewrite_values from_str n rules vs = fold (rewrite_value_list from_str n) rules vs"

context header_map begin

lemma get_all_apply_header_rewrite:
  "hm_get_all hm (apply_header_rewrite hm fs rule h) n
     = rewrite_value_list fs n rule (hm_get_all hm h n)"
  by (auto simp: apply_header_rewrite_def rewrite_value_list_def get_all_simps
      split: header_rewrite_mode.splits option.splits)

lemma get_all_apply_header_rewrites:
  "hm_get_all hm (apply_header_rewrites hm fs h rules) n
     = rewrite_values fs n rules (hm_get_all hm h n)"
  unfolding apply_header_rewrites_def rewrite_values_def
  by (induction rules arbitrary: h) (simp_all add: get_all_apply_header_rewrite)

end

lemma rewrite_values_other:
  "n \<notin> hrr_name ` set rules \<Longrightarrow> rewrite_values fs n rules vs = vs"
  unfolding rewrite_values_def
  by (induction rules arbitrary: vs) (auto simp: rewrite_value_list_def)

lemma rewrite_values_snoc:
  "rewrite_values fs n (rules @ [r]) vs = rewrite_value_list fs n r (rewrite_values fs n rules vs)"
  by (simp add: rewrite_values_def)

text \<open>
  C35: \<open>apply_header_rewrites\<close> refines the per-header specification: after it, the values of
  every header are those of the rules replayed in order on the header's old values
  (\<open>set\<close> replaces them all, \<open>append\<close> adds one at the end, \<open>remove\<close> deletes the header, a
  value that is not a legal header value leaves them alone).
\<close>

theorem apply_header_rewrites_refines:
  assumes "header_map hm"
  shows "hm_get_all hm (apply_header_rewrites hm from_str headers rewrites) n
     = rewrite_values from_str n rewrites (hm_get_all hm headers n)"
  by (rule header_map.get_all_apply_header_rewrites [OF assms])

theorem apply_header_rewrites_refines_witness:
  "hm_get_all multimap_headers
     (apply_header_rewrites multimap_headers Some ((\<lambda>_. [])(''x'' := [''1'']))
        [\<lparr>hrr_name = ''x'', hrr_value = Some ''2'', hrr_mode = Append\<rparr>]) ''x'' = [''1'', ''2'']"
  by (subst apply_header_rewrites_refines [OF header_map_multimap])
     (simp add: rewrite_values_def rewrite_value_list_def)

end
