(* ===== verification/Clusters.thy ===== *)
theory Clusters
  imports Config Ordering Dash_Map Auth_Runtime Header_Rules
begin

text \<open>
  The load-balancing half of \<open>snapshot.rs\<close>: \<open>LBPolicy\<close>, \<open>BackendProtocol\<close>, \<open>EndpointKey\<close>,
  \<open>ClusterRule\<close> and the two selection algorithms.  The counters are cells of the store of
  \<open>Atomics\<close>; \<open>dm\<close> is the \<open>DashMap\<close> that finds the counter of an endpoint.
\<close>

datatype lb_policy = RoundRobin | LeastConn

definition lb_policy_parse :: "string \<Rightarrow> lb_policy option" where
  [parse_defs]: "lb_policy_parse s =
     (if s = ''RoundRobin'' then Some RoundRobin
      else if s = ''LeastConn'' then Some LeastConn else None)"

datatype backend_protocol = H1 | H2 | H1Ssl | H2Ssl

definition backend_protocol_parse :: "string \<Rightarrow> backend_protocol option" where
  [parse_defs]: "backend_protocol_parse s =
     (if s = ''h1'' then Some H1
      else if s = ''h2'' then Some H2
      else if s = ''h1-ssl'' then Some H1Ssl
      else if s = ''h2-ssl'' then Some H2Ssl else None)"

text \<open>An index into a vector fits in \<open>usize\<close>, so it is a natural number here.\<close>

record endpoint_key =
  ek_address :: string
  ek_port :: i32
  ek_index :: nat

definition endpoint_key_from_endpoint :: "nat \<Rightarrow> endpoint \<Rightarrow> endpoint_key" where
  "endpoint_key_from_endpoint i e =
     \<lparr>ek_address = ep_address e, ek_port = ep_port e, ek_index = i\<rparr>"

type_synonym 'd counters = "('d, endpoint_key, arc) dash_ops"

fun build_map_loop ::
  "'d counters \<Rightarrow> nat \<Rightarrow> endpoint list \<Rightarrow> 'd \<Rightarrow> store \<Rightarrow> 'd \<times> store" where
  "build_map_loop dm i [] d s = (d, s)"
| "build_map_loop dm i (e # es) d s =
     (let key = endpoint_key_from_endpoint i e; (a, s') = atomic_new 0 s
      in build_map_loop dm (Suc i) es (dash_insert dm key a d) s')"

definition build_map :: "'d counters \<Rightarrow> endpoint list \<Rightarrow> store \<Rightarrow> 'd \<times> store" where
  "build_map dm endpoints s =
     build_map_loop dm 0 endpoints (dash_with_capacity dm (length endpoints)) s"

record 'd cluster_rule =
  cr_name :: string
  cr_lb_policy :: lb_policy
  cr_endpoints :: "endpoint list"
  cr_timeout_ms :: i32
  cr_retries :: i32
  cr_backend_protocol :: backend_protocol
  cr_request_headers :: "header_rewrite_rule list"
  cr_backend_tls_insecure_skip_verify :: bool
  cr_rr_cursor :: arc
  cr_least_conn_cursor :: 'd
  cr_auth :: "auth_config_dex option"

record selected_endpoint =
  se_endpoint :: endpoint
  se_counter :: "arc option"

text \<open>The body of the cluster loop of \<open>RouteTable::new\<close>: \<open>None\<close> when the policy is unknown.\<close>

definition new_cluster ::
  "'d counters \<Rightarrow> (string \<Rightarrow> header_name option) \<Rightarrow> cluster \<Rightarrow> store
    \<Rightarrow> 'd cluster_rule option \<times> store" where
  "new_cluster dm from_bytes c s =
     (let bp = (case backend_protocol_parse (cl_backend_protocol c) of None \<Rightarrow> H1 | Some p \<Rightarrow> p) in
      case lb_policy_parse (cl_lb_policy c) of
        None \<Rightarrow> (None, s)
      | Some lb \<Rightarrow>
          (let (counters, s1) = build_map dm (cl_endpoints c) s;
               request_headers = build_header_rewrites from_bytes (cl_request_headers c);
               auth = build_auth_runtime (cl_auth c);
               (rr_cursor, s2) = atomic_new 0 s1
           in (Some \<lparr>cr_name = [], cr_lb_policy = lb, cr_endpoints = cl_endpoints c,
                     cr_timeout_ms = cl_timeout_ms c, cr_retries = cl_retries c,
                     cr_backend_protocol = bp, cr_request_headers = request_headers,
                     cr_backend_tls_insecure_skip_verify = cl_backend_tls_insecure_skip_verify c,
                     cr_rr_cursor = rr_cursor, cr_least_conn_cursor = counters, cr_auth = auth\<rparr>,
               s2)))"

section \<open>Selecting an endpoint\<close>

text \<open>\<open>Vec::get\<close>.\<close>

definition vec_get :: "'a list \<Rightarrow> nat \<Rightarrow> 'a option" where
  "vec_get xs i = (if i < length xs then Some (xs ! i) else None)"

definition counter_for_index :: "'d counters \<Rightarrow> 'd cluster_rule \<Rightarrow> nat \<Rightarrow> arc option" where
  "counter_for_index dm c idx =
     (case vec_get (cr_endpoints c) idx of
        None \<Rightarrow> None
      | Some endpoint \<Rightarrow>
          dash_get dm (cr_least_conn_cursor c) (endpoint_key_from_endpoint idx endpoint))"

definition round_robin ::
  "'d counters \<Rightarrow> 'd cluster_rule \<Rightarrow> store \<Rightarrow> selected_endpoint option \<times> store" where
  "round_robin dm c s =
     (let len = length (cr_endpoints c) in
      if len = 0 then (None, s)
      else
        (let (old, s') = fetch_add (cr_rr_cursor c) 1 s;
             idx = unat old mod len
         in (Some \<lparr>se_endpoint = cr_endpoints c ! idx, se_counter = counter_for_index dm c idx\<rparr>, s')))"

text \<open>
  The scan of \<open>least_conn\<close> loads one counter after the other, and other tasks may run between
  two loads: \<open>loads a\<close> is the value the load of the cell \<open>a\<close> returns, which need not be that of
  one state of the store for all cells.  A scan that is not interrupted has the loads
  \<open>current s\<close>.
\<close>

type_synonym loads = "arc \<Rightarrow> usize"

definition current :: "store \<Rightarrow> loads" where
  "current s = (\<lambda>a. atomic_load a s)"

definition least_conn ::
  "'d counters \<Rightarrow> 'd cluster_rule \<Rightarrow> loads \<Rightarrow> store \<Rightarrow> selected_endpoint option \<times> store" where
  "least_conn dm c loads s =
     (let len = length (cr_endpoints c) in
      if len = 0 then (None, s)
      else
        case min_by_key (\<lambda>entry. loads (snd entry)) (dash_iter dm (cr_least_conn_cursor c)) of
          Some entry \<Rightarrow>
            (case vec_get (cr_endpoints c) (ek_index (fst entry)) of
               Some endpoint \<Rightarrow> (Some \<lparr>se_endpoint = endpoint, se_counter = Some (snd entry)\<rparr>, s)
             | None \<Rightarrow> round_robin dm c s)
        | None \<Rightarrow> round_robin dm c s)"

definition select_endpoint ::
  "'d counters \<Rightarrow> 'd cluster_rule \<Rightarrow> loads \<Rightarrow> store \<Rightarrow> selected_endpoint option \<times> store" where
  "select_endpoint dm c loads s =
     (case cr_lb_policy c of RoundRobin \<Rightarrow> round_robin dm c s | LeastConn \<Rightarrow> least_conn dm c loads s)"

section \<open>The counters of a fresh cluster\<close>

text \<open>
  A cluster is laid out at \<open>base\<close> when the counter of its endpoint \<open>i\<close> is the cell
  \<open>base + i\<close>, no other key has a counter, and its cursor is the next cell.
\<close>

definition laid_out :: "'d counters \<Rightarrow> arc \<Rightarrow> 'd cluster_rule \<Rightarrow> bool" where
  "laid_out dm base c \<longleftrightarrow>
     (\<forall>k. dash_get dm (cr_least_conn_cursor c) k =
        (if ek_index k < length (cr_endpoints c)
            \<and> k = endpoint_key_from_endpoint (ek_index k) (cr_endpoints c ! ek_index k)
         then Some (base + ek_index k) else None))
     \<and> cr_rr_cursor c = base + length (cr_endpoints c)"

lemma ek_index_from_endpoint [simp]: "ek_index (endpoint_key_from_endpoint i e) = i"
  by (simp add: endpoint_key_from_endpoint_def)

lemma build_map_loop_store:
  "build_map_loop dm i es d s = (d', s') \<Longrightarrow>
   extends s s' \<and> fresh s' = fresh s + length es
   \<and> (\<forall>a. fresh s \<le> a \<and> a < fresh s' \<longrightarrow> cells s' a = 0)"
proof (induction es arbitrary: i d s)
  case (Cons e es)
  let ?s = "snd (atomic_new 0 s)"
  from Cons.prems have step:
    "build_map_loop dm (Suc i) es (dash_insert dm (endpoint_key_from_endpoint i e) (fresh s) d) ?s = (d', s')"
    by (simp add: Let_def atomic_new_def)
  from Cons.IH [OF step] have *: "extends ?s s'" "fresh s' = Suc (fresh s) + length es"
    "\<forall>a. Suc (fresh s) \<le> a \<and> a < fresh s' \<longrightarrow> cells s' a = 0"
    by (simp_all add: atomic_new_def)
  have "cells s' (fresh s) = 0"
    using extends_cells [OF *(1), of "fresh s"] by (simp add: atomic_new_def)
  then have "\<forall>a. fresh s \<le> a \<and> a < fresh s' \<longrightarrow> cells s' a = 0"
    using *(3) by (metis Suc_leI le_neq_implies_less)
  with *(2) show ?case
    using extends_trans [OF extends_atomic_new *(1)] by simp
qed auto

lemma build_map_store:
  assumes "build_map dm es s = (d', s')"
  shows "extends s s'" "fresh s' = fresh s + length es"
    "fresh s \<le> a \<Longrightarrow> a < fresh s' \<Longrightarrow> cells s' a = 0"
  using build_map_loop_store [OF assms [unfolded build_map_def]] by auto

locale counter_map = dash_map dm
  for dm :: "('d, endpoint_key, arc) dash_ops"
begin

lemma get_build_map_loop:
  "build_map_loop dm i es d s = (d', s') \<Longrightarrow>
   dash_get dm d' k =
     (if i \<le> ek_index k \<and> ek_index k < i + length es
         \<and> k = endpoint_key_from_endpoint (ek_index k) (es ! (ek_index k - i))
      then Some (fresh s + (ek_index k - i)) else dash_get dm d k)"
proof (induction es arbitrary: i d s)
  case (Cons e es)
  let ?s = "snd (atomic_new 0 s)" and ?j = "ek_index k"
  from Cons.prems have step:
    "build_map_loop dm (Suc i) es (dash_insert dm (endpoint_key_from_endpoint i e) (fresh s) d) ?s = (d', s')"
    by (simp add: Let_def atomic_new_def)
  have fresh: "fresh ?s = Suc (fresh s)"
    by (simp add: atomic_new_def)
  consider "?j < i" | "?j = i" | "Suc i \<le> ?j" by linarith
  then show ?case
  proof cases
    case 1
    then show ?thesis by (subst Cons.IH [OF step]) (auto simp: get_insert)
  next
    case 2
    then show ?thesis by (subst Cons.IH [OF step]) (auto simp: get_insert)
  next
    case 3
    then obtain n where n: "?j = Suc (i + n)"
      by (metis add_Suc le_Suc_ex)
    then show ?thesis by (subst Cons.IH [OF step]) (auto simp: get_insert fresh)
  qed
qed auto

lemma get_build_map:
  "build_map dm es s = (d', s') \<Longrightarrow>
   dash_get dm d' k =
     (if ek_index k < length es \<and> k = endpoint_key_from_endpoint (ek_index k) (es ! ek_index k)
      then Some (fresh s + ek_index k) else None)"
  unfolding build_map_def by (subst get_build_map_loop) (auto simp: get_empty)

text \<open>A cluster accepted by \<open>RouteTable::new\<close> gets a block of new cells, all zero.\<close>

lemma new_cluster_laid_out:
  assumes "new_cluster dm fb c s = (Some cr, s')"
  shows "laid_out dm (fresh s) cr" "extends s s'" "fresh s' = Suc (cr_rr_cursor cr)"
    "fresh s \<le> a \<Longrightarrow> a < fresh s' \<Longrightarrow> cells s' a = 0"
proof -
  obtain d s1 where b: "build_map dm (cl_endpoints c) s = (d, s1)" by fastforce
  from assms b have cr: "cr_endpoints cr = cl_endpoints c" "cr_least_conn_cursor cr = d"
    "cr_rr_cursor cr = fresh s1" and s': "s' = snd (atomic_new 0 s1)"
    by (auto simp: new_cluster_def Let_def atomic_new_def split: option.splits)
  note st = build_map_store [OF b]
  show "laid_out dm (fresh s) cr"
    using cr st(2) by (simp add: laid_out_def get_build_map [OF b])
  show "extends s s'"
    unfolding s' using st(1) extends_atomic_new by (rule extends_trans)
  show "fresh s' = Suc (cr_rr_cursor cr)"
    by (simp add: s' cr atomic_new_def)
  show "fresh s \<le> a \<Longrightarrow> a < fresh s' \<Longrightarrow> cells s' a = 0"
    using st(3) [of a] by (auto simp: s' atomic_new_def less_Suc_eq)
qed

section \<open>The selection algorithms\<close>

lemma counter_laid_out:
  "laid_out dm base c \<Longrightarrow> i < length (cr_endpoints c) \<Longrightarrow> counter_for_index dm c i = Some (base + i)"
  by (simp add: counter_for_index_def laid_out_def vec_get_def)

lemma round_robin_laid_out:
  fixes s :: store
  assumes "laid_out dm base c" "cr_endpoints c \<noteq> []"
  defines "i \<equiv> unat (cells s (cr_rr_cursor c)) mod length (cr_endpoints c)"
  shows "round_robin dm c s =
    (Some \<lparr>se_endpoint = cr_endpoints c ! i, se_counter = Some (base + i)\<rparr>,
     snd (fetch_add (cr_rr_cursor c) 1 s))"
proof -
  have "i < length (cr_endpoints c)" using assms(2) by (simp add: i_def)
  then show ?thesis
    using assms(2) counter_laid_out [OF assms(1)]
    by (simp add: round_robin_def fetch_add_def Let_def i_def)
qed

lemma iter_laid_out:
  assumes "laid_out dm base c"
  shows "set (dash_iter dm (cr_least_conn_cursor c)) =
    (\<lambda>i. (endpoint_key_from_endpoint i (cr_endpoints c ! i), base + i)) ` {..<length (cr_endpoints c)}"
proof -
  have "(k, a) \<in> set (dash_iter dm (cr_least_conn_cursor c)) \<longleftrightarrow>
      (\<exists>i < length (cr_endpoints c). (k, a) = (endpoint_key_from_endpoint i (cr_endpoints c ! i), base + i))"
    for k a
    using assms unfolding iter_get laid_out_def by (auto split: if_splits)
  then show ?thesis by auto
qed

lemma least_conn_laid_out:
  assumes "laid_out dm base c" "cr_endpoints c \<noteq> []"
  shows "\<exists>i < length (cr_endpoints c).
    least_conn dm c loads s = (Some \<lparr>se_endpoint = cr_endpoints c ! i, se_counter = Some (base + i)\<rparr>, s)
    \<and> (\<forall>j < length (cr_endpoints c). loads (base + i) \<le> loads (base + j))"
proof -
  let ?key = "\<lambda>entry :: endpoint_key \<times> arc. loads (snd entry)" and ?d = "dash_iter dm (cr_least_conn_cursor c)"
  have "?d \<noteq> []"
    using iter_laid_out [OF assms(1)] assms(2) by (auto simp: lessThan_empty_iff)
  then obtain e where e: "min_by_key ?key ?d = Some e"
    by (metis min_by_key_None not_None_eq)
  from min_by_key_SomeD(1) [OF e] iter_laid_out [OF assms(1)] obtain i where
    i: "i < length (cr_endpoints c)" "e = (endpoint_key_from_endpoint i (cr_endpoints c ! i), base + i)"
    by auto
  have "loads (base + i) \<le> loads (base + j)" if "j < length (cr_endpoints c)" for j
  proof -
    have "(endpoint_key_from_endpoint j (cr_endpoints c ! j), base + j) \<in> set ?d"
      using iter_laid_out [OF assms(1)] that by blast
    from min_by_key_SomeD(2) [OF e this] i show ?thesis by simp
  qed
  moreover have "least_conn dm c loads s = (Some \<lparr>se_endpoint = cr_endpoints c ! i, se_counter = Some (base + i)\<rparr>, s)"
    using e i assms(2) by (simp add: least_conn_def vec_get_def)
  ultimately show ?thesis using i(1) by blast
qed

end

interpretation alist_counters: counter_map "alist_dash :: ((endpoint_key \<times> arc) list, endpoint_key, arc) dash_ops"
  by unfold_locales

lemma counter_map_alist: "counter_map (alist_dash :: ((endpoint_key \<times> arc) list, endpoint_key, arc) dash_ops)"
  by (rule alist_counters.counter_map_axioms)

section \<open>What the algorithms guarantee\<close>

text \<open>A run of \<open>n\<close> round-robin selections, one after the other.\<close>

fun rr_run ::
  "'d counters \<Rightarrow> 'd cluster_rule \<Rightarrow> nat \<Rightarrow> store \<Rightarrow> selected_endpoint option list \<times> store" where
  "rr_run dm c 0 s = ([], s)"
| "rr_run dm c (Suc n) s =
     (let (sel, s1) = round_robin dm c s; (sels, s2) = rr_run dm c n s1 in (sel # sels, s2))"

definition picked :: "selected_endpoint option list \<Rightarrow> endpoint option list" where
  "picked sels = map (map_option se_endpoint) sels"

lemma rr_run_cursor:
  assumes "cr_endpoints c \<noteq> []" "unat (cells s (cr_rr_cursor c)) + n \<le> 2 ^ 64"
  shows "picked (fst (rr_run dm c n s)) =
    map (\<lambda>i. Some (cr_endpoints c ! ((unat (cells s (cr_rr_cursor c)) + i) mod length (cr_endpoints c)))) [0..<n]"
  using assms(2)
proof (induction n arbitrary: s)
  case (Suc n)
  let ?cur = "unat (cells s (cr_rr_cursor c))" and ?s1 = "snd (round_robin dm c s)"
  show ?case
  proof (cases "n = 0")
    case True
    then show ?thesis using assms(1) by (simp add: picked_def round_robin_def fetch_add_def Let_def)
  next
    case False
    with Suc.prems have "unat (cells s (cr_rr_cursor c) + 1) = Suc ?cur"
      by (subst unat_plus_simple [THEN iffD1]) (auto simp: no_olen_add_nat)
    then have cur: "unat (cells ?s1 (cr_rr_cursor c)) = Suc ?cur"
      using assms(1) by (simp add: round_robin_def fetch_add_def Let_def)
    have "picked (fst (rr_run dm c (Suc n) s))
        = map_option se_endpoint (fst (round_robin dm c s)) # picked (fst (rr_run dm c n ?s1))"
      by (simp add: picked_def split_def Let_def)
    also have "map_option se_endpoint (fst (round_robin dm c s))
        = Some (cr_endpoints c ! (?cur mod length (cr_endpoints c)))"
      using assms(1) by (simp add: round_robin_def fetch_add_def Let_def)
    finally show ?thesis
      using Suc.IH [of ?s1] Suc.prems cur by (simp add: upt_conv_Cons map_Suc_upt [symmetric] del: upt_Suc)
  qed
qed (simp add: picked_def)

text \<open>
  C32: round robin is fair.  As long as the cursor does not wrap around, any \<open>len\<close>
  consecutive selections of a cluster return each of its \<open>len\<close> endpoints once, in the
  configured order rotated by the cursor.
\<close>

theorem round_robin_fair:
  assumes "unat (cells s (cr_rr_cursor c)) + length (cr_endpoints c) \<le> 2 ^ 64"
  shows "picked (fst (rr_run dm c (length (cr_endpoints c)) s))
    = map Some (rotate (unat (cells s (cr_rr_cursor c))) (cr_endpoints c))"
proof (cases "cr_endpoints c = []")
  case True
  then show ?thesis by (simp add: picked_def)
next
  case False
  show ?thesis
    by (subst rr_run_cursor [OF False assms], rule nth_equalityI) (simp_all add: nth_rotate)
qed

text \<open>A cluster of two endpoints, for closed instances of the theorems.\<close>

definition demo_endpoint :: "string \<Rightarrow> endpoint" where
  "demo_endpoint a = \<lparr>ep_address = a, ep_port = 80, ep_weight = 1, ep_zone = [], ep_region = []\<rparr>"

definition demo_cluster :: "string \<Rightarrow> string \<Rightarrow> cluster" where
  "demo_cluster name policy =
     \<lparr>cl_name = name, cl_lb_policy = policy,
      cl_endpoints = [demo_endpoint ''10.0.0.1'', demo_endpoint ''10.0.0.2''],
      cl_timeout_ms = 3000, cl_retries = 1, cl_backend_protocol = ''h1'', cl_request_headers = [],
      cl_backend_tls_insecure_skip_verify = False, cl_auth = None\<rparr>"

definition demo_rule :: "string \<Rightarrow> (endpoint_key \<times> arc) list cluster_rule" where
  "demo_rule policy = the (fst (new_cluster alist_dash Some (demo_cluster ''web'' policy) store_init))"

definition demo_store :: "string \<Rightarrow> store" where
  "demo_store policy =
     snd (new_cluster (alist_dash :: (endpoint_key \<times> arc) list counters) Some
            (demo_cluster ''web'' policy) store_init)"

lemmas new_cluster_eval = new_cluster_def build_map_def atomic_new_def parse_defs
  build_auth_runtime_def store_init_def endpoint_key_from_endpoint_def delete_conv

lemma demo_new_cluster:
  "new_cluster alist_dash Some (demo_cluster ''web'' ''RoundRobin'') store_init
     = (Some (demo_rule ''RoundRobin''), demo_store ''RoundRobin'')"
  "new_cluster alist_dash Some (demo_cluster ''web'' ''LeastConn'') store_init
     = (Some (demo_rule ''LeastConn''), demo_store ''LeastConn'')"
  by (simp_all add: demo_rule_def demo_store_def demo_cluster_def new_cluster_eval)

lemma demo_cursor:
  "cr_endpoints (demo_rule ''RoundRobin'') = [demo_endpoint ''10.0.0.1'', demo_endpoint ''10.0.0.2'']"
  "cells (demo_store ''RoundRobin'') a = 0"
  "cr_endpoints (demo_rule ''LeastConn'') = [demo_endpoint ''10.0.0.1'', demo_endpoint ''10.0.0.2'']"
  by (simp_all add: demo_rule_def demo_store_def demo_cluster_def new_cluster_eval)

theorem round_robin_fair_witness:
  "picked (fst (rr_run alist_dash (demo_rule ''RoundRobin'')
                  (length (cr_endpoints (demo_rule ''RoundRobin''))) (demo_store ''RoundRobin'')))
     = [Some (demo_endpoint ''10.0.0.1''), Some (demo_endpoint ''10.0.0.2'')]"
  using round_robin_fair [of "demo_store ''RoundRobin''" "demo_rule ''RoundRobin''" alist_dash]
  by (simp add: demo_cursor)

text \<open>
  Least connections picks a least loaded endpoint.  For every cluster
  \<open>RouteTable::new\<close> accepts with at least one endpoint, and whatever the loads of the
  counters return, \<open>least_conn\<close> returns an endpoint of the cluster together with that
  endpoint's counter, no load of the scan returned a smaller value, and the round-robin
  fallback is not taken (no counter is changed).
\<close>

theorem least_conn_picks_least:
  assumes "counter_map dm"
    and "new_cluster dm from_bytes c s0 = (Some cr, s1)"
    and "cr_endpoints cr \<noteq> []"
  shows "\<exists>i a. i < length (cr_endpoints cr) \<and> counter_for_index dm cr i = Some a
    \<and> least_conn dm cr loads s = (Some \<lparr>se_endpoint = cr_endpoints cr ! i, se_counter = Some a\<rparr>, s)
    \<and> (\<forall>j b. j < length (cr_endpoints cr) \<and> counter_for_index dm cr j = Some b
         \<longrightarrow> loads a \<le> loads b)"
proof -
  note laid = counter_map.new_cluster_laid_out(1) [OF assms(1,2)]
  note ctr = counter_map.counter_laid_out [OF assms(1) laid]
  from counter_map.least_conn_laid_out [OF assms(1) laid assms(3)] obtain i where
    "i < length (cr_endpoints cr)"
    "least_conn dm cr loads s
       = (Some \<lparr>se_endpoint = cr_endpoints cr ! i, se_counter = Some (fresh s0 + i)\<rparr>, s)"
    "\<forall>j < length (cr_endpoints cr). loads (fresh s0 + i) \<le> loads (fresh s0 + j)"
    by blast
  then show ?thesis
    using ctr by (intro exI [of _ i] exI [of _ "fresh s0 + i"]) auto
qed

theorem least_conn_picks_least_witness:
  "\<exists>i a. i < 2 \<and> counter_for_index alist_dash (demo_rule ''LeastConn'') i = Some a
    \<and> fst (least_conn alist_dash (demo_rule ''LeastConn'') (current (demo_store ''LeastConn'')) (demo_store ''LeastConn''))
      = Some \<lparr>se_endpoint = cr_endpoints (demo_rule ''LeastConn'') ! i, se_counter = Some a\<rparr>"
  using least_conn_picks_least [OF counter_map_alist demo_new_cluster(2), of "current (demo_store ''LeastConn'')" "demo_store ''LeastConn''"]
  by (auto simp: demo_cursor numeral_2_eq_2)

text \<open>
  The counters of a new cluster are its own.  The endpoints get pairwise different
  counters, none of them is the round-robin cursor, none was in use before, all start
  at zero, and no existing counter changes its value.
\<close>

theorem new_cluster_fresh_counters:
  assumes "counter_map dm" and "new_cluster dm from_bytes c s0 = (Some cr, s1)"
  shows "distinct (map (counter_for_index dm cr) [0..<length (cr_endpoints cr)])
    \<and> map (counter_for_index dm cr) [0..<length (cr_endpoints cr)]
        = map Some [fresh s0..<cr_rr_cursor cr]
    \<and> fresh s0 \<le> cr_rr_cursor cr \<and> cr_rr_cursor cr < fresh s1
    \<and> (\<forall>a. fresh s0 \<le> a \<and> a < fresh s1 \<longrightarrow> cells s1 a = 0)
    \<and> (\<forall>a. a < fresh s0 \<longrightarrow> cells s1 a = cells s0 a)"
proof -
  note new = counter_map.new_cluster_laid_out [OF assms]
  have cur: "cr_rr_cursor cr = fresh s0 + length (cr_endpoints cr)"
    using new(1) by (simp add: laid_out_def)
  have map: "map (counter_for_index dm cr) [0..<length (cr_endpoints cr)]
      = map Some [fresh s0..<cr_rr_cursor cr]"
    by (rule nth_equalityI) (simp_all add: cur counter_map.counter_laid_out [OF assms(1) new(1)])
  then have "distinct (map (counter_for_index dm cr) [0..<length (cr_endpoints cr)])"
    by (simp add: distinct_map)
  with map show ?thesis
    using new(3,4) extends_cells [OF new(2)] cur by auto
qed

theorem new_cluster_fresh_counters_witness:
  "map (counter_for_index alist_dash (demo_rule ''LeastConn''))
       [0..<length (cr_endpoints (demo_rule ''LeastConn''))] = map Some [0..<cr_rr_cursor (demo_rule ''LeastConn'')]"
  using new_cluster_fresh_counters [OF counter_map_alist demo_new_cluster(2)]
  by (simp add: store_init_def)

end
