(* ===== verification/Upstream_Request.thy ===== *)
theory Upstream_Request
  imports Clusters
begin

text \<open>
  Messages and how \<open>proxy.rs\<close> rewrites them: the plain-text and redirect responses, the
  host of a request (\<open>extract_host\<close>), the removal of hop-by-hop headers, the forwarding
  headers and \<open>handle_req_upstream\<close>, which points a client request at the selected
  endpoint.  The functions of the \<open>http\<close> crate are the fields of an \<open>http_lib\<close>.
\<close>

section \<open>Messages\<close>

datatype version = HTTP_09 | HTTP_10 | HTTP_11 | HTTP_2 | HTTP_3

text \<open>
  A request with its \<open>FrontendTls\<close> extension.  A body is either the bytes of a \<open>Full\<close> body or
  the boxed stream of a connection, of abstract type \<open>'b\<close>.
\<close>

datatype 'b body = Full string | Boxed 'b

record ('h, 'u, 'b) request =
  rq_method :: string
  rq_uri :: 'u
  rq_version :: version
  rq_headers :: 'h
  rq_frontend_tls :: "bool option"
  rq_body :: 'b

record ('h, 'b) response =
  rs_status :: nat
  rs_headers :: 'h
  rs_body :: 'b

abbreviation "OK \<equiv> 200 :: nat"
abbreviation "FOUND \<equiv> 302 :: nat"
abbreviation "BAD_REQUEST \<equiv> 400 :: nat"
abbreviation "UNAUTHORIZED \<equiv> 401 :: nat"
abbreviation "FORBIDDEN \<equiv> 403 :: nat"
abbreviation "NOT_FOUND \<equiv> 404 :: nat"
abbreviation "BAD_GATEWAY \<equiv> 502 :: nat"

definition text_response :: "'h header_ops \<Rightarrow> nat \<Rightarrow> string \<Rightarrow> ('h, 'b body) response" where
  "text_response hm status s =
     \<lparr>rs_status = status,
      rs_headers = hm_append hm ''content-type'' ''text/plain; charset=utf-8'' (hm_new hm),
      rs_body = Full s\<rparr>"

definition redirect :: "('h, 'u) http_lib \<Rightarrow> nat \<Rightarrow> string \<Rightarrow> ('h, 'b body) response" where
  "redirect lib status location =
     (let hm = hl_headers lib;
          resp = \<lparr>rs_status = status, rs_headers = hm_new hm, rs_body = Full ''redirect''\<rparr>
      in case header_value_from_str lib location of
           Some loc \<Rightarrow> resp\<lparr>rs_headers := hm_insert hm ''location'' loc (rs_headers resp)\<rparr>
         | None \<Rightarrow> resp)"

section \<open>The host of a request\<close>

definition extract_host ::
  "('h, 'u) http_lib \<Rightarrow> ('h, 'u, 'b) request \<Rightarrow> ('h, 'r body) response + string" where
  "extract_host lib req =
     (let hm = hl_headers lib in
      case hm_get hm (rq_headers req) ''host'' of
        Some h \<Rightarrow>
          (case header_value_to_str lib h of
             Some s \<Rightarrow>
               if s \<noteq> [] then
                 (case authority_from_str lib (trim s) of
                    Some a \<Rightarrow> Inr (trim_end_matches CHR ''.'' (to_ascii_lowercase (authority_host lib a)))
                  | None \<Rightarrow> Inl (text_response hm BAD_REQUEST ''Invalid Host header''))
               else Inl (text_response hm BAD_REQUEST ''Invalid Host header'')
           | None \<Rightarrow> Inl (text_response hm BAD_REQUEST ''Invalid Host header''))
      | None \<Rightarrow>
          (case uri_host lib (rq_uri req) of
             Some h \<Rightarrow> Inr h
           | None \<Rightarrow> Inl (text_response hm BAD_REQUEST ''Missing Host'')))"

section \<open>Headers\<close>

definition HOP_HEADERS_REF :: "header_name list" where
  "HOP_HEADERS_REF =
     [''connection'', ''proxy-authenticate'', ''proxy-authorization'', ''te'', ''trailer'',
      ''transfer-encoding'', ''upgrade'', ''proxy-connection'', ''keep-alive'']"

definition remove_hop_headers :: "'h header_ops \<Rightarrow> 'h \<Rightarrow> 'h" where
  "remove_hop_headers hm headers = fold (hm_remove hm) HOP_HEADERS_REF headers"

definition add_forward_headers :: "('h, 'u) http_lib \<Rightarrow> 'h \<Rightarrow> bool \<Rightarrow> string \<Rightarrow> 'h" where
  "add_forward_headers lib h frontend_is_tls original_host =
     (let hm = hl_headers lib;
          proto = (if frontend_is_tls then ''https'' else ''http'');
          h = hm_insert hm ''x-forwarded-proto'' proto h
      in if \<not> hm_contains_key hm h ''x-forwarded-host'' then
           (case header_value_from_str lib original_host of
              Some v \<Rightarrow> hm_insert hm ''x-forwarded-host'' v h
            | None \<Rightarrow> h)
         else h)"

section \<open>Pointing the request at an endpoint\<close>

definition handle_req_upstream ::
  "('h, 'u) http_lib \<Rightarrow> ('h, 'u, 'b) request \<Rightarrow> string \<Rightarrow> string \<Rightarrow> u16 \<Rightarrow> backend_protocol \<Rightarrow> bool
    \<Rightarrow> ('h, 'u, 'b) request" where
  "handle_req_upstream lib req original_host upstream_host upstream_port proto frontend_is_tls =
     (let hm = hl_headers lib;
          parts = uri_into_parts lib (rq_uri req);
          is_tls = (proto = H1Ssl \<or> proto = H2Ssl);
          parts = parts\<lparr>up_scheme := Some (if is_tls then HTTPS else HTTP)\<rparr>;
          req = req\<lparr>rq_version := (if proto = H2 \<or> proto = H2Ssl then HTTP_2 else HTTP_11)\<rparr>;
          req = req\<lparr>rq_headers := remove_hop_headers hm (rq_headers req)\<rparr>;
          default_port = (if is_tls then 443 else 80);
          auth = (if upstream_port = default_port then authority_from_str lib upstream_host
                  else authority_from_str lib (upstream_host @ '':'' @ show_nat (unat upstream_port)));
          parts = (case auth of Some a \<Rightarrow> parts\<lparr>up_authority := Some a\<rparr> | None \<Rightarrow> parts);
          parts = (if up_path_and_query parts = None then parts\<lparr>up_path_and_query := Some ''/''\<rparr>
                   else parts);
          req = (case header_value_from_str lib original_host of
                   Some hv \<Rightarrow> req\<lparr>rq_headers := hm_insert hm ''host'' hv (rq_headers req)\<rparr>
                 | None \<Rightarrow> req);
          req = req\<lparr>rq_headers := add_forward_headers lib (rq_headers req) frontend_is_tls original_host\<rparr>
      in case uri_from_parts lib parts of
           Some new_uri \<Rightarrow> req\<lparr>rq_uri := new_uri\<rparr>
         | None \<Rightarrow> req)"

section \<open>The headers of the upstream request\<close>

text \<open>
  The specification: the values each header has after \<open>handle_req_upstream\<close>, given those it
  had before.
\<close>

definition upstream_header_values ::
  "(string \<Rightarrow> header_value option) \<Rightarrow> bool \<Rightarrow> string \<Rightarrow> (header_name \<Rightarrow> header_value list)
    \<Rightarrow> header_name \<Rightarrow> header_value list" where
  "upstream_header_values from_str tls host old n =
     (let host_values = (\<lambda>vs. case from_str host of Some v \<Rightarrow> [v] | None \<Rightarrow> vs) in
      if n \<in> set HOP_HEADERS_REF then []
      else if n = ''host'' then host_values (old n)
      else if n = ''x-forwarded-proto'' then [if tls then ''https'' else ''http'']
      else if n = ''x-forwarded-host'' \<and> old n = [] then host_values []
      else old n)"

lemma hop_names [simp]:
  "''host'' \<notin> set HOP_HEADERS_REF"
  "''x-forwarded-proto'' \<notin> set HOP_HEADERS_REF"
  "''x-forwarded-host'' \<notin> set HOP_HEADERS_REF"
  by (simp_all add: HOP_HEADERS_REF_def)

context header_map
begin

lemma get_all_remove_hop:
  "hm_get_all hm (remove_hop_headers hm h) n = (if n \<in> set HOP_HEADERS_REF then [] else hm_get_all hm h n)"
  by (simp add: remove_hop_headers_def get_all_fold_remove)

lemma get_all_add_forward:
  assumes "hl_headers lib = hm"
  shows "hm_get_all hm (add_forward_headers lib h tls host) n =
    (if n = ''x-forwarded-proto'' then [if tls then ''https'' else ''http'']
     else if n = ''x-forwarded-host'' \<and> hm_get_all hm h n = []
     then (case header_value_from_str lib host of Some v \<Rightarrow> [v] | None \<Rightarrow> [])
     else hm_get_all hm h n)"
  using assms
  by (auto simp: add_forward_headers_def Let_def contains_key_get_all get_all_insert split: option.splits)

end

text \<open>The fields of a request that is updated under a condition.\<close>

lemma request_option_update:
  "rq_headers (case x of None \<Rightarrow> r | Some u \<Rightarrow> r\<lparr>rq_uri := u\<rparr>) = rq_headers r"
  "rq_version (case x of None \<Rightarrow> r | Some u \<Rightarrow> r\<lparr>rq_uri := u\<rparr>) = rq_version r"
  "rq_method (case x of None \<Rightarrow> r | Some u \<Rightarrow> r\<lparr>rq_uri := u\<rparr>) = rq_method r"
  "rq_body (case x of None \<Rightarrow> r | Some u \<Rightarrow> r\<lparr>rq_uri := u\<rparr>) = rq_body r"
  "rq_uri (case x of None \<Rightarrow> r | Some u \<Rightarrow> r\<lparr>rq_uri := u\<rparr>) = (case x of None \<Rightarrow> rq_uri r | Some u \<Rightarrow> u)"
  by (simp_all split: option.split)

lemmas handle_req_upstream_fields = handle_req_upstream_def Let_def request_option_update

lemma rq_headers_handle:
  "rq_headers (handle_req_upstream lib req host uh up proto tls) =
     add_forward_headers lib
       (case header_value_from_str lib host of
          Some hv \<Rightarrow> hm_insert (hl_headers lib) ''host'' hv (remove_hop_headers (hl_headers lib) (rq_headers req))
        | None \<Rightarrow> remove_hop_headers (hl_headers lib) (rq_headers req)) tls host"
  by (cases "header_value_from_str lib host") (simp_all add: handle_req_upstream_fields)

lemma handle_keeps:
  "rq_method (handle_req_upstream lib req host uh up proto tls) = rq_method req"
  "rq_body (handle_req_upstream lib req host uh up proto tls) = rq_body req"
  "rq_version (handle_req_upstream lib req host uh up proto tls)
     = (if proto \<in> {H2, H2Ssl} then HTTP_2 else HTTP_11)"
  by (cases "header_value_from_str lib host"; simp add: handle_req_upstream_fields)+

lemma get_all_handle_req_upstream:
  assumes "header_map (hl_headers lib)"
  shows "hm_get_all (hl_headers lib) (rq_headers (handle_req_upstream lib req host uh up proto tls)) n
    = upstream_header_values (header_value_from_str lib) tls host
        (hm_get_all (hl_headers lib) (rq_headers req)) n"
proof -
  note h = header_map.get_all_add_forward [OF assms refl] header_map.get_all_remove_hop [OF assms]
    header_map.get_all_insert [OF assms]
  show ?thesis
    by (auto simp: rq_headers_handle h upstream_header_values_def Let_def split: option.splits)
qed

text \<open>
  C34: the headers of a request sent upstream, all of them.  No hop-by-hop header is left,
  \<open>Host\<close> is the original host, \<open>X-Forwarded-Proto\<close> the scheme the client used,
  \<open>X-Forwarded-Host\<close> the original host unless the client sent one, and every other header
  is as the client sent it.
\<close>

theorem upstream_headers_spec:
  assumes "header_map (hl_headers lib)"
  shows "hm_get_all (hl_headers lib) (rq_headers (handle_req_upstream lib req host uh up proto tls))
    = upstream_header_values (header_value_from_str lib) tls host
        (hm_get_all (hl_headers lib) (rq_headers req))"
  using get_all_handle_req_upstream [OF assms] by blast

section \<open>The URI of the upstream request\<close>

text \<open>
  What the documentation of \<open>Uri\<close> promises for parts that are all present: they form a
  URI, and taking it apart gives them back.
\<close>

locale uri_assembly =
  fixes into_parts :: "'u \<Rightarrow> uri_parts" and from_parts :: "uri_parts \<Rightarrow> 'u option"
  assumes from_full:
    "\<exists>u. from_parts \<lparr>up_scheme = Some sc, up_authority = Some a, up_path_and_query = Some pq\<rparr> = Some u
       \<and> into_parts u = \<lparr>up_scheme = Some sc, up_authority = Some a, up_path_and_query = Some pq\<rparr>"
begin

lemma assemble:
  obtains u where
    "from_parts \<lparr>up_scheme = Some sc, up_authority = Some a, up_path_and_query = Some pq\<rparr> = Some u"
    "into_parts u = \<lparr>up_scheme = Some sc, up_authority = Some a, up_path_and_query = Some pq\<rparr>"
  using from_full by blast

end

definition upstream_authority :: "string \<Rightarrow> u16 \<Rightarrow> backend_protocol \<Rightarrow> string" where
  "upstream_authority host port proto =
     (if port = (if proto \<in> {H1Ssl, H2Ssl} then 443 else 80) then host
      else host @ '':'' @ show_nat (unat port))"

lemma parts_of_handle:
  fixes lib :: "('h, 'u) http_lib"
  assumes "uri_assembly (uri_into_parts lib) (uri_from_parts lib)"
    and "authority_from_str lib (upstream_authority uh up proto) = Some a"
  shows "uri_into_parts lib (rq_uri (handle_req_upstream lib req host uh up proto tls)) =
    \<lparr>up_scheme = Some (if proto \<in> {H1Ssl, H2Ssl} then HTTPS else HTTP), up_authority = Some a,
     up_path_and_query =
       Some (case up_path_and_query (uri_into_parts lib (rq_uri req)) of Some pq \<Rightarrow> pq | None \<Rightarrow> ''/'')\<rparr>"
    (is "_ = ?p")
proof -
  obtain u where u: "uri_from_parts lib ?p = Some u" "uri_into_parts lib u = ?p"
    by (rule uri_assembly.assemble [OF assms(1)])
  have auth: "(if up = (if proto = H1Ssl \<or> proto = H2Ssl then 443 else 80) then authority_from_str lib uh
      else authority_from_str lib (uh @ '':'' @ show_nat (unat up))) = Some a"
    using assms(2) by (auto simp: upstream_authority_def split: if_splits)
  have "rq_uri (handle_req_upstream lib req host uh up proto tls) = u"
    unfolding handle_req_upstream_fields auth option.case
    using u(1) by (cases "uri_into_parts lib (rq_uri req)";
      cases "up_path_and_query (uri_into_parts lib (rq_uri req))") simp_all
  with u show ?thesis by simp
qed

text \<open>
  The URI and version of a request sent upstream.  When the endpoint's address and
  port form an authority, the request goes to exactly that authority, the port left out
  when it is the default one, under the scheme and HTTP version of the backend protocol;
  path and query are those of the client, or \<open>/\<close>.
\<close>

theorem upstream_uri_spec:
  assumes "uri_assembly (uri_into_parts lib) (uri_from_parts lib)"
    and "authority_from_str lib (upstream_authority uh up proto) = Some a"
  shows "uri_into_parts lib (rq_uri (handle_req_upstream lib req host uh up proto tls)) =
      \<lparr>up_scheme = Some (if proto \<in> {H1Ssl, H2Ssl} then HTTPS else HTTP), up_authority = Some a,
       up_path_and_query =
         Some (case up_path_and_query (uri_into_parts lib (rq_uri req)) of Some pq \<Rightarrow> pq | None \<Rightarrow> ''/'')\<rparr>
    \<and> rq_version (handle_req_upstream lib req host uh up proto tls)
      = (if proto \<in> {H2, H2Ssl} then HTTP_2 else HTTP_11)"
proof
  show "uri_into_parts lib (rq_uri (handle_req_upstream lib req host uh up proto tls)) =
      \<lparr>up_scheme = Some (if proto \<in> {H1Ssl, H2Ssl} then HTTPS else HTTP), up_authority = Some a,
       up_path_and_query =
         Some (case up_path_and_query (uri_into_parts lib (rq_uri req)) of Some pq \<Rightarrow> pq | None \<Rightarrow> ''/'')\<rparr>"
    using assms by (rule parts_of_handle)
qed (rule handle_keeps)

section \<open>An instance\<close>

text \<open>URIs as their parts: a concrete library for the witnesses.\<close>

definition parts_lib :: "(header_name \<Rightarrow> header_value list, uri_parts) http_lib" where
  "parts_lib =
     \<lparr>hl_headers = multimap_headers,
      header_name_from_bytes = (\<lambda>s. Some (to_ascii_lowercase s)),
      header_value_from_str = Some, header_value_to_str = Some,
      authority_from_str = (\<lambda>s. if s = [] then None else Some s),
      authority_host = takeWhile (\<lambda>c. c \<noteq> CHR '':''),
      uri_from_str = (\<lambda>s. if s = [] then None
        else Some \<lparr>up_scheme = None, up_authority = None, up_path_and_query = Some s\<rparr>),
      uri_path = (\<lambda>u. case up_path_and_query u of
        Some pq \<Rightarrow> takeWhile (\<lambda>c. c \<noteq> CHR ''?'') pq | None \<Rightarrow> []),
      uri_host = (\<lambda>u. map_option (takeWhile (\<lambda>c. c \<noteq> CHR '':'')) (up_authority u)),
      uri_path_and_query = up_path_and_query,
      uri_into_parts = (\<lambda>u. u), uri_from_parts = Some\<rparr>"

lemma parts_lib_simps [simp]:
  "hl_headers parts_lib = multimap_headers"
  "header_name_from_bytes parts_lib = (\<lambda>s. Some (to_ascii_lowercase s))"
  "header_value_from_str parts_lib = Some"
  "uri_into_parts parts_lib = (\<lambda>u. u)"
  "uri_from_parts parts_lib = Some"
  by (simp_all add: parts_lib_def)

interpretation parts_uri: uri_assembly "uri_into_parts parts_lib" "uri_from_parts parts_lib"
  by unfold_locales simp

lemma header_map_parts_lib: "header_map (hl_headers parts_lib)"
  by (simp add: header_map_multimap)

definition demo_request :: "(header_name \<Rightarrow> header_value list, uri_parts, string) request" where
  "demo_request =
     \<lparr>rq_method = ''GET'',
      rq_uri = \<lparr>up_scheme = None, up_authority = None, up_path_and_query = Some ''/api?x=1''\<rparr>,
      rq_version = HTTP_10,
      rq_headers = (\<lambda>_. [])(''host'' := [''Demo.Local.:8080''], ''te'' := [''trailers''],
        ''cookie'' := [''sid=1'']),
      rq_frontend_tls = Some True, rq_body = []\<rparr>"

theorem upstream_headers_spec_witness:
  "map (hm_get_all multimap_headers
      (rq_headers (handle_req_upstream parts_lib demo_request ''demo.local'' ''10.0.0.1'' 8080 H1 True)))
    [''te'', ''host'', ''x-forwarded-proto'', ''x-forwarded-host'', ''cookie'']
   = [[], [''demo.local''], [''https''], [''demo.local''], [''sid=1'']]"
  using upstream_headers_spec [OF header_map_parts_lib,
      of demo_request "''demo.local''" "''10.0.0.1''" 8080 H1 True]
  by (simp add: upstream_header_values_def HOP_HEADERS_REF_def demo_request_def)

theorem upstream_uri_spec_witness:
  "uri_into_parts parts_lib
     (rq_uri (handle_req_upstream parts_lib demo_request ''demo.local'' ''10.0.0.1'' 8080 H1 True)) =
   \<lparr>up_scheme = Some HTTP, up_authority = Some ''10.0.0.1:8080'', up_path_and_query = Some ''/api?x=1''\<rparr>"
proof -
  have "show_nat 8080 = ''8080''" by (simp add: show_nat.simps str_simps)
  then have "authority_from_str parts_lib (upstream_authority ''10.0.0.1'' 8080 H1) = Some ''10.0.0.1:8080''"
    by (simp add: upstream_authority_def parts_lib_def)
  from upstream_uri_spec [OF parts_uri.uri_assembly_axioms this, of demo_request]
  show ?thesis by (simp add: demo_request_def)
qed

end
