(* ===== verification/Signin.thy ===== *)
theory Signin
  imports Prelude
begin

text \<open>
  \<open>percent_encode\<close> and \<open>build_signin_location\<close> of \<open>proxy.rs\<close>: the redirect target for a
  client that has to sign in.  The specification of the encoder is a decoder; that of the
  template expansion is simultaneous substitution on a template given as a list of
  segments.
\<close>

section \<open>Percent encoding\<close>

definition UNRESERVED :: string where
  "UNRESERVED = ''ABCDEFGHIJKLMNOPQRSTUVWXYZabcdefghijklmnopqrstuvwxyz0123456789-._~''"

text \<open>A digit of the format \<open>{:02X}\<close>.\<close>

definition hex_digit :: "nat \<Rightarrow> char" where
  "hex_digit n = (if n < 10 then char_of (48 + n) else char_of (55 + n))"

definition percent_byte :: "char \<Rightarrow> string" where
  "percent_byte b =
     (if b \<in> set UNRESERVED then [b]
      else [CHR ''%'', hex_digit (of_char b div 16), hex_digit (of_char b mod 16)])"

definition percent_encode :: "string \<Rightarrow> string" where
  "percent_encode input = concat (map percent_byte input)"

text \<open>The decoder: \<open>None\<close> for a percent sign that two hexadecimal digits do not follow.\<close>

definition hex_value :: "char \<Rightarrow> nat option" where
  "hex_value c =
     (let n = (of_char c :: nat) in
      if 48 \<le> n \<and> n \<le> 57 then Some (n - 48)
      else if 65 \<le> n \<and> n \<le> 70 then Some (n - 55) else None)"

fun percent_decode :: "string \<Rightarrow> string option" where
  "percent_decode [] = Some []"
| "percent_decode (c # s) =
     (if c \<noteq> CHR ''%'' then map_option ((#) c) (percent_decode s)
      else case s of
        h # l # rest \<Rightarrow>
          (case (hex_value h, hex_value l) of
             (Some a, Some b) \<Rightarrow> map_option ((#) (char_of (16 * a + b))) (percent_decode rest)
           | _ \<Rightarrow> None)
      | _ \<Rightarrow> None)"

lemma hex_value_digit: "n < 16 \<Longrightarrow> hex_value (hex_digit n) = Some n"
  by (auto simp: hex_value_def hex_digit_def Let_def)

lemma percent_not_unreserved: "CHR ''%'' \<notin> set UNRESERVED"
  by code_simp

lemma high_nibble: "of_char b div 16 < (16 :: nat)"
  by (rule less_mult_imp_div_less) simp

lemma percent_decode_byte:
  "percent_decode (percent_byte b @ s) = map_option ((#) b) (percent_decode s)"
proof (cases "b \<in> set UNRESERVED")
  case True
  then show ?thesis using percent_not_unreserved by (auto simp: percent_byte_def)
next
  case False
  have "16 * (of_char b div 16) + of_char b mod 16 = (of_char b :: nat)" by simp
  then show ?thesis
    using False by (simp add: percent_byte_def hex_value_digit high_nibble)
qed

lemma hex_digits_unreserved: "n < 16 \<Longrightarrow> hex_digit n \<in> set UNRESERVED"
proof -
  assume "n < 16"
  then have "n \<in> set [0..<16]" by simp
  moreover have "\<forall>n \<in> set [0..<16]. hex_digit n \<in> set UNRESERVED" by code_simp
  ultimately show ?thesis by blast
qed

lemma set_percent_byte: "set (percent_byte b) \<subseteq> insert CHR ''%'' (set UNRESERVED)"
  by (auto simp: percent_byte_def hex_digits_unreserved high_nibble)

lemma set_percent_encode: "set (percent_encode s) \<subseteq> insert CHR ''%'' (set UNRESERVED)"
  using set_percent_byte by (auto simp: percent_encode_def)

lemma length_percent_encode: "length (percent_encode s) \<le> 3 * length s"
  by (induction s) (auto simp: percent_encode_def percent_byte_def)

text \<open>
  C37: percent encoding is lossless and safe to embed.  Decoding the encoded string gives
  the input back; the output consists of unreserved characters and percent signs only,
  and is at most three times as long (the capacity the code reserves).
\<close>

theorem percent_encode_correct:
  "percent_decode (percent_encode s) = Some s
   \<and> set (percent_encode s) \<subseteq> insert CHR ''%'' (set UNRESERVED)
   \<and> length (percent_encode s) \<le> 3 * length s"
proof (intro conjI)
  show "percent_decode (percent_encode s) = Some s"
    by (induction s) (simp_all add: percent_encode_def percent_decode_byte)
qed (rule set_percent_encode, rule length_percent_encode)

section \<open>Expanding the template\<close>

text \<open>\<open>str::replace\<close>, for the non-empty patterns the code uses: leftmost matches, left to right.\<close>

function str_replace :: "string \<Rightarrow> string \<Rightarrow> string \<Rightarrow> string" where
  "str_replace pat to [] = []"
| "str_replace pat to (c # s) =
     (if pat \<noteq> [] \<and> prefix pat (c # s) then to @ str_replace pat to (drop (length pat) (c # s))
      else c # str_replace pat to s)"
  by pat_completeness auto
termination
  by (relation "measure (\<lambda>(pat, to, s). length s)") (auto simp: prefix_def)

definition build_signin_location :: "string \<Rightarrow> string \<Rightarrow> string option \<Rightarrow> bool \<Rightarrow> string" where
  "build_signin_location signin_tmpl host path_and_query frontend_is_tls =
     (let scheme = (if frontend_is_tls then ''https'' else ''http'');
          path_q = (case path_and_query of Some pq \<Rightarrow> pq | None \<Rightarrow> ''/'');
          escaped = percent_encode path_q;
          out = str_replace ''$host'' host signin_tmpl;
          out = str_replace ''$escaped_request_uri'' escaped out;
          out = str_replace ''$scheme'' scheme out
      in out)"

datatype segment = Text string | Host | Escaped_Uri | Scheme

fun segment_source :: "segment \<Rightarrow> string" where
  "segment_source (Text s) = s"
| "segment_source Host = ''$host''"
| "segment_source Escaped_Uri = ''$escaped_request_uri''"
| "segment_source Scheme = ''$scheme''"

definition template :: "segment list \<Rightarrow> string" where
  "template segs = concat (map segment_source segs)"

definition expand :: "string \<Rightarrow> string \<Rightarrow> string \<Rightarrow> segment list \<Rightarrow> string" where
  "expand host escaped scheme segs =
     concat (map (\<lambda>x. case x of Text s \<Rightarrow> s | Host \<Rightarrow> host | Escaped_Uri \<Rightarrow> escaped | Scheme \<Rightarrow> scheme) segs)"

text \<open>Segments whose literal text has no dollar sign.\<close>

definition plain :: "segment list \<Rightarrow> bool" where
  "plain segs \<longleftrightarrow> (\<forall>s. Text s \<in> set segs \<longrightarrow> CHR ''$'' \<notin> set s)"

text \<open>Replacing one variable by a text.\<close>

definition subst :: "segment \<Rightarrow> string \<Rightarrow> segment list \<Rightarrow> segment list" where
  "subst v to segs = map (\<lambda>x. if x = v then Text to else x) segs"

lemma str_replace_skip:
  "CHR ''$'' \<notin> set l \<Longrightarrow> str_replace (CHR ''$'' # p) to (l @ s) = l @ str_replace (CHR ''$'' # p) to s"
  by (induction l) auto

lemma str_replace_hit: "pat \<noteq> [] \<Longrightarrow> str_replace pat to (pat @ s) = to @ str_replace pat to s"
  by (cases pat) auto

lemma str_replace_other:
  assumes "CHR ''$'' \<notin> set q" "q \<noteq> []" "p \<noteq> []" "hd q \<noteq> hd p"
  shows "str_replace (CHR ''$'' # p) to ((CHR ''$'' # q) @ s) = (CHR ''$'' # q) @ str_replace (CHR ''$'' # p) to s"
proof -
  have "\<not> prefix p (q @ s)" using assms(2-4) by (cases p; cases q) auto
  then show ?thesis using str_replace_skip [OF assms(1)] by simp
qed

lemma str_replace_segment:
  assumes "v \<in> {Host, Escaped_Uri, Scheme}" "plain [x]"
  shows "str_replace (segment_source v) to (segment_source x @ s)
    = segment_source (if x = v then Text to else x) @ str_replace (segment_source v) to s"
proof (cases "x = v")
  case True
  have "segment_source v \<noteq> []" using assms(1) by auto
  then show ?thesis using True str_replace_hit by simp
next
  case False
  obtain p where p: "segment_source v = CHR ''$'' # p" "p \<noteq> []"
    using assms(1) by auto
  show ?thesis
  proof (cases "\<exists>t. x = Text t")
    case True
    then obtain t where t: "x = Text t" "CHR ''$'' \<notin> set t"
      using assms(2) by (auto simp: plain_def)
    then show ?thesis using False p by (simp add: str_replace_skip del: str_replace.simps)
  next
    case var: False
    then have "x \<in> {Host, Escaped_Uri, Scheme}" by (cases x) auto
    then obtain q where q: "segment_source x = CHR ''$'' # q" "CHR ''$'' \<notin> set q" "q \<noteq> []"
      by auto
    have "hd (tl (segment_source x)) \<noteq> hd (tl (segment_source v))"
      using False assms(1) \<open>x \<in> _\<close> by auto
    then have "hd q \<noteq> hd p" using p q by simp
    then show ?thesis
      using False p q str_replace_other [of q p to s] by (simp del: str_replace.simps)
  qed
qed

lemma str_replace_template:
  assumes "v \<in> {Host, Escaped_Uri, Scheme}" "plain segs"
  shows "str_replace (segment_source v) to (template segs) = template (subst v to segs)"
  using assms(2)
proof (induction segs)
  case (Cons x segs)
  then have "plain [x]" "plain segs" by (auto simp: plain_def)
  with Cons.IH str_replace_segment [OF assms(1)] show ?case
    by (simp add: template_def subst_def)
qed (simp add: template_def subst_def)

lemma plain_subst: "plain segs \<Longrightarrow> CHR ''$'' \<notin> set to \<Longrightarrow> plain (subst v to segs)"
  by (auto simp: plain_def subst_def split: if_splits)

text \<open>The template with the segments of the host in place of its variable.\<close>

definition inline_host :: "segment list \<Rightarrow> segment list \<Rightarrow> segment list" where
  "inline_host hsegs segs = concat (map (\<lambda>x. if x = Host then hsegs else [x]) segs)"

lemma template_inline: "template (subst Host (template hsegs) segs) = template (inline_host hsegs segs)"
  by (induction segs) (auto simp: template_def subst_def inline_host_def)

lemma plain_inline: "plain segs \<Longrightarrow> plain hsegs \<Longrightarrow> plain (inline_host hsegs segs)"
  by (auto simp: plain_def inline_host_def split: if_splits)

lemma subst_expand:
  assumes "Host \<notin> set segs"
  shows "template (subst Scheme c (subst Escaped_Uri b segs)) = expand a b c segs"
  using assms by (induction segs) (auto simp: template_def subst_def expand_def split: segment.splits)

lemma host_inline: "Host \<notin> set hsegs \<Longrightarrow> Host \<notin> set (inline_host hsegs segs)"
  by (auto simp: inline_host_def split: if_splits)

lemma expand_inline: "expand a b c (inline_host hsegs segs) = expand (expand a b c hsegs) b c segs"
  by (induction segs) (auto simp: expand_def inline_host_def split: segment.splits)

lemma dollar_percent_encode: "CHR ''$'' \<notin> set (percent_encode s)"
proof -
  have "CHR ''$'' \<notin> insert CHR ''%'' (set UNRESERVED)" by code_simp
  then show ?thesis using set_percent_encode by blast
qed

text \<open>
  C36: the sign-in redirect is the template with its variables substituted, in the host as
  well.  For a template whose literal text has no dollar sign, and a host which is a text
  without one or in which every dollar sign belongs to \<open>$escaped_request_uri\<close> or \<open>$scheme\<close>,
  the three successive replacements substitute percent-encoded request target and scheme
  in the host, and then host, target and scheme in the template, all at once.  So nothing
  in the path or query is ever taken for a variable, but a variable in the host the client
  sends is.
\<close>

theorem signin_location_expands:
  assumes "plain segs" and "plain hsegs" and "Host \<notin> set hsegs"
    and "escaped = percent_encode (case path_and_query of Some pq \<Rightarrow> pq | None \<Rightarrow> ''/'')"
    and "scheme = (if tls then ''https'' else ''http'')"
  shows "build_signin_location (template segs) (template hsegs) path_and_query tls
    = expand (expand [] escaped scheme hsegs) escaped scheme segs"
proof -
  let ?in = "inline_host hsegs segs"
  have 1: "str_replace ''$host'' (template hsegs) (template segs) = template ?in"
    using str_replace_template [of Host segs "template hsegs"] assms(1) by (simp add: template_inline)
  have p1: "plain ?in" using assms(1,2) by (rule plain_inline)
  have 2: "str_replace ''$escaped_request_uri'' escaped (template ?in) = template (subst Escaped_Uri escaped ?in)"
    using str_replace_template [of Escaped_Uri _ escaped] p1 by simp
  have p2: "plain (subst Escaped_Uri escaped ?in)"
    using p1 dollar_percent_encode unfolding assms(4) by (rule plain_subst)
  have 3: "str_replace ''$scheme'' scheme (template (subst Escaped_Uri escaped ?in))
      = template (subst Scheme scheme (subst Escaped_Uri escaped ?in))"
    using str_replace_template [of Scheme _ scheme] p2 by simp
  have "build_signin_location (template segs) (template hsegs) path_and_query tls
      = str_replace ''$scheme'' scheme (str_replace ''$escaped_request_uri'' escaped
          (str_replace ''$host'' (template hsegs) (template segs)))"
    unfolding build_signin_location_def Let_def assms(4,5) by (rule refl)
  also have "\<dots> = expand [] escaped scheme ?in"
    unfolding 1 2 3 by (rule subst_expand [OF host_inline [OF assms(3)]])
  finally show ?thesis unfolding expand_inline .
qed

text \<open>The query may name a variable; the second client sends \<open>Host: a$scheme\<close>.\<close>

theorem signin_location_expands_witness:
  "build_signin_location ''http://$host/oauth2/start?rd=$escaped_request_uri'' ''echo.local'' (Some ''/a?b=$host'') False
     = ''http://echo.local/oauth2/start?rd=%2Fa%3Fb%3D%24host''
   \<and> build_signin_location ''http://$host/oauth2/start?rd=$escaped_request_uri'' ''a$scheme'' None False
     = ''http://ahttp/oauth2/start?rd=%2F''"
proof -
  let ?segs = "[Text ''http://'', Host, Text ''/oauth2/start?rd='', Escaped_Uri]"
  have t: "template ?segs = ''http://$host/oauth2/start?rd=$escaped_request_uri''"
    "template [Text ''echo.local''] = ''echo.local''" "template [Text ''a'', Scheme] = ''a$scheme''"
    by (simp_all add: template_def)
  have p: "plain ?segs" "plain [Text ''echo.local'']" "plain [Text ''a'', Scheme]"
    "Host \<notin> set [Text ''echo.local'']" "Host \<notin> set [Text ''a'', Scheme]"
    by (auto simp: plain_def)
  show ?thesis
    using signin_location_expands [OF p(1,2,4) refl refl, of "Some ''/a?b=$host''" False]
      signin_location_expands [OF p(1,3,5) refl refl, of None False]
    unfolding t by (simp only: option.case if_False) code_simp
qed

end
