(* ===== verification/Auth_Gate.thy ===== *)
theory Auth_Gate
  imports Upstream_Request Signin
begin

text \<open>
  The authorization subrequest of \<open>proxy.rs\<close>: \<open>build_auth_request\<close> and
  \<open>perform_auth_if_needed\<close>.  The HTTP client is a parameter: \<open>net_reply\<close> answers a request
  given everything sent so far, \<open>net_elapsed\<close> says whether a deadline passed first.  The
  requests sent are recorded in order, each with the connector used and its timeout.
  \<open>net_reply\<close> is the outcome of a request that is answered or fails; nothing makes the
  authorization service answer, and the subrequest has no deadline.
\<close>

section \<open>The network and the texts of messages\<close>

record ('h, 'u, 'b) sent =
  snt_insecure :: bool
  snt_timeout :: "u64 option"
  snt_request :: "('h, 'u, 'b body) request"

record ('h, 'u, 'b, 'r, 'e) network =
  net_reply :: "('h, 'u, 'b) sent list \<Rightarrow> 'e + ('h, 'r) response"
  net_elapsed :: "('h, 'u, 'b) sent list \<Rightarrow> bool"

text \<open>
  The texts that go into messages: \<open>Debug\<close> of a URI and of a string, \<open>Display\<close> of a status
  code, \<open>Debug\<close> and \<open>Display\<close> of a client error, \<open>Display\<close> of an elapsed deadline.
\<close>

record ('u, 'e) fmt_lib =
  fmt_uri :: "'u \<Rightarrow> string"
  fmt_str :: "string \<Rightarrow> string"
  fmt_status :: "nat \<Rightarrow> string"
  fmt_error_debug :: "'e \<Rightarrow> string"
  fmt_error :: "'e \<Rightarrow> string"
  fmt_elapsed :: string

section \<open>The subrequest\<close>

text \<open>\<open>HeaderMap::insert\<close> of a value under \<open>if let Ok(v) = HeaderValue::from_str(s)\<close>.\<close>

definition insert_str :: "('h, 'u) http_lib \<Rightarrow> header_name \<Rightarrow> string \<Rightarrow> 'h \<Rightarrow> 'h" where
  "insert_str lib n s h =
     (case header_value_from_str lib s of
        Some v \<Rightarrow> hm_insert (hl_headers lib) n v h
      | None \<Rightarrow> h)"

text \<open>The copy of one header of the original request under \<open>if let Some(v) = ...get(name)\<close>.\<close>

definition copy_header :: "'h header_ops \<Rightarrow> 'h \<Rightarrow> header_name \<Rightarrow> 'h \<Rightarrow> 'h" where
  "copy_header hm from n h =
     (case hm_get hm from n of Some v \<Rightarrow> hm_insert hm n v h | None \<Rightarrow> h)"

definition build_auth_request ::
  "('h, 'u) http_lib \<Rightarrow> ('h, 'u, 'b) request \<Rightarrow> 'u \<Rightarrow> string \<Rightarrow> bool \<Rightarrow> ('h, 'u, 'b body) request" where
  "build_auth_request lib original_req auth_uri original_host frontend_is_tls =
     (let hm = hl_headers lib;
          headers = hm_new hm;
          headers = copy_header hm (rq_headers original_req) ''cookie'' headers;
          headers = copy_header hm (rq_headers original_req) ''authorization'' headers;
          scheme = (if frontend_is_tls then ''https'' else ''http'');
          path_q = (case uri_path_and_query lib (rq_uri original_req) of Some pq \<Rightarrow> pq | None \<Rightarrow> ''/'');
          redirect_url = scheme @ ''://'' @ original_host @ path_q;
          headers = hm_insert hm ''x-forwarded-proto'' scheme headers;
          headers = insert_str lib ''x-forwarded-host'' original_host headers;
          headers = insert_str lib ''x-forwarded-uri'' path_q headers;
          headers = insert_str lib ''x-original-uri'' path_q headers;
          headers = insert_str lib ''x-auth-request-redirect'' redirect_url headers
      in \<lparr>rq_method = ''GET'', rq_uri = auth_uri, rq_version = HTTP_11, rq_headers = headers,
          rq_frontend_tls = None, rq_body = Full []\<rparr>)"

section \<open>The gate\<close>

text \<open>
  The early redirect of a client without the configured cookie: \<open>Some\<close> response when the
  source returns it.
\<close>

definition cookie_redirect ::
  "('h, 'u) http_lib \<Rightarrow> ('h, 'u, 'b) request \<Rightarrow> auth_config_dex \<Rightarrow> string \<Rightarrow> bool
    \<Rightarrow> ('h, 'r body) response option" where
  "cookie_redirect lib req auth host frontend_is_tls =
     (let to_signin = map_option (\<lambda>signin. redirect lib FOUND
            (build_signin_location signin host (uri_path_and_query lib (rq_uri req)) frontend_is_tls))
            (ax_signin auth)
      in case ax_cookie_name auth of
           None \<Rightarrow> None
         | Some cookie_name \<Rightarrow>
             (case hm_get (hl_headers lib) (rq_headers req) ''cookie'' of
                Some cookies_val \<Rightarrow>
                  (case header_value_to_str lib cookies_val of
                     Some cookies \<Rightarrow>
                       (let needle = cookie_name @ ''='' in
                        if \<not> str_contains cookies needle then to_signin else None)
                   | None \<Rightarrow> None)
              | None \<Rightarrow> to_signin))"

definition is_success :: "nat \<Rightarrow> bool" where
  "is_success status \<longleftrightarrow> 200 \<le> status \<and> status < 300"

text \<open>The copy of one configured header from the authorization response into the request.\<close>

definition copy_response_header ::
  "('h, 'u) http_lib \<Rightarrow> 'h \<Rightarrow> string \<Rightarrow> 'h \<Rightarrow> 'h" where
  "copy_response_header lib from name h =
     (case header_name_from_bytes lib name of
        Some hn \<Rightarrow> copy_header (hl_headers lib) from hn h
      | None \<Rightarrow> h)"

text \<open>The subrequest to send, with the URL it goes to, or the response when there is none.\<close>

definition auth_request_for ::
  "('h, 'u) http_lib \<Rightarrow> ('u, 'e) fmt_lib \<Rightarrow> ('h, 'u, 'b) request \<Rightarrow> auth_config_dex \<Rightarrow> string \<Rightarrow> bool
    \<Rightarrow> ('h, 'r body) response + string \<times> ('h, 'u, 'b body) request" where
  "auth_request_for lib fmt req auth host frontend_is_tls =
     (let hm = hl_headers lib in
      case ax_url auth of
        None \<Rightarrow>
          Inl (text_response hm BAD_GATEWAY
             (''Authorization URL not found for: '' @ fmt_uri fmt (rq_uri req)))
      | Some auth_url \<Rightarrow>
          (case uri_from_str lib auth_url of
             None \<Rightarrow> Inl (text_response hm BAD_GATEWAY (''Invalid authorization URL: '' @ auth_url))
           | Some uri \<Rightarrow> Inr (auth_url, build_auth_request lib req uri host frontend_is_tls)))"

text \<open>What the answer to the subrequest means.\<close>

definition auth_answered ::
  "('h, 'u) http_lib \<Rightarrow> ('u, 'e) fmt_lib \<Rightarrow> ('h, 'u, 'b) request \<Rightarrow> auth_config_dex \<Rightarrow> string \<Rightarrow> string \<Rightarrow> bool
    \<Rightarrow> 'e + ('h, 'r) response \<Rightarrow> ('h, 'r body) response + ('h, 'u, 'b) request" where
  "auth_answered lib fmt req auth auth_url host frontend_is_tls reply =
     (let hm = hl_headers lib in
      case reply of
        Inl e \<Rightarrow>
          Inl (text_response hm BAD_GATEWAY
             (''Authorization subrequest failed: '' @ fmt_str fmt auth_url @ '' : '' @ fmt_error_debug fmt e))
      | Inr auth_resp \<Rightarrow>
          (let status = rs_status auth_resp in
           if is_success status then
             Inr (req\<lparr>rq_headers :=
                fold (copy_response_header lib (rs_headers auth_resp))
                  (ax_response_headers auth) (rq_headers req)\<rparr>)
           else if status = UNAUTHORIZED \<or> status = FORBIDDEN then
             (case ax_signin auth of
                Some signin \<Rightarrow>
                  Inl (redirect lib FOUND
                     (build_signin_location signin host (uri_path_and_query lib (rq_uri req)) frontend_is_tls))
              | None \<Rightarrow> Inl (text_response hm UNAUTHORIZED ''unauthorized''))
           else
             Inl (text_response hm BAD_GATEWAY
                (''authorization service returned '' @ fmt_status fmt status))))"

text \<open>
  The part after the cookie check: the subrequest, the wait for its answer, and what the
  answer means.  The subrequest has no timeout.  A service that never answers keeps the
  handler waiting here, so this is the outcome of a subrequest that is answered or fails;
  theory \<open>Tasks\<close> has the wait as a state of its own.
\<close>

definition auth_subrequest ::
  "('h, 'u) http_lib \<Rightarrow> ('u, 'e) fmt_lib \<Rightarrow> ('h, 'u, 'b, 'r, 'e) network \<Rightarrow> ('h, 'u, 'b) request
    \<Rightarrow> auth_config_dex \<Rightarrow> string \<Rightarrow> bool \<Rightarrow> bool \<Rightarrow> ('h, 'u, 'b) sent list
    \<Rightarrow> (('h, 'r body) response + ('h, 'u, 'b) request) \<times> ('h, 'u, 'b) sent list" where
  "auth_subrequest lib fmt net req auth host frontend_is_tls insecure trace =
     (case auth_request_for lib fmt req auth host frontend_is_tls of
        Inl resp \<Rightarrow> (Inl resp, trace)
      | Inr (auth_url, auth_req) \<Rightarrow>
          (let trace = trace @ [\<lparr>snt_insecure = insecure, snt_timeout = None, snt_request = auth_req\<rparr>]
           in (auth_answered lib fmt req auth auth_url host frontend_is_tls (net_reply net trace), trace)))"

lemmas auth_subrequest_defs = auth_subrequest_def auth_request_for_def auth_answered_def

definition perform_auth_if_needed ::
  "('h, 'u) http_lib \<Rightarrow> ('u, 'e) fmt_lib \<Rightarrow> ('h, 'u, 'b, 'r, 'e) network \<Rightarrow> ('h, 'u, 'b) request
    \<Rightarrow> auth_config_dex \<Rightarrow> string \<Rightarrow> bool \<Rightarrow> bool \<Rightarrow> ('h, 'u, 'b) sent list
    \<Rightarrow> (('h, 'r body) response + ('h, 'u, 'b) request) \<times> ('h, 'u, 'b) sent list" where
  "perform_auth_if_needed lib fmt net req auth host frontend_is_tls insecure trace =
     (let path = uri_path lib (rq_uri req) in
      if list_ex (\<lambda>p. starts_with path p) (ax_skip_paths auth) then (Inr req, trace)
      else case cookie_redirect lib req auth host frontend_is_tls of
        Some resp \<Rightarrow> (Inl resp, trace)
      | None \<Rightarrow> auth_subrequest lib fmt net req auth host frontend_is_tls insecure trace)"

section \<open>What the gate lets through\<close>

definition skips_auth :: "('h, 'u) http_lib \<Rightarrow> auth_config_dex \<Rightarrow> ('h, 'u, 'b) request \<Rightarrow> bool" where
  "skips_auth lib auth req \<longleftrightarrow> (\<exists>p \<in> set (ax_skip_paths auth). prefix p (uri_path lib (rq_uri req)))"

text \<open>
  The evidence of a positive answer: exactly one more request was sent, the subrequest to
  the configured URL, and the service answered it with a 2xx status.
\<close>

definition granted ::
  "('h, 'u) http_lib \<Rightarrow> ('h, 'u, 'b, 'r, 'e) network \<Rightarrow> ('h, 'u, 'b) request \<Rightarrow> auth_config_dex
    \<Rightarrow> string \<Rightarrow> bool \<Rightarrow> bool \<Rightarrow> ('h, 'u, 'b) sent list \<Rightarrow> ('h, 'u, 'b) sent list
    \<Rightarrow> ('h, 'r) response \<Rightarrow> bool" where
  "granted lib net req auth host tls insecure trace trace' resp \<longleftrightarrow>
     (\<exists>url uri. ax_url auth = Some url \<and> uri_from_str lib url = Some uri
        \<and> trace' = trace @ [\<lparr>snt_insecure = insecure, snt_timeout = None,
                            snt_request = build_auth_request lib req uri host tls\<rparr>]
        \<and> net_reply net trace' = Inr resp \<and> is_success (rs_status resp))"

lemma auth_subrequest_Inr:
  assumes "auth_subrequest lib fmt net req auth host tls insecure trace = (Inr req', trace')"
  obtains resp where "granted lib net req auth host tls insecure trace trace' resp"
    and "req' = req\<lparr>rq_headers := fold (copy_response_header lib (rs_headers resp))
                     (ax_response_headers auth) (rq_headers req)\<rparr>"
  using assms
  by (auto simp: auth_subrequest_defs granted_def Let_def split: option.splits sum.splits if_splits)

lemma perform_auth_unfold:
  "perform_auth_if_needed lib fmt net req auth host tls insecure trace =
     (if skips_auth lib auth req then (Inr req, trace)
      else case cookie_redirect lib req auth host tls of
        Some resp \<Rightarrow> (Inl resp, trace)
      | None \<Rightarrow> auth_subrequest lib fmt net req auth host tls insecure trace)"
  unfolding perform_auth_if_needed_def skips_auth_def list_ex_iff Let_def by (rule refl)

lemma refusal_origin:
  "perform_auth_if_needed lib fmt net req auth host tls insecure trace = (Inl resp, trace') \<Longrightarrow>
   cookie_redirect lib req auth host tls = Some resp
   \<or> auth_subrequest lib fmt net req auth host tls insecure trace = (Inl resp, trace')"
  by (simp add: perform_auth_unfold split: if_splits option.splits)

lemma perform_auth_cases:
  fixes net :: "('h, 'u, 'b, 'r, 'e) network"
  assumes "perform_auth_if_needed lib fmt net req auth host tls insecure trace = (Inr req', trace')"
  obtains (skip) "skips_auth lib auth req" "req' = req" "trace' = trace"
  | (grant) resp where "granted lib net req auth host tls insecure trace trace' resp"
      "\<not> skips_auth lib auth req"
      "req' = req\<lparr>rq_headers := fold (copy_response_header lib (rs_headers resp))
                   (ax_response_headers auth) (rq_headers req)\<rparr>"
proof (cases "skips_auth lib auth req")
  case True
  with assms have "req' = req" "trace' = trace" by (simp_all add: perform_auth_unfold)
  with True show ?thesis by (rule skip)
next
  case False
  with assms have "auth_subrequest lib fmt net req auth host tls insecure trace = (Inr req', trace')"
    by (cases "cookie_redirect lib req auth host tls :: ('h, 'r body) response option")
      (simp_all add: perform_auth_unfold)
  then show ?thesis by (rule auth_subrequest_Inr) (rule grant [OF _ False])
qed

text \<open>
  C9: the gate fails closed.  A request passes only if its path starts with a skipped
  prefix, and then untouched and without a subrequest, or if exactly one subrequest was
  sent to the configured URL and answered with a 2xx status.  No redirect, no error of
  the service and no missing or malformed URL lets a request through.
\<close>

theorem auth_fails_closed:
  assumes "perform_auth_if_needed lib fmt net req auth host tls insecure trace = (Inr req', trace')"
  shows "(skips_auth lib auth req \<and> req' = req \<and> trace' = trace)
    \<or> (\<exists>resp. granted lib net req auth host tls insecure trace trace' resp)"
  using assms by (rule perform_auth_cases) blast+

lemma rs_status_simps [simp]:
  "rs_status (text_response hm st s) = st" "rs_status (redirect lib st loc) = st"
  by (simp_all add: text_response_def redirect_def Let_def split: option.splits)

text \<open>
  How the gate refuses.  A refusal is a 302, a 401 or a 502; it is a redirect
  only if a sign-in URL is configured, and a 401 only if none is.
\<close>

theorem auth_refusals:
  assumes "perform_auth_if_needed lib fmt net req auth host tls insecure trace = (Inl resp, trace')"
  shows "rs_status resp \<in> {FOUND, UNAUTHORIZED, BAD_GATEWAY}
    \<and> (rs_status resp = FOUND \<longrightarrow> ax_signin auth \<noteq> None)
    \<and> (rs_status resp = UNAUTHORIZED \<longrightarrow> ax_signin auth = None)"
proof -
  have "cookie_redirect lib req auth host tls = Some resp
      \<or> auth_subrequest lib fmt net req auth host tls insecure trace = (Inl resp, trace')"
    using assms by (rule refusal_origin)
  then show ?thesis
    by (elim disjE) (auto simp: cookie_redirect_def auth_subrequest_defs Let_def
      split: option.splits sum.splits if_splits)
qed

section \<open>Headers across the gate\<close>

text \<open>The values of each header of the subrequest.\<close>

definition auth_header_values ::
  "(string \<Rightarrow> header_value option) \<Rightarrow> bool \<Rightarrow> string \<Rightarrow> string \<Rightarrow> (header_name \<Rightarrow> header_value list)
    \<Rightarrow> header_name \<Rightarrow> header_value list" where
  "auth_header_values from_str tls host path_q old n =
     (let scheme = (if tls then ''https'' else ''http'');
          values = (\<lambda>s. case from_str s of Some v \<Rightarrow> [v] | None \<Rightarrow> [])
      in if n \<in> {''cookie'', ''authorization''} then take 1 (old n)
         else if n = ''x-forwarded-proto'' then [scheme]
         else if n = ''x-forwarded-host'' then values host
         else if n \<in> {''x-forwarded-uri'', ''x-original-uri''} then values path_q
         else if n = ''x-auth-request-redirect'' then values (scheme @ ''://'' @ host @ path_q)
         else [])"

context header_map
begin

lemma get_all_copy_header:
  "hm_get_all hm (copy_header hm from n h) m =
     (if m = n \<and> hm_get_all hm from n \<noteq> [] then take 1 (hm_get_all hm from n) else hm_get_all hm h m)"
  by (auto simp: copy_header_def get_get_all get_all_insert split: list.splits)

lemma get_all_insert_str:
  "hl_headers lib = hm \<Longrightarrow> hm_get_all hm (insert_str lib n s h) m =
     (case header_value_from_str lib s of
        Some v \<Rightarrow> if m = n then [v] else hm_get_all hm h m
      | None \<Rightarrow> hm_get_all hm h m)"
  by (auto simp: insert_str_def get_all_insert split: option.splits)

lemma get_all_copy_response_header:
  "hl_headers lib = hm \<Longrightarrow> hm_get_all hm (copy_response_header lib from name h) n =
    (if header_name_from_bytes lib name = Some n \<and> hm_get_all hm from n \<noteq> []
     then take 1 (hm_get_all hm from n) else hm_get_all hm h n)"
  by (auto simp: copy_response_header_def get_all_copy_header split: option.splits)

lemma get_all_copy_response:
  "hl_headers lib = hm \<Longrightarrow> hm_get_all hm (fold (copy_response_header lib from) names h) n =
    (if Some n \<in> header_name_from_bytes lib ` set names \<and> hm_get_all hm from n \<noteq> []
     then take 1 (hm_get_all hm from n) else hm_get_all hm h n)"
  by (induction names arbitrary: h) (auto simp: get_all_copy_response_header)

end

text \<open>
  The authorization service is told about the original request and nothing else.
  The subrequest has the \<^emph>\<open>first\<close> value of \<open>Cookie\<close> and of \<open>Authorization\<close>, the scheme, host
  and target the client asked for, and no other header.
\<close>

theorem auth_request_headers:
  assumes "header_map (hl_headers lib)"
  shows "hm_get_all (hl_headers lib) (rq_headers (build_auth_request lib req uri host tls))
    = auth_header_values (header_value_from_str lib) tls host
        (case uri_path_and_query lib (rq_uri req) of Some pq \<Rightarrow> pq | None \<Rightarrow> ''/'')
        (hm_get_all (hl_headers lib) (rq_headers req))"
proof
  fix n
  note h = header_map.get_all_copy_header [OF assms] header_map.get_all_insert_str [OF assms refl]
    header_map.get_all_insert [OF assms] header_map.get_all_new [OF assms]
  show "hm_get_all (hl_headers lib) (rq_headers (build_auth_request lib req uri host tls)) n
    = auth_header_values (header_value_from_str lib) tls host
        (case uri_path_and_query lib (rq_uri req) of Some pq \<Rightarrow> pq | None \<Rightarrow> ''/'')
        (hm_get_all (hl_headers lib) (rq_headers req)) n"
    by (simp add: build_auth_request_def Let_def h auth_header_values_def split: option.split)
qed

text \<open>
  What a granted request gains.  A header configured to be copied from the
  authorization response has that response's first value if the response has the header;
  every other header, and a configured one the response lacks, is as the client sent it.
\<close>

theorem granted_headers:
  assumes "header_map (hl_headers lib)"
    and "perform_auth_if_needed lib fmt net req auth host tls insecure trace = (Inr req', trace')"
    and "net_reply net trace' = Inr resp" and "\<not> skips_auth lib auth req"
  shows "hm_get_all (hl_headers lib) (rq_headers req') n =
    (if Some n \<in> header_name_from_bytes lib ` set (ax_response_headers auth)
        \<and> hm_get_all (hl_headers lib) (rs_headers resp) n \<noteq> []
     then take 1 (hm_get_all (hl_headers lib) (rs_headers resp) n)
     else hm_get_all (hl_headers lib) (rq_headers req) n)"
  using assms(2)
proof (cases rule: perform_auth_cases)
  case (grant r)
  moreover have "r = resp" using grant(1) assms(3) by (auto simp: granted_def)
  ultimately show ?thesis by (simp add: header_map.get_all_copy_response [OF assms(1) refl])
qed (use assms(4) in simp)

section \<open>An instance\<close>

text \<open>A service that answers every request with one status and one user header.\<close>

definition answering ::
  "nat \<Rightarrow> (header_name \<Rightarrow> header_value list, uri_parts, string, string, string) network" where
  "answering status =
     \<lparr>net_reply = (\<lambda>_. Inr \<lparr>rs_status = status, rs_headers = (\<lambda>_. [])(''x-user'' := [''ann'']), rs_body = []\<rparr>),
      net_elapsed = (\<lambda>_. False)\<rparr>"

definition plain_fmt :: "(uri_parts, string) fmt_lib" where
  "plain_fmt =
     \<lparr>fmt_uri = (\<lambda>_. []), fmt_str = (\<lambda>s. s), fmt_status = show_nat, fmt_error_debug = (\<lambda>e. e),
      fmt_error = (\<lambda>e. e), fmt_elapsed = ''deadline has elapsed''\<rparr>"

definition demo_auth :: "string option \<Rightarrow> auth_config_dex" where
  "demo_auth signin =
     \<lparr>ax_url = Some ''/check'', ax_signin = signin, ax_response_headers = [''X-User''],
      ax_skip_paths = [''/oauth2/''], ax_cookie_name = None\<rparr>"

lemmas demo_auth_simps = perform_auth_unfold skips_auth_def cookie_redirect_def auth_subrequest_defs
  Let_def demo_auth_def answering_def plain_fmt_def demo_request_def is_success_def parts_lib_def

lemma demo_not_skipped: "\<not> skips_auth parts_lib (demo_auth signin) demo_request"
  by (simp add: skips_auth_def demo_auth_def demo_request_def parts_lib_def)

lemma demo_granted:
  "\<exists>req' trace'. perform_auth_if_needed parts_lib plain_fmt (answering 204) demo_request
     (demo_auth None) ''demo.local'' True False [] = (Inr req', trace')"
  by (simp add: demo_auth_simps)

theorem auth_fails_closed_witness:
  "\<exists>resp trace'. granted parts_lib (answering 204) demo_request (demo_auth None) ''demo.local'' True False [] trace' resp"
proof -
  obtain req' trace' where *: "perform_auth_if_needed parts_lib plain_fmt (answering 204) demo_request
     (demo_auth None) ''demo.local'' True False [] = (Inr req', trace')"
    using demo_granted by blast
  from auth_fails_closed [OF *] demo_not_skipped show ?thesis by blast
qed

theorem auth_refusals_witness:
  "\<exists>resp trace'. perform_auth_if_needed parts_lib plain_fmt (answering 403) demo_request
     (demo_auth None) ''demo.local'' True False [] = (Inl resp, trace')
   \<and> rs_status resp \<in> {UNAUTHORIZED, BAD_GATEWAY}"
proof -
  obtain resp trace' where *: "perform_auth_if_needed parts_lib plain_fmt (answering 403) demo_request
     (demo_auth None) ''demo.local'' True False [] = (Inl resp, trace')"
    by (simp add: demo_auth_simps)
  have "ax_signin (demo_auth None) = None" by (simp add: demo_auth_def)
  with auth_refusals [OF *] show ?thesis using * by blast
qed

theorem auth_request_headers_witness:
  "map (hm_get_all multimap_headers (rq_headers
      (build_auth_request parts_lib demo_request (rq_uri demo_request) ''demo.local'' True)))
    [''cookie'', ''te'', ''x-original-uri'', ''x-auth-request-redirect'']
   = [[''sid=1''], [], [''/api?x=1''], [''https://demo.local/api?x=1'']]"
proof -
  have "uri_path_and_query parts_lib (rq_uri demo_request) = Some ''/api?x=1''"
    by (simp add: parts_lib_def demo_request_def)
  with auth_request_headers [OF header_map_parts_lib, of demo_request "rq_uri demo_request" "''demo.local''" True]
  show ?thesis
    by (simp add: auth_header_values_def demo_request_def)
qed

theorem granted_headers_witness:
  "\<exists>req' trace'. perform_auth_if_needed parts_lib plain_fmt (answering 204) demo_request
     (demo_auth None) ''demo.local'' True False [] = (Inr req', trace')
   \<and> hm_get_all multimap_headers (rq_headers req') ''x-user'' = [''ann'']"
proof -
  obtain req' trace' where *: "perform_auth_if_needed parts_lib plain_fmt (answering 204) demo_request
     (demo_auth None) ''demo.local'' True False [] = (Inr req', trace')"
    using demo_granted by blast
  have "to_ascii_lowercase ''X-User'' = ''x-user''" by code_simp
  with granted_headers [OF header_map_parts_lib *, of _ "''x-user''"] demo_not_skipped * show ?thesis
    by (simp add: answering_def demo_auth_def)
qed

end
