(* ===== verification/Forward.thy ===== *)
theory Forward
  imports Auth_Gate
begin

text \<open>
  \<open>RequestSnapshot\<close>, \<open>build_retry_request\<close> and \<open>forward_to_upstream\<close> of \<open>proxy.rs\<close>: sending
  a request upstream with a timeout per attempt and a bounded number of attempts.  The
  specification \<open>try_all\<close> sends a list of requests, fixed in advance, until one is answered.
\<close>

section \<open>The loop\<close>

record ('h, 'u) request_snapshot =
  sp_method :: string
  sp_uri :: 'u
  sp_version :: version
  sp_headers :: 'h
  sp_body_is_reusable :: bool

text \<open>\<open>is_end_stream\<close> is \<open>Body::is_end_stream\<close> of the incoming body.\<close>

definition capture :: "('b \<Rightarrow> bool) \<Rightarrow> ('h, 'u, 'b) request \<Rightarrow> ('h, 'u) request_snapshot" where
  "capture is_end_stream req =
     \<lparr>sp_method = rq_method req, sp_uri = rq_uri req, sp_version = rq_version req,
      sp_headers = rq_headers req, sp_body_is_reusable = is_end_stream (rq_body req)\<rparr>"

definition build_retry_request :: "('h, 'u) request_snapshot \<Rightarrow> ('h, 'u, 'b body) request" where
  "build_retry_request snapshot =
     \<lparr>rq_method = sp_method snapshot, rq_uri = sp_uri snapshot, rq_version = sp_version snapshot,
      rq_headers = sp_headers snapshot, rq_frontend_tls = None, rq_body = Full []\<rparr>"

definition timeout_text :: "('u, 'e) fmt_lib \<Rightarrow> string \<Rightarrow> string" where
  "timeout_text fmt addr = ''Upstream connector timeout ('' @ fmt_elapsed fmt @ ''): '' @ fmt_str fmt addr"

definition error_text :: "('u, 'e) fmt_lib \<Rightarrow> 'e \<Rightarrow> string \<Rightarrow> string" where
  "error_text fmt e addr = ''Upstream connector error ('' @ fmt_error fmt e @ ''): '' @ fmt_str fmt addr"

definition no_attempt_text :: "('u, 'e) fmt_lib \<Rightarrow> string \<Rightarrow> string" where
  "no_attempt_text fmt addr = ''Upstream connector timed out: '' @ fmt_str fmt addr"

text \<open>
  The loop over \<open>0..retries\<close>; the result is the last error, the response and the trace.  A
  deadline that passes first hides the client's answer.
\<close>

fun forward_loop ::
  "('u, 'e) fmt_lib \<Rightarrow> ('h, 'u, 'b, 'r, 'e) network \<Rightarrow> bool \<Rightarrow> u64 \<Rightarrow> nat \<Rightarrow> ('h, 'u) request_snapshot
    \<Rightarrow> string \<Rightarrow> nat list \<Rightarrow> ('h, 'u, 'b body) request option \<Rightarrow> string option \<Rightarrow> ('h, 'u, 'b) sent list
    \<Rightarrow> string option \<times> ('h, 'r) response option \<times> ('h, 'u, 'b) sent list" where
  "forward_loop fmt net insecure timeout retries snapshot addr [] first_request last_err trace =
     (last_err, None, trace)"
| "forward_loop fmt net insecure timeout retries snapshot addr (attempt # attempts) first_request last_err trace =
     (case (case first_request of
              Some req \<Rightarrow> Some req
            | None \<Rightarrow> if sp_body_is_reusable snapshot then Some (build_retry_request snapshot) else None) of
        None \<Rightarrow> (last_err, None, trace)
      | Some request \<Rightarrow>
          (let trace = trace @ [\<lparr>snt_insecure = insecure, snt_timeout = Some timeout, snt_request = request\<rparr>] in
           if net_elapsed net trace then
             (let last_err = Some (timeout_text fmt addr) in
              if attempt + 1 = retries then (last_err, None, trace)
              else forward_loop fmt net insecure timeout retries snapshot addr attempts None last_err trace)
           else case net_reply net trace of
             Inr resp \<Rightarrow> (last_err, Some resp, trace)
           | Inl e \<Rightarrow>
               (let last_err = Some (error_text fmt e addr) in
                if attempt + 1 = retries then (last_err, None, trace)
                else forward_loop fmt net insecure timeout retries snapshot addr attempts None last_err trace)))"

definition forward_to_upstream ::
  "('u, 'e) fmt_lib \<Rightarrow> ('h, 'u, 'b, 'r, 'e) network \<Rightarrow> ('h, 'u, 'b body) request \<Rightarrow> bool \<Rightarrow> u64 \<Rightarrow> nat
    \<Rightarrow> ('h, 'u) request_snapshot \<Rightarrow> string \<Rightarrow> ('h, 'u, 'b) sent list
    \<Rightarrow> (string + ('h, 'r) response) \<times> ('h, 'u, 'b) sent list" where
  "forward_to_upstream fmt net initial_request insecure timeout retries snapshot addr trace =
     (case forward_loop fmt net insecure timeout retries snapshot addr [0..<retries]
             (Some initial_request) None trace of
        (last_err, response, trace') \<Rightarrow>
          (case response of
             Some resp \<Rightarrow> (Inr resp, trace')
           | None \<Rightarrow>
               (Inl (case last_err of
                       Some e \<Rightarrow> e
                     | None \<Rightarrow> no_attempt_text fmt addr), trace')))"

text \<open>\<open>req.map(|b| b.boxed())\<close>.\<close>

definition box_body :: "('h, 'u, 'b) request \<Rightarrow> ('h, 'u, 'b body) request" where
  "box_body req =
     \<lparr>rq_method = rq_method req, rq_uri = rq_uri req, rq_version = rq_version req,
      rq_headers = rq_headers req, rq_frontend_tls = rq_frontend_tls req, rq_body = Boxed (rq_body req)\<rparr>"

section \<open>The plan of attempts\<close>

text \<open>The text of a failed attempt, \<open>None\<close> if it was answered; the last request of the trace is meant.\<close>

definition attempt_error ::
  "('u, 'e) fmt_lib \<Rightarrow> ('h, 'u, 'b, 'r, 'e) network \<Rightarrow> string \<Rightarrow> ('h, 'u, 'b) sent list \<Rightarrow> string option" where
  "attempt_error fmt net addr trace =
     (if net_elapsed net trace
      then Some (timeout_text fmt addr)
      else case net_reply net trace of
        Inl e \<Rightarrow> Some (error_text fmt e addr)
      | Inr _ \<Rightarrow> None)"

fun try_all ::
  "('u, 'e) fmt_lib \<Rightarrow> ('h, 'u, 'b, 'r, 'e) network \<Rightarrow> string \<Rightarrow> ('h, 'u, 'b) sent list \<Rightarrow> string
    \<Rightarrow> ('h, 'u, 'b) sent list \<Rightarrow> (string + ('h, 'r) response) \<times> ('h, 'u, 'b) sent list" where
  "try_all fmt net addr [] err trace = (Inl err, trace)"
| "try_all fmt net addr (x # xs) err trace =
     (case attempt_error fmt net addr (trace @ [x]) of
        Some err' \<Rightarrow> try_all fmt net addr xs err' (trace @ [x])
      | None \<Rightarrow> (map_sum (\<lambda>_. err) id (net_reply net (trace @ [x])), trace @ [x]))"

definition attempt_plan ::
  "bool \<Rightarrow> u64 \<Rightarrow> nat \<Rightarrow> ('h, 'u, 'b body) request \<Rightarrow> ('h, 'u) request_snapshot \<Rightarrow> ('h, 'u, 'b) sent list" where
  "attempt_plan insecure timeout retries initial_request snapshot =
     map (\<lambda>r. \<lparr>snt_insecure = insecure, snt_timeout = Some timeout, snt_request = r\<rparr>)
       (take (if sp_body_is_reusable snapshot then retries else min 1 retries)
          (initial_request # replicate (retries - 1) (build_retry_request snapshot)))"

text \<open>The requests the loop may still send when it is at some attempt.\<close>

definition remaining ::
  "bool \<Rightarrow> u64 \<Rightarrow> nat \<Rightarrow> ('h, 'u, 'b body) request option \<Rightarrow> ('h, 'u) request_snapshot \<Rightarrow> ('h, 'u, 'b) sent list" where
  "remaining insecure timeout n first_request snapshot =
     map (\<lambda>r. \<lparr>snt_insecure = insecure, snt_timeout = Some timeout, snt_request = r\<rparr>)
       (let retry = build_retry_request snapshot;
            more = (\<lambda>k. if sp_body_is_reusable snapshot then replicate k retry else [])
        in case first_request of Some r \<Rightarrow> if n = 0 then [] else r # more (n - 1) | None \<Rightarrow> more n)"

definition loop_result ::
  "string \<Rightarrow> string option \<times> ('h, 'r) response option \<times> ('h, 'u, 'b) sent list
    \<Rightarrow> (string + ('h, 'r) response) \<times> ('h, 'u, 'b) sent list" where
  "loop_result dflt out =
     (case out of (last_err, response, trace) \<Rightarrow>
        (case response of Some resp \<Rightarrow> Inr resp
         | None \<Rightarrow> Inl (case last_err of Some e \<Rightarrow> e | None \<Rightarrow> dflt), trace))"

lemma remaining_Suc:
  "remaining insecure timeout (Suc n) first_request snapshot =
     (case (case first_request of
              Some req \<Rightarrow> Some req
            | None \<Rightarrow> if sp_body_is_reusable snapshot then Some (build_retry_request snapshot) else None) of
        None \<Rightarrow> []
      | Some r \<Rightarrow> \<lparr>snt_insecure = insecure, snt_timeout = Some timeout, snt_request = r\<rparr>
                   # remaining insecure timeout n None snapshot)"
  by (simp add: remaining_def Let_def split: option.splits)

lemma remaining_0: "remaining insecure timeout 0 first_request snapshot = []"
  by (simp add: remaining_def Let_def split: option.splits)

lemma loop_result_simps [simp]:
  "loop_result dflt (e, Some resp, tr) = (Inr resp, tr)"
  "loop_result dflt (e, None, tr) = (Inl (case e of Some e \<Rightarrow> e | None \<Rightarrow> dflt), tr)"
  by (simp_all add: loop_result_def)

text \<open>One attempt: a request to send, then either an answer or the rest of the loop.\<close>

lemma forward_loop_Cons:
  assumes "(case first of Some req \<Rightarrow> Some req
      | None \<Rightarrow> if sp_body_is_reusable snapshot then Some (build_retry_request snapshot) else None) = Some r"
    and "tr = trace @ [\<lparr>snt_insecure = insecure, snt_timeout = Some timeout, snt_request = r\<rparr>]"
  shows "forward_loop fmt net insecure timeout retries snapshot addr (a # as) first last_err trace =
    (case attempt_error fmt net addr tr of
       Some e \<Rightarrow> if Suc a = retries then (Some e, None, tr)
                 else forward_loop fmt net insecure timeout retries snapshot addr as None (Some e) tr
     | None \<Rightarrow> (case net_reply net tr of Inr resp \<Rightarrow> (last_err, Some resp, tr) | Inl e \<Rightarrow> (last_err, None, tr)))"
  unfolding forward_loop.simps assms(1) attempt_error_def Let_def option.case assms(2) [symmetric]
  by (simp split: sum.split)

lemma attempt_answered: "attempt_error fmt net addr tr = None \<Longrightarrow> \<exists>resp. net_reply net tr = Inr resp"
  by (auto simp: attempt_error_def split: if_splits sum.splits)

lemma forward_loop_try_all:
  "a + n = retries \<Longrightarrow>
   loop_result dflt (forward_loop fmt net insecure timeout retries snapshot addr [a..<retries] first last_err trace)
   = try_all fmt net addr (remaining insecure timeout n first snapshot)
       (case last_err of Some e \<Rightarrow> e | None \<Rightarrow> dflt) trace"
proof (induction n arbitrary: a first last_err trace)
  case 0
  then show ?case by (simp add: remaining_0)
next
  case (Suc n)
  then have upt: "[a..<retries] = a # [Suc a..<retries]" and sum: "Suc a + n = retries"
    by (simp_all add: upt_rec)
  let ?pick = "case first of Some req \<Rightarrow> Some req
      | None \<Rightarrow> if sp_body_is_reusable snapshot then Some (build_retry_request snapshot) else None"
  show ?case
  proof (cases ?pick)
    case None
    then show ?thesis by (simp add: upt remaining_Suc split: option.splits if_splits)
  next
    case (Some r)
    define x where "x = \<lparr>snt_insecure = insecure, snt_timeout = Some timeout, snt_request = r\<rparr>"
    have rem: "remaining insecure timeout (Suc n) first snapshot = x # remaining insecure timeout n None snapshot"
      unfolding remaining_Suc Some x_def by simp
    have last: "Suc a = retries \<Longrightarrow> n = 0" using sum by simp
    show ?thesis
      unfolding upt rem forward_loop_Cons [OF Some refl] x_def [symmetric]
      using attempt_answered [of fmt net addr "trace @ [x]"] last
      by (auto simp: Suc.IH [OF sum] remaining_0 split: option.split)
  qed
qed

lemma forward_refines_plan:
  "forward_to_upstream fmt net req insecure timeout retries snapshot addr trace
   = try_all fmt net addr (attempt_plan insecure timeout retries req snapshot)
       (no_attempt_text fmt addr) trace"
proof -
  let ?d = "no_attempt_text fmt addr"
  have "attempt_plan insecure timeout retries req snapshot = remaining insecure timeout retries (Some req) snapshot"
    by (cases retries) (simp_all add: attempt_plan_def remaining_def Let_def)
  moreover have "forward_to_upstream fmt net req insecure timeout retries snapshot addr trace
      = loop_result ?d (forward_loop fmt net insecure timeout retries snapshot addr [0..<retries] (Some req) None trace)"
    by (simp add: forward_to_upstream_def loop_result_def split: prod.split option.split)
  ultimately show ?thesis by (simp add: forward_loop_try_all [where n = retries])
qed

text \<open>
  C29: the retry loop is a bounded sequence of attempts.  \<open>forward_to_upstream\<close> sends the
  requests of the plan one after the other, the first one the request itself and the
  others its replay, until one is answered in time; the plan has the configured number of
  attempts if the body can be replayed and a single one otherwise.  The error is that of
  the last attempt.
\<close>

theorem forward_refines:
  "forward_to_upstream fmt net req insecure timeout retries snapshot addr trace
   = try_all fmt net addr (attempt_plan insecure timeout retries req snapshot)
       (no_attempt_text fmt addr) trace"
  by (rule forward_refines_plan)

section \<open>How many attempts, and of what\<close>

lemma try_all_run:
  assumes "try_all fmt net addr xs err trace = (out, trace')"
  obtains k where "k \<le> length xs" "trace' = trace @ take k xs"
    and "\<And>i. i < k \<Longrightarrow> Suc i < k \<or> (\<exists>e. out = Inl e)
           \<Longrightarrow> attempt_error fmt net addr (trace @ take (Suc i) xs) \<noteq> None"
    and "case out of Inl e \<Rightarrow> k = length xs
         | Inr resp \<Rightarrow> 0 < k \<and> attempt_error fmt net addr trace' = None \<and> net_reply net trace' = Inr resp"
  using assms
proof (induction xs arbitrary: err trace thesis)
  case Nil
  then show ?case by (auto split: sum.splits)
next
  case (Cons x xs)
  show ?case
  proof (cases "attempt_error fmt net addr (trace @ [x])")
    case None
    then obtain resp where "net_reply net (trace @ [x]) = Inr resp" using attempt_answered by blast
    then show ?thesis using None Cons.prems(2) by (intro Cons.prems(1) [of 1]) auto
  next
    case (Some e)
    then have "try_all fmt net addr xs e (trace @ [x]) = (out, trace')" using Cons.prems(2) by simp
    then obtain k where k: "k \<le> length xs" "trace' = (trace @ [x]) @ take k xs"
      "\<And>i. i < k \<Longrightarrow> Suc i < k \<or> (\<exists>e. out = Inl e)
         \<Longrightarrow> attempt_error fmt net addr ((trace @ [x]) @ take (Suc i) xs) \<noteq> None"
      "case out of Inl e \<Rightarrow> k = length xs
       | Inr resp \<Rightarrow> 0 < k \<and> attempt_error fmt net addr trace' = None \<and> net_reply net trace' = Inr resp"
      using Cons.IH by blast
    show ?thesis
    proof (rule Cons.prems(1) [of "Suc k"])
      fix i assume "i < Suc k" "Suc i < Suc k \<or> (\<exists>e. out = Inl e)"
      then show "attempt_error fmt net addr (trace @ take (Suc i) (x # xs)) \<noteq> None"
        using Some k(3) [of "i - 1"] by (cases i) auto
    qed (use k in \<open>auto split: sum.splits\<close>)
  qed
qed

lemma length_attempt_plan:
  "length (attempt_plan insecure timeout retries req snapshot)
     = (if sp_body_is_reusable snapshot then retries else min 1 retries)"
  by (cases retries) (auto simp: attempt_plan_def)

text \<open>
  C30: the number of attempts.  With a retry count of at least one, at least one and at
  most that many requests are sent, exactly one if the body cannot be replayed; every
  attempt but an answered last one failed; and an error is reported only after all
  allowed attempts have failed.
\<close>

theorem forward_attempts:
  assumes "0 < retries"
    and "forward_to_upstream fmt net req insecure timeout retries snapshot addr trace = (out, trace')"
  shows "\<exists>k. 1 \<le> k \<and> k \<le> (if sp_body_is_reusable snapshot then retries else 1)
    \<and> trace' = trace @ take k (attempt_plan insecure timeout retries req snapshot)
    \<and> (\<forall>i<k. Suc i < k \<or> (\<exists>e. out = Inl e) \<longrightarrow>
         attempt_error fmt net addr (trace @ take (Suc i) (attempt_plan insecure timeout retries req snapshot)) \<noteq> None)
    \<and> (case out of
         Inl e \<Rightarrow> k = (if sp_body_is_reusable snapshot then retries else 1)
       | Inr resp \<Rightarrow> attempt_error fmt net addr trace' = None \<and> net_reply net trace' = Inr resp)"
proof -
  let ?plan = "attempt_plan insecure timeout retries req snapshot"
  have len: "length ?plan = (if sp_body_is_reusable snapshot then retries else 1)"
    using assms(1) by (simp add: length_attempt_plan)
  from assms(2) obtain k where k: "k \<le> length ?plan" "trace' = trace @ take k ?plan"
    "\<And>i. i < k \<Longrightarrow> Suc i < k \<or> (\<exists>e. out = Inl e)
       \<Longrightarrow> attempt_error fmt net addr (trace @ take (Suc i) ?plan) \<noteq> None"
    "case out of Inl e \<Rightarrow> k = length ?plan
     | Inr resp \<Rightarrow> 0 < k \<and> attempt_error fmt net addr trace' = None \<and> net_reply net trace' = Inr resp"
    unfolding forward_refines_plan by (rule try_all_run) (rule that)
  moreover have "1 \<le> k" using k(1, 4) len assms(1) by (auto split: sum.splits if_splits)
  ultimately show ?thesis unfolding len by (intro exI [of _ k]) (auto split: sum.splits)
qed

text \<open>
  A replay is the request again.  Every request of the plan has the method, URI,
  version and headers of the request itself, goes out with the configured timeout on the
  chosen connector, and has its body, except that a body which had already ended may be
  replaced by an empty one.
\<close>

theorem replays_faithful:
  "set (attempt_plan insecure timeout retries (box_body req) (capture is_end_stream req)) \<subseteq>
   {x. snt_insecure x = insecure \<and> snt_timeout x = Some timeout
     \<and> rq_method (snt_request x) = rq_method req \<and> rq_uri (snt_request x) = rq_uri req
     \<and> rq_version (snt_request x) = rq_version req \<and> rq_headers (snt_request x) = rq_headers req
     \<and> (rq_body (snt_request x) = Boxed (rq_body req)
        \<or> rq_body (snt_request x) = Full [] \<and> is_end_stream (rq_body req))}"
  by (cases retries) (auto simp: attempt_plan_def capture_def build_retry_request_def box_body_def split: if_splits)

section \<open>An instance\<close>

text \<open>A network that never answers the first of two attempts in time.\<close>

definition second_time ::
  "(header_name \<Rightarrow> header_value list, uri_parts, string, string, string) network" where
  "second_time = (answering 200)\<lparr>net_elapsed := (\<lambda>trace. length trace < 2)\<rparr>"

lemma second_time_forward:
  "\<exists>resp trace'. forward_to_upstream plain_fmt second_time (box_body demo_request) False 500 3
     (capture (\<lambda>b. b = []) demo_request) ''10.0.0.1:8080'' [] = (Inr resp, trace')"
  by (simp add: forward_to_upstream_def upt_rec second_time_def answering_def capture_def Let_def demo_request_def)

theorem forward_attempts_witness:
  "\<exists>k. 1 \<le> k \<and> k \<le> (3 :: nat)
    \<and> snd (forward_to_upstream plain_fmt second_time (box_body demo_request) False 500 3
        (capture (\<lambda>b. b = []) demo_request) ''10.0.0.1:8080'' [])
      = take k (attempt_plan False 500 3 (box_body demo_request) (capture (\<lambda>b. b = []) demo_request))"
proof -
  obtain resp trace' where *: "forward_to_upstream plain_fmt second_time (box_body demo_request) False 500 3
     (capture (\<lambda>b. b = []) demo_request) ''10.0.0.1:8080'' [] = (Inr resp, trace')"
    using second_time_forward by blast
  have "sp_body_is_reusable (capture (\<lambda>b. b = []) demo_request)"
    by (simp add: capture_def demo_request_def)
  with forward_attempts [OF _ *] show ?thesis unfolding * by auto
qed

end
