(* ===== verification/Routes.thy ===== *)
theory Routes
  imports Config Ordering
begin

text \<open>
  The routing half of \<open>snapshot.rs\<close>: \<open>PathType\<close>, \<open>RouteRule\<close>, the per-host buckets
  \<open>RouteTable::new\<close> builds and sorts, and \<open>match_in_bucket\<close>.  \<open>host_rules\<close> is the
  specification of a bucket (the accepted rules of a host, in snapshot order) and
  \<open>best_by route_cmp\<close> is the choice made in it, as a scan.
\<close>

datatype path_type = Prefix | Exact

definition path_type_parse :: "string \<Rightarrow> path_type option" where
  "path_type_parse s =
     (if s = ''Prefix'' then Some Prefix else if s = ''Exact'' then Some Exact else None)"

record route_rule =
  rr_path :: string
  rr_path_type :: path_type
  rr_cluster :: string
  rr_priority :: i32

section \<open>Building the buckets\<close>

definition rule_of_route :: "route \<Rightarrow> path_type \<Rightarrow> route_rule" where
  "rule_of_route r pt =
     \<lparr>rr_path = rt_path r, rr_path_type = pt, rr_cluster = rt_cluster r, rr_priority = rt_priority r\<rparr>"

text \<open>One iteration of the loop over \<open>snapshot.routes\<close>.\<close>

definition push_route ::
  "route \<Rightarrow> (string \<rightharpoonup> route_rule list) \<Rightarrow> (string \<rightharpoonup> route_rule list)" where
  "push_route r buckets =
     (case path_type_parse (rt_path_type r) of
        None \<Rightarrow> buckets
      | Some pt \<Rightarrow>
          (let k = to_ascii_lowercase (rt_host r);
               bucket = (case buckets k of None \<Rightarrow> [] | Some v \<Rightarrow> v)
           in buckets(k \<mapsto> bucket @ [rule_of_route r pt])))"

definition build_buckets :: "route list \<Rightarrow> (string \<rightharpoonup> route_rule list)" where
  "build_buckets routes = fold push_route routes Map.empty"

text \<open>The comparison closure of \<open>sort_by\<close>: priority, path length, \<open>Exact\<close> before \<open>Prefix\<close>.\<close>

definition route_cmp :: "route_rule \<Rightarrow> route_rule \<Rightarrow> ordering" where
  "route_cmp a b =
     then_cmp
       (then_cmp (cmp_of (sint (rr_priority b)) (sint (rr_priority a)))
                 (cmp_of (length (rr_path b)) (length (rr_path a))))
       (case (rr_path_type a, rr_path_type b) of
          (Exact, Prefix) \<Rightarrow> Less
        | (Prefix, Exact) \<Rightarrow> Greater
        | _ \<Rightarrow> Equal)"

definition build_routes :: "route list \<Rightarrow> (string \<rightharpoonup> route_rule list)" where
  "build_routes routes = (\<lambda>h. map_option (sort_by route_cmp) (build_buckets routes h))"

section \<open>Matching\<close>

definition rule_matches :: "string \<Rightarrow> route_rule \<Rightarrow> bool" where
  "rule_matches path r =
     (case rr_path_type r of Exact \<Rightarrow> rr_path r = path | Prefix \<Rightarrow> starts_with path (rr_path r))"

definition match_in_bucket :: "route_rule list \<Rightarrow> string \<Rightarrow> route_rule option" where
  "match_in_bucket rules path = find (rule_matches path) rules"

section \<open>The comparison is a total preorder\<close>

definition route_key :: "route_rule \<Rightarrow> int \<times> int \<times> nat" where
  "route_key r =
     (- sint (rr_priority r), - int (length (rr_path r)),
      case rr_path_type r of Exact \<Rightarrow> 0 | Prefix \<Rightarrow> 1)"

lemma route_cmp_key:
  "route_cmp a b =
     then_cmp (then_cmp (cmp_of (fst (route_key a)) (fst (route_key b)))
                        (cmp_of (fst (snd (route_key a))) (fst (snd (route_key b)))))
              (cmp_of (snd (snd (route_key a))) (snd (snd (route_key b))))"
  by (cases "rr_path_type a"; cases "rr_path_type b")
     (auto simp: route_cmp_def route_key_def cmp_of_def then_cmp_def split: if_splits)

interpretation rcmp: total_cmp route_cmp
  by unfold_locales
     (auto simp: route_cmp_key cmp_of_def then_cmp_def reverse_cmp_def split: if_splits)

text \<open>The preference the comparison expresses: \<open>a\<close> comes strictly before \<open>b\<close>.\<close>

definition preferred :: "route_rule \<Rightarrow> route_rule \<Rightarrow> bool" where
  "preferred a b \<longleftrightarrow>
     sint (rr_priority b) < sint (rr_priority a) \<or>
     rr_priority a = rr_priority b \<and>
       (length (rr_path b) < length (rr_path a) \<or>
        length (rr_path a) = length (rr_path b) \<and> rr_path_type a = Exact \<and> rr_path_type b = Prefix)"

lemma route_cmp_Greater_iff: "route_cmp b a = Greater \<longleftrightarrow> preferred a b"
  by (cases "rr_path_type a"; cases "rr_path_type b")
     (auto simp: route_cmp_def preferred_def cmp_of_def then_cmp_def sint_inject split: if_splits)

section \<open>The specification of a bucket\<close>

definition host_rules :: "route list \<Rightarrow> string \<Rightarrow> route_rule list" where
  "host_rules routes h =
     concat (map (\<lambda>r. case path_type_parse (rt_path_type r) of
                        None \<Rightarrow> []
                      | Some pt \<Rightarrow> if to_ascii_lowercase (rt_host r) = h then [rule_of_route r pt] else [])
                 routes)"

lemma fold_push_route:
  "fold push_route routes b h =
     (if host_rules routes h = [] then b h
      else Some ((case b h of None \<Rightarrow> [] | Some v \<Rightarrow> v) @ host_rules routes h))"
proof (induction routes arbitrary: b)
  case (Cons r routes)
  show ?case
    by (simp add: Cons.IH)
       (auto simp: push_route_def host_rules_def Let_def split: option.splits)
qed (simp add: host_rules_def)

lemma build_routes_spec:
  "build_routes routes h =
     (if host_rules routes h = [] then None else Some (sort_by route_cmp (host_rules routes h)))"
  by (simp add: build_routes_def build_buckets_def fold_push_route)

lemma host_rules_origin:
  "r \<in> set (host_rules routes h) \<longleftrightarrow>
   (\<exists>x \<in> set routes. \<exists>pt. path_type_parse (rt_path_type x) = Some pt
      \<and> to_ascii_lowercase (rt_host x) = h \<and> r = rule_of_route x pt)"
  by (auto simp: host_rules_def split: option.splits if_splits) force+

lemma host_rules_lowercase: "to_ascii_lowercase h \<noteq> h \<Longrightarrow> host_rules routes h = []"
  using host_rules_origin [of _ routes h] by (cases "host_rules routes h") force+

lemma match_in_sorted_bucket:
  "match_in_bucket (sort_by route_cmp rules) path = best_by route_cmp (filter (rule_matches path) rules)"
  by (simp add: match_in_bucket_def rcmp.find_sort_by)

text \<open>A matching exact rule is at least as long as every matching prefix rule.\<close>

lemma exact_longest:
  "rule_matches path a \<Longrightarrow> rule_matches path b \<Longrightarrow> rr_path_type a = Exact \<Longrightarrow>
   length (rr_path b) \<le> length (rr_path a)"
  by (auto simp: rule_matches_def dest: prefix_length_le split: path_type.splits)

end
