(* ===== verification/Route_Table.thy ===== *)
theory Route_Table
  imports Routes Clusters
begin

text \<open>
  \<open>RouteTable\<close> of \<open>snapshot.rs\<close>: \<open>new\<close> from a snapshot, \<open>choose_route\<close>,
  \<open>get_cluster_rules\<close> and \<open>get_endpoint\<close>.  The choice of a route is specified on the routes
  of the snapshot themselves, by \<open>applies\<close>, \<open>outranks\<close> and \<open>wins_route\<close>; \<open>best_route\<close> is the
  same choice as a scan, between the table and that specification.
\<close>

record 'd route_table =
  tab_version :: string
  tab_routes_by_host :: "string \<rightharpoonup> route_rule list"
  tab_clusters :: "string \<rightharpoonup> 'd cluster_rule"

definition route_table_default :: "'d route_table" where
  "route_table_default =
     \<lparr>tab_version = [], tab_routes_by_host = Map.empty, tab_clusters = Map.empty\<rparr>"

section \<open>Building the table\<close>

text \<open>One iteration of the loop over \<open>snapshot.clusters\<close>.\<close>

definition push_cluster ::
  "'d counters \<Rightarrow> (string \<Rightarrow> header_name option) \<Rightarrow> cluster
    \<Rightarrow> (string \<rightharpoonup> 'd cluster_rule) \<times> store \<Rightarrow> (string \<rightharpoonup> 'd cluster_rule) \<times> store" where
  "push_cluster dm from_bytes c acc =
     (case new_cluster dm from_bytes c (snd acc) of
        (None, s') \<Rightarrow> (fst acc, s')
      | (Some cr, s') \<Rightarrow> ((fst acc)(to_ascii_lowercase (cl_name c) \<mapsto> cr), s'))"

definition build_clusters ::
  "'d counters \<Rightarrow> (string \<Rightarrow> header_name option) \<Rightarrow> cluster list \<Rightarrow> store
    \<Rightarrow> (string \<rightharpoonup> 'd cluster_rule) \<times> store" where
  "build_clusters dm from_bytes cs s = fold (push_cluster dm from_bytes) cs (Map.empty, s)"

definition route_table_new ::
  "'d counters \<Rightarrow> (string \<Rightarrow> header_name option) \<Rightarrow> snapshot \<Rightarrow> store \<Rightarrow> 'd route_table \<times> store" where
  "route_table_new dm from_bytes snap s =
     (let (clusters, s') = build_clusters dm from_bytes (sn_clusters snap) s;
          routes_by_host = build_routes (sn_routes snap)
      in (\<lparr>tab_version = sn_version snap, tab_routes_by_host = routes_by_host,
           tab_clusters = clusters\<rparr>, s'))"

section \<open>Using the table\<close>

definition choose_route :: "'d route_table \<Rightarrow> string \<Rightarrow> string \<Rightarrow> route_rule option" where
  "choose_route t host path =
     (case Option.bind (tab_routes_by_host t host) (\<lambda>rules. match_in_bucket rules path) of
        Some rule \<Rightarrow> Some rule
      | None \<Rightarrow> Option.bind (tab_routes_by_host t []) (\<lambda>rules. match_in_bucket rules path))"

definition get_endpoint ::
  "'d counters \<Rightarrow> 'd route_table \<Rightarrow> string \<Rightarrow> loads \<Rightarrow> store \<Rightarrow> selected_endpoint option \<times> store" where
  "get_endpoint dm t cluster_name loads s =
     (case tab_clusters t cluster_name of
        None \<Rightarrow> (None, s)
      | Some c \<Rightarrow> select_endpoint dm c loads s)"

definition get_cluster_rules :: "'d route_table \<Rightarrow> string \<Rightarrow> 'd cluster_rule option" where
  "get_cluster_rules t cluster_name = tab_clusters t cluster_name"

section \<open>Routing\<close>

definition best_in_host :: "route list \<Rightarrow> string \<Rightarrow> string \<Rightarrow> route_rule option" where
  "best_in_host routes host path =
     best_by route_cmp (filter (rule_matches path) (host_rules routes host))"

definition best_route :: "route list \<Rightarrow> string \<Rightarrow> string \<Rightarrow> route_rule option" where
  "best_route routes host path =
     (case best_in_host routes host path of
        Some r \<Rightarrow> Some r
      | None \<Rightarrow> best_in_host routes [] path)"

lemma tab_of_new [simp]:
  "tab_routes_by_host (fst (route_table_new dm fb snap s)) = build_routes (sn_routes snap)"
  "tab_clusters (fst (route_table_new dm fb snap s)) = fst (build_clusters dm fb (sn_clusters snap) s)"
  "tab_version (fst (route_table_new dm fb snap s)) = sn_version snap"
  "snd (route_table_new dm fb snap s) = snd (build_clusters dm fb (sn_clusters snap) s)"
  by (simp_all add: route_table_new_def split_def Let_def)

lemma bucket_lookup:
  "Option.bind (build_routes routes h) (\<lambda>rules. match_in_bucket rules path)
     = best_in_host routes h path"
  by (simp add: build_routes_spec match_in_sorted_bucket best_in_host_def)

lemma choose_route_best_route:
  "choose_route (fst (route_table_new dm fb snap s)) host path = best_route (sn_routes snap) host path"
  unfolding choose_route_def tab_of_new bucket_lookup best_route_def by (rule refl)

section \<open>What the choice means for the routes of the snapshot\<close>

text \<open>
  The specification of the choice, on the routes as the snapshot has them and without the
  table, its sorting or its comparison: whether a route applies to a host and a path, and
  when one route outranks another.  A host is compared lower-cased; a route with a path
  type other than \<open>Exact\<close> and \<open>Prefix\<close> applies to nothing.
\<close>

definition applies :: "string \<Rightarrow> string \<Rightarrow> route \<Rightarrow> bool" where
  "applies host path r \<longleftrightarrow>
     to_ascii_lowercase (rt_host r) = host
     \<and> (rt_path_type r = ''Exact'' \<and> path = rt_path r
        \<or> rt_path_type r = ''Prefix'' \<and> (\<exists>rest. path = rt_path r @ rest))"

definition outranks :: "route \<Rightarrow> route \<Rightarrow> bool" where
  "outranks a b \<longleftrightarrow>
     sint (rt_priority a) > sint (rt_priority b)
     \<or> rt_priority a = rt_priority b \<and> length (rt_path a) > length (rt_path b)
     \<or> rt_priority a = rt_priority b \<and> length (rt_path a) = length (rt_path b)
         \<and> rt_path_type a = ''Exact'' \<and> rt_path_type b = ''Prefix''"

text \<open>
  The winner for a host and a path: it applies, it outranks every applicable route that
  stands before it in the snapshot, and none that stands after it outranks it.
\<close>

definition wins_route :: "route list \<Rightarrow> string \<Rightarrow> string \<Rightarrow> route \<Rightarrow> bool" where
  "wins_route routes host path r \<longleftrightarrow>
     (\<exists>before after. routes = before @ r # after \<and> applies host path r
        \<and> (\<forall>x \<in> set before. applies host path x \<longrightarrow> outranks r x)
        \<and> (\<forall>x \<in> set after. applies host path x \<longrightarrow> \<not> outranks x r))"

text \<open>The rule of the table that stands for a route of a known path type.\<close>

definition rule_for :: "route \<Rightarrow> route_rule" where
  "rule_for r =
     \<lparr>rr_path = rt_path r, rr_path_type = (if rt_path_type r = ''Exact'' then Exact else Prefix),
      rr_cluster = rt_cluster r, rr_priority = rt_priority r\<rparr>"

lemma matching_host_rules:
  "filter (rule_matches path) (host_rules routes h) = map rule_for (filter (applies h path) routes)"
  by (induction routes)
     (auto simp: host_rules_def applies_def rule_for_def rule_matches_def rule_of_route_def path_type_parse_def
        prefix_def)

lemma applies_type: "applies h path r \<Longrightarrow> rt_path_type r = ''Exact'' \<or> rt_path_type r = ''Prefix''"
  by (auto simp: applies_def)

lemma route_cmp_outranks:
  assumes "applies h path a" "applies h path b"
  shows "route_cmp (rule_for b) (rule_for a) = Greater \<longleftrightarrow> outranks a b"
  unfolding route_cmp_Greater_iff
  using applies_type [OF assms(1)] applies_type [OF assms(2)]
  by (auto simp: preferred_def outranks_def rule_for_def)

lemma best_in_host_wins:
  assumes "best_in_host routes h path = Some r"
  obtains x where "wins_route routes h path x" "r = rule_for x"
proof -
  obtain ps qs where split: "map rule_for (filter (applies h path) routes) = ps @ r # qs"
    and ps: "\<forall>p \<in> set ps. route_cmp r p = Less" and qs: "\<forall>q \<in> set qs. route_cmp r q \<noteq> Greater"
    using rcmp.best_by_split assms [unfolded best_in_host_def matching_host_rules] by blast
  from split obtain us x vs where f: "filter (applies h path) routes = us @ x # vs"
    and parts: "ps = map rule_for us" "r = rule_for x" "qs = map rule_for vs"
    by (auto simp: map_eq_append_conv map_eq_Cons_conv)
  from f obtain bs as where rs: "routes = bs @ x # as" "us = filter (applies h path) bs" "applies h path x"
    "vs = filter (applies h path) as"
    by (rule filter_split)
  have less: "route_cmp (rule_for y) (rule_for x) = Greater" if "y \<in> set bs" "applies h path y" for y
    using ps that parts rs(2) rcmp.cmp_swap [of "rule_for y" "rule_for x"] by auto
  have "outranks x y" if "y \<in> set bs" "applies h path y" for y
    using less [OF that] route_cmp_outranks [OF rs(3) that(2)] by blast
  moreover have "\<not> outranks y x" if "y \<in> set as" "applies h path y" for y
    using qs that parts rs(4) route_cmp_outranks [OF that(2) rs(3)] by auto
  ultimately have "wins_route routes h path x" using rs(1,3) unfolding wins_route_def by blast
  then show thesis using parts(2) by (rule that)
qed

lemma best_in_host_none_applies:
  "best_in_host routes h path = None \<longleftrightarrow> (\<forall>r \<in> set routes. \<not> applies h path r)"
  by (simp add: best_in_host_def matching_host_rules filter_empty_conv)

text \<open>
  C7: routing refines its specification.  Looking a request up in the table built from a
  snapshot (the first match in the host's sorted bucket, then in the bucket of the empty
  host) gives the winner among the snapshot's routes for that host, and the winner among
  the routes without a host only if no route of the host applies: the highest signed
  priority, then the longest path, then \<open>Exact\<close> before \<open>Prefix\<close>, then snapshot order.  It
  gives no route only if none applies.
\<close>

theorem choose_route_refines:
  "case choose_route (fst (route_table_new dm from_bytes snap s)) host path of
     None \<Rightarrow> \<forall>x \<in> set (sn_routes snap). \<not> applies host path x \<and> \<not> applies [] path x
   | Some rule \<Rightarrow>
       \<exists>r. rule = rule_for r
         \<and> (wins_route (sn_routes snap) host path r
            \<or> (\<forall>x \<in> set (sn_routes snap). \<not> applies host path x)
              \<and> wins_route (sn_routes snap) [] path r)"
proof (cases "best_in_host (sn_routes snap) host path")
  case (Some r)
  obtain x where "wins_route (sn_routes snap) host path x" "r = rule_for x" by (rule best_in_host_wins [OF Some])
  with Some show ?thesis by (auto simp: choose_route_best_route best_route_def)
next
  case host: None
  show ?thesis
  proof (cases "best_in_host (sn_routes snap) [] path")
    case None
    with host have "choose_route (fst (route_table_new dm from_bytes snap s)) host path = None"
      by (simp add: choose_route_best_route best_route_def)
    moreover have "\<forall>x \<in> set (sn_routes snap). \<not> applies host path x \<and> \<not> applies [] path x"
      using host None unfolding best_in_host_none_applies by blast
    ultimately show ?thesis by simp
  next
    case (Some r)
    obtain x where "wins_route (sn_routes snap) [] path x" "r = rule_for x" by (rule best_in_host_wins [OF Some])
    moreover have "choose_route (fst (route_table_new dm from_bytes snap s)) host path = Some r"
      using host Some by (simp add: choose_route_best_route best_route_def)
    moreover have "\<forall>x \<in> set (sn_routes snap). \<not> applies host path x"
      using host unfolding best_in_host_none_applies .
    ultimately show ?thesis by auto
  qed
qed

lemma best_in_host_SomeD:
  assumes "best_in_host routes h path = Some r"
  shows "r \<in> set (host_rules routes h)" "rule_matches path r"
    "x \<in> set (host_rules routes h) \<Longrightarrow> rule_matches path x \<Longrightarrow> \<not> preferred x r"
proof -
  note best = assms [unfolded best_in_host_def]
  show "r \<in> set (host_rules routes h)" "rule_matches path r"
    using best_by_in_set [OF best] by simp_all
  assume "x \<in> set (host_rules routes h)" "rule_matches path x"
  then show "\<not> preferred x r"
    using rcmp.best_by_le [OF best, of x] by (simp add: route_cmp_Greater_iff)
qed

lemma best_in_host_None:
  "best_in_host routes h path = None \<longleftrightarrow> (\<forall>r \<in> set (host_rules routes h). \<not> rule_matches path r)"
  by (auto simp: best_in_host_def filter_empty_conv)

lemma best_route_cases:
  assumes "best_route routes host path = Some r"
  obtains "best_in_host routes host path = Some r"
  | "best_in_host routes host path = None" "best_in_host routes [] path = Some r"
  using assms by (auto simp: best_route_def split: option.splits)

text \<open>
  The route chosen for a request comes from a route of the snapshot with a known path
  type, of the request's host or, when no route of that host matches, of the empty host;
  it matches the path; and no matching route of the same host is preferred to it.
\<close>

theorem choose_route_sound:
  assumes "choose_route (fst (route_table_new dm from_bytes snap s)) host path = Some r"
  shows "\<exists>h. (h = host \<or> h = [] \<and> (\<forall>x \<in> set (host_rules (sn_routes snap) host). \<not> rule_matches path x))
    \<and> r \<in> set (host_rules (sn_routes snap) h) \<and> rule_matches path r
    \<and> (\<forall>x \<in> set (host_rules (sn_routes snap) h). rule_matches path x \<longrightarrow> \<not> preferred x r)"
  using assms [unfolded choose_route_best_route]
proof (cases rule: best_route_cases)
  case 1
  then show ?thesis using best_in_host_SomeD [OF 1] by blast
next
  case 2
  then show ?thesis using best_in_host_SomeD [OF 2(2)] by (auto simp: best_in_host_None)
qed

text \<open>
  With equal priorities an exact route wins.  If an \<open>Exact\<close> route of the host matches
  the path and no matching route of the host has a higher priority, the chosen route is
  an \<open>Exact\<close> one with the same priority.
\<close>

theorem exact_route_wins:
  assumes "x \<in> set (host_rules (sn_routes snap) host)"
    and "rr_path_type x = Exact" and "rr_path x = path"
    and "\<forall>y \<in> set (host_rules (sn_routes snap) host).
          rule_matches path y \<longrightarrow> sint (rr_priority y) \<le> sint (rr_priority x)"
  shows "\<exists>r. choose_route (fst (route_table_new dm from_bytes snap s)) host path = Some r
    \<and> rr_path_type r = Exact \<and> rr_path r = path \<and> rr_priority r = rr_priority x"
proof -
  have x: "rule_matches path x" using assms(2,3) by (simp add: rule_matches_def)
  then have "best_in_host (sn_routes snap) host path \<noteq> None"
    using assms(1) by (auto simp: best_in_host_None)
  then obtain r where r: "best_in_host (sn_routes snap) host path = Some r" by blast
  note best = best_in_host_SomeD [OF r]
  have np: "\<not> preferred x r" using best(3) assms(1) x by blast
  have "sint (rr_priority r) \<le> sint (rr_priority x)" using assms(4) best(1,2) by blast
  with np have prio: "rr_priority r = rr_priority x"
    by (auto simp: preferred_def not_less sint_inject [symmetric])
  have "rr_path_type r = Exact"
    using np prio assms(2) exact_longest [OF x best(2) assms(2)]
    by (cases "rr_path_type r") (auto simp: preferred_def)
  with best(2) prio r show ?thesis
    by (auto simp: choose_route_best_route best_route_def rule_matches_def)
qed

text \<open>A snapshot with three routes of one host and two clusters, for closed instances.\<close>

definition demo_route :: "string \<Rightarrow> string \<Rightarrow> string \<Rightarrow> route" where
  "demo_route path pt cl =
     \<lparr>rt_host = ''demo.local'', rt_path = path, rt_path_type = pt, rt_cluster = cl, rt_priority = 0\<rparr>"

definition demo_snapshot :: snapshot where
  "demo_snapshot = snapshot_default
     \<lparr>sn_version := ''v1'',
      sn_routes := [demo_route ''/'' ''Prefix'' ''web'', demo_route ''/api'' ''Prefix'' ''web'',
                    demo_route ''/api'' ''Exact'' ''API'', demo_route ''/old'' ''Regex'' ''web''],
      sn_clusters := [demo_cluster ''web'' ''RoundRobin'', demo_cluster ''API'' ''LeastConn'']\<rparr>"

definition demo_table :: "(endpoint_key \<times> arc) list route_table" where
  "demo_table = fst (route_table_new alist_dash Some demo_snapshot store_init)"

lemma demo_host_rules:
  "host_rules (sn_routes demo_snapshot) ''demo.local'' =
     [rule_of_route (demo_route ''/'' ''Prefix'' ''web'') Prefix,
      rule_of_route (demo_route ''/api'' ''Prefix'' ''web'') Prefix,
      rule_of_route (demo_route ''/api'' ''Exact'' ''API'') Exact]"
  by code_simp

lemma demo_choice:
  "choose_route demo_table ''demo.local'' ''/api''
     = Some (rule_of_route (demo_route ''/api'' ''Exact'' ''API'') Exact)"
  unfolding demo_table_def choose_route_best_route by code_simp

theorem choose_route_refines_witness:
  "\<exists>r. rule_of_route (demo_route ''/api'' ''Exact'' ''API'') Exact = rule_for r
    \<and> (wins_route (sn_routes demo_snapshot) ''demo.local'' ''/api'' r
       \<or> wins_route (sn_routes demo_snapshot) [] ''/api'' r)"
  using choose_route_refines [where dm = "alist_dash :: (endpoint_key \<times> arc) list counters" and from_bytes = Some
      and snap = demo_snapshot and s = store_init and host = "''demo.local''" and path = "''/api''"]
  by (auto simp: demo_choice [unfolded demo_table_def])

theorem choose_route_sound_witness:
  "\<exists>h. rule_of_route (demo_route ''/api'' ''Exact'' ''API'') Exact
     \<in> set (host_rules (sn_routes demo_snapshot) h)"
  using choose_route_sound [OF demo_choice [unfolded demo_table_def]] by blast

theorem exact_route_wins_witness:
  "\<exists>r. choose_route demo_table ''demo.local'' ''/api'' = Some r
    \<and> rr_path_type r = Exact \<and> rr_path r = ''/api'' \<and> rr_priority r = 0"
proof -
  let ?x = "rule_of_route (demo_route ''/api'' ''Exact'' ''API'') Exact"
  have "?x \<in> set (host_rules (sn_routes demo_snapshot) ''demo.local'')"
    "rr_path_type ?x = Exact" "rr_path ?x = ''/api''"
    "\<forall>y \<in> set (host_rules (sn_routes demo_snapshot) ''demo.local'').
       rule_matches ''/api'' y \<longrightarrow> sint (rr_priority y) \<le> sint (rr_priority ?x)"
    by (simp_all add: demo_host_rules rule_of_route_def demo_route_def)
  from exact_route_wins [OF this, of alist_dash Some store_init] show ?thesis
    by (simp add: demo_table_def rule_of_route_def demo_route_def)
qed

section \<open>Clusters\<close>

definition accepted :: "cluster \<Rightarrow> bool" where
  "accepted c \<longleftrightarrow> lb_policy_parse (cl_lb_policy c) \<noteq> None"

lemma new_cluster_accepted:
  "fst (new_cluster dm fb c s) = None \<longleftrightarrow> \<not> accepted c"
  by (auto simp: new_cluster_def accepted_def Let_def split: option.splits prod.splits)

lemma fold_push_cluster_dom:
  "dom (fst (fold (push_cluster dm fb) cs acc)) =
     dom (fst acc) \<union> {to_ascii_lowercase (cl_name c) | c. c \<in> set cs \<and> accepted c}"
proof (induction cs arbitrary: acc)
  case (Cons c cs)
  have "dom (fst (push_cluster dm fb c acc)) =
      dom (fst acc) \<union> (if accepted c then {to_ascii_lowercase (cl_name c)} else {})"
    using new_cluster_accepted [of dm fb c "snd acc"]
    by (auto simp: push_cluster_def split: option.splits prod.splits)
  then show ?case by (auto simp: Cons.IH)
qed simp

text \<open>
  Which clusters a route can reach.  \<open>get_cluster_rules\<close> finds a cluster under a name
  exactly when the name has no upper-case ASCII letter and some cluster of the snapshot
  with a known load-balancing policy has that name up to case.  In particular a route
  whose cluster name has an upper-case letter never finds its cluster, although the
  snapshot has a cluster of exactly that name.
\<close>

theorem get_cluster_rules_found:
  "get_cluster_rules (fst (route_table_new dm from_bytes snap s)) name \<noteq> None \<longleftrightarrow>
   to_ascii_lowercase name = name
   \<and> (\<exists>c \<in> set (sn_clusters snap). accepted c \<and> to_ascii_lowercase (cl_name c) = name)"
proof -
  have "get_cluster_rules (fst (route_table_new dm from_bytes snap s)) name \<noteq> None
      \<longleftrightarrow> name \<in> dom (fst (build_clusters dm from_bytes (sn_clusters snap) s))"
    by (auto simp: get_cluster_rules_def)
  also have "\<dots> \<longleftrightarrow> (\<exists>c \<in> set (sn_clusters snap). accepted c \<and> to_ascii_lowercase (cl_name c) = name)"
    by (auto simp: build_clusters_def fold_push_cluster_dom)
  finally show ?thesis by auto
qed

section \<open>The cells of a table\<close>

definition counter_arcs :: "'d counters \<Rightarrow> 'd cluster_rule \<Rightarrow> arc set" where
  "counter_arcs dm c = {a. \<exists>k. dash_get dm (cr_least_conn_cursor c) k = Some a}"

definition table_counters :: "'d counters \<Rightarrow> (string \<rightharpoonup> 'd cluster_rule) \<Rightarrow> arc set" where
  "table_counters dm m = (\<Union>c \<in> ran m. counter_arcs dm c)"

definition table_cursors :: "(string \<rightharpoonup> 'd cluster_rule) \<Rightarrow> arc set" where
  "table_cursors m = cr_rr_cursor ` ran m"

lemma counter_arcs_laid_out: "laid_out dm b c \<Longrightarrow> counter_arcs dm c = {b..<cr_rr_cursor c}"
proof
  assume lo: "laid_out dm b c"
  then show "counter_arcs dm c \<subseteq> {b..<cr_rr_cursor c}"
    by (auto simp: counter_arcs_def laid_out_def split: if_splits)
  show "{b..<cr_rr_cursor c} \<subseteq> counter_arcs dm c"
  proof
    fix a
    assume "a \<in> {b..<cr_rr_cursor c}"
    then obtain i where i: "a = b + i" "i < length (cr_endpoints c)"
      using lo by (auto simp: laid_out_def dest: le_Suc_ex)
    then have "dash_get dm (cr_least_conn_cursor c) (endpoint_key_from_endpoint i (cr_endpoints c ! i)) = Some a"
      using lo by (simp add: laid_out_def)
    then show "a \<in> counter_arcs dm c" by (auto simp: counter_arcs_def)
  qed
qed

text \<open>
  The clusters \<open>m\<close>, built from the store \<open>s0\<close>, own their cells in \<open>s\<close>: every cluster is laid
  out in cells allocated since \<open>s0\<close>, these are all zero, and counters and cursors are kept
  apart.
\<close>

definition own_cells ::
  "'d counters \<Rightarrow> store \<Rightarrow> (string \<rightharpoonup> 'd cluster_rule) \<Rightarrow> store \<Rightarrow> bool" where
  "own_cells dm s0 m s \<longleftrightarrow>
     extends s0 s
     \<and> (\<forall>c \<in> ran m. \<exists>b. laid_out dm b c \<and> fresh s0 \<le> b \<and> cr_rr_cursor c < fresh s)
     \<and> (\<forall>a. fresh s0 \<le> a \<and> a < fresh s \<longrightarrow> cells s a = 0)
     \<and> table_counters dm m \<inter> table_cursors m = {}"

lemma ran_upd_subset: "ran (m(k \<mapsto> v)) \<subseteq> insert v (ran m)"
  by (auto simp: ran_def split: if_splits)

lemma own_cells_counters:
  "own_cells dm s0 m s \<Longrightarrow> a \<in> table_counters dm m \<Longrightarrow> fresh s0 \<le> a \<and> a < fresh s \<and> cells s a = 0"
  by (fastforce simp: own_cells_def table_counters_def counter_arcs_laid_out)

lemma own_cells_cursors:
  "own_cells dm s0 m s \<Longrightarrow> a \<in> table_cursors m \<Longrightarrow> fresh s0 \<le> a \<and> a < fresh s"
  by (auto simp: own_cells_def table_cursors_def laid_out_def)

lemma own_cells_update:
  assumes own: "own_cells dm s0 m s" and new: "laid_out dm (fresh s) cr" "extends s s'"
    "fresh s' = Suc (cr_rr_cursor cr)" "\<forall>a. fresh s \<le> a \<and> a < fresh s' \<longrightarrow> cells s' a = 0"
  shows "own_cells dm s0 (m(k \<mapsto> cr)) s'"
proof -
  let ?m = "m(k \<mapsto> cr)"
  have le: "fresh s0 \<le> fresh s" "fresh s \<le> cr_rr_cursor cr"
    using own new by (auto simp: own_cells_def extends_def laid_out_def)
  have ctrs: "table_counters dm ?m \<subseteq> table_counters dm m \<union> {fresh s..<cr_rr_cursor cr}"
    using ran_upd_subset [of m k cr] counter_arcs_laid_out [OF new(1)]
    by (fastforce simp: table_counters_def)
  have curs: "table_cursors ?m \<subseteq> table_cursors m \<union> {cr_rr_cursor cr}"
    using ran_upd_subset [of m k cr] by (auto simp: table_cursors_def)
  have "table_counters dm ?m \<inter> table_cursors ?m = {}"
  proof (rule ccontr)
    assume "table_counters dm ?m \<inter> table_cursors ?m \<noteq> {}"
    then obtain a where a: "a \<in> table_counters dm ?m" "a \<in> table_cursors ?m" by blast
    have "a \<in> table_counters dm m \<Longrightarrow> a < fresh s" "a \<in> table_cursors m \<Longrightarrow> a < fresh s"
      using own_cells_counters [OF own] own_cells_cursors [OF own] by auto
    moreover have "\<not> (a \<in> table_counters dm m \<and> a \<in> table_cursors m)"
      using own by (auto simp: own_cells_def)
    ultimately show False using a ctrs curs le by fastforce
  qed
  moreover have "\<exists>b. laid_out dm b c \<and> fresh s0 \<le> b \<and> cr_rr_cursor c < fresh s'" if "c \<in> ran ?m" for c
  proof (cases "c = cr")
    case True
    then show ?thesis using new(1,3) le by auto
  next
    case False
    with that ran_upd_subset [of m k cr] have "c \<in> ran m" by blast
    then obtain b where "laid_out dm b c" "fresh s0 \<le> b" "cr_rr_cursor c < fresh s"
      using own by (auto simp: own_cells_def)
    then show ?thesis using le new(3) by (intro exI [of _ b]) simp
  qed
  moreover have "cells s' a = 0" if "fresh s0 \<le> a" "a < fresh s'" for a
    using that new(2,4) own by (cases "a < fresh s") (auto simp: own_cells_def extends_def)
  ultimately show ?thesis
    using own new(2) extends_trans by (auto simp: own_cells_def)
qed

context counter_map begin

lemma own_cells_push:
  assumes "own_cells dm s0 (fst acc) (snd acc)"
  shows "own_cells dm s0 (fst (push_cluster dm fb c acc)) (snd (push_cluster dm fb c acc))"
proof (cases "new_cluster dm fb c (snd acc)")
  case (Pair cr s')
  show ?thesis
  proof (cases cr)
    case None
    with Pair have "s' = snd acc"
      by (auto simp: new_cluster_def Let_def split: option.splits prod.splits)
    with assms Pair None show ?thesis by (simp add: push_cluster_def)
  next
    case (Some c')
    note n = new_cluster_laid_out [OF Pair [unfolded Some]]
    with own_cells_update [OF assms n(1,2,3)] Pair Some show ?thesis
      by (simp add: push_cluster_def)
  qed
qed

lemma own_cells_build: "own_cells dm s (fst (build_clusters dm fb cs s)) (snd (build_clusters dm fb cs s))"
proof -
  have "own_cells dm s (fst acc) (snd acc) \<Longrightarrow>
      own_cells dm s (fst (fold (push_cluster dm fb) cs acc)) (snd (fold (push_cluster dm fb) cs acc))" for acc
    by (induction cs arbitrary: acc) (simp_all add: own_cells_push)
  moreover have "own_cells dm s (fst (Map.empty, s)) (snd (Map.empty, s))"
    by (auto simp: own_cells_def table_counters_def table_cursors_def)
  ultimately show ?thesis unfolding build_clusters_def by blast
qed

end

section \<open>Well-formed tables\<close>

text \<open>
  Authorization settings without blank entries, header rules whose names the HTTP library
  accepts, a counter for every endpoint, buckets under lower-case hosts that are sorted and
  not empty, clusters under lower-case names.
\<close>

definition auth_wf :: "auth_config_dex \<Rightarrow> bool" where
  "auth_wf a \<longleftrightarrow> normalized (ax_response_headers a) \<and> normalized (ax_skip_paths a)
     \<and> (\<forall>u \<in> set_option (ax_url a) \<union> set_option (ax_signin a) \<union> set_option (ax_cookie_name a). trim u \<noteq> [])"

definition cluster_wf :: "'d counters \<Rightarrow> (string \<Rightarrow> header_name option) \<Rightarrow> 'd cluster_rule \<Rightarrow> bool" where
  "cluster_wf dm from_bytes c \<longleftrightarrow>
     (\<forall>r \<in> set (cr_request_headers c). rule_wf r \<and> (\<exists>n. from_bytes n = Some (hrr_name r)))
     \<and> (\<forall>a \<in> set_option (cr_auth c). auth_wf a)
     \<and> (\<forall>i < length (cr_endpoints c). counter_for_index dm c i \<noteq> None)"

definition table_wf :: "'d counters \<Rightarrow> (string \<Rightarrow> header_name option) \<Rightarrow> 'd route_table \<Rightarrow> bool" where
  "table_wf dm from_bytes t \<longleftrightarrow>
     (\<forall>h rules. tab_routes_by_host t h = Some rules \<longrightarrow>
        to_ascii_lowercase h = h \<and> rules \<noteq> [] \<and> sorted_wrt (cmp_le route_cmp) rules)
     \<and> (\<forall>name c. tab_clusters t name = Some c \<longrightarrow> to_ascii_lowercase name = name \<and> cluster_wf dm from_bytes c)"

lemma auth_wf_build: "build_auth_runtime auth = Some a \<Longrightarrow> auth_wf a"
  by (auto simp: build_auth_runtime_def auth_from_pb_def auth_wf_def non_blank_def normalized_normalize_list Let_def
      split: option.splits if_splits)

lemma new_cluster_fields:
  assumes "new_cluster dm fb c s = (Some cr, s')"
  shows "cr_request_headers cr = build_header_rewrites fb (cl_request_headers c)"
    "cr_auth cr = build_auth_runtime (cl_auth c)" "cr_endpoints cr = cl_endpoints c"
    "cr_timeout_ms cr = cl_timeout_ms c" "cr_retries cr = cl_retries c"
    "cr_backend_tls_insecure_skip_verify cr = cl_backend_tls_insecure_skip_verify c"
    "lb_policy_parse (cl_lb_policy c) = Some (cr_lb_policy cr)"
    "cr_backend_protocol cr = (case backend_protocol_parse (cl_backend_protocol c) of None \<Rightarrow> H1 | Some p \<Rightarrow> p)"
  using assms by (auto simp: new_cluster_def Let_def split: option.splits prod.splits)

text \<open>Every cluster of the table comes from one of the snapshot.\<close>

lemma fold_push_cluster_origin:
  assumes "fst (fold (push_cluster dm fb) cs acc) name = Some cr"
  shows "fst acc name = Some cr
    \<or> (\<exists>c \<in> set cs. \<exists>s s'. new_cluster dm fb c s = (Some cr, s') \<and> name = to_ascii_lowercase (cl_name c))"
  using assms
proof (induction cs arbitrary: acc)
  case (Cons c cs)
  have "fst (push_cluster dm fb c acc) name = Some cr \<Longrightarrow> fst acc name = Some cr
      \<or> (\<exists>s s'. new_cluster dm fb c s = (Some cr, s') \<and> name = to_ascii_lowercase (cl_name c))"
    by (auto simp: push_cluster_def split: prod.splits option.splits if_splits)
  then show ?case using Cons.IH [of "push_cluster dm fb c acc"] Cons.prems by auto
qed simp

lemma build_clusters_origin:
  assumes "fst (build_clusters dm fb cs s0) name = Some cr"
  obtains c s s' where "c \<in> set cs" "new_cluster dm fb c s = (Some cr, s')" "name = to_ascii_lowercase (cl_name c)"
  using fold_push_cluster_origin [OF assms [unfolded build_clusters_def]] that by auto

context counter_map begin

lemma cluster_wf_new:
  assumes "new_cluster dm fb c s = (Some cr, s')"
  shows "cluster_wf dm fb cr"
  unfolding cluster_wf_def
proof (intro conjI ballI allI impI)
  fix r assume "r \<in> set (cr_request_headers cr)"
  then have r: "r \<in> set (build_header_rewrites fb (cl_request_headers c))" by (simp add: new_cluster_fields [OF assms])
  show "rule_wf r" using r by (rule rules_wf_build)
  show "\<exists>n. fb n = Some (hrr_name r)" using rules_origin [OF r] by blast
next
  show "auth_wf a" if "a \<in> set_option (cr_auth cr)" for a
    using that by (auto simp: new_cluster_fields [OF assms] intro: auth_wf_build)
  show "counter_for_index dm cr i \<noteq> None" if "i < length (cr_endpoints cr)" for i
    using counter_laid_out [OF new_cluster_laid_out(1) [OF assms] that] by simp
qed

lemma table_wf_new: "table_wf dm fb (fst (route_table_new dm fb snap s))"
  unfolding table_wf_def tab_of_new
proof (intro conjI allI impI)
  fix h rules assume "build_routes (sn_routes snap) h = Some rules"
  then have r: "host_rules (sn_routes snap) h \<noteq> []" "rules = sort_by route_cmp (host_rules (sn_routes snap) h)"
    by (auto simp: build_routes_spec split: if_splits)
  then show "to_ascii_lowercase h = h" using host_rules_lowercase by blast
  have "set rules = set (host_rules (sn_routes snap) h)" by (simp add: r(2))
  then show "rules \<noteq> []" using r(1) by auto
  show "sorted_wrt (cmp_le route_cmp) rules" unfolding r(2) by (rule rcmp.sorted_sort_by)
next
  fix name cr assume "fst (build_clusters dm fb (sn_clusters snap) s) name = Some cr"
  then obtain c s1 s2 where c: "new_cluster dm fb c s1 = (Some cr, s2)" "name = to_ascii_lowercase (cl_name c)"
    by (rule build_clusters_origin)
  then show "to_ascii_lowercase name = name" "cluster_wf dm fb cr" by (simp_all add: cluster_wf_new)
qed

end

end
