(* ===== verification/Inflight.thy ===== *)
theory Inflight
  imports Route_Table
begin

text \<open>
  The connection counters under concurrency.  \<open>ActiveConnGuard\<close> of \<open>proxy.rs\<close> counts a
  request in while it is served.  The state machine interleaves the requests of any
  number of tasks with updates of the routing table: a request selects an endpoint and
  then counts itself in, both under the read lock of the table, and counts itself out
  when its guard is dropped; an update takes the write lock, so it runs only when no
  request is between the two.  A request keeps the counter it selected even after the
  table has been replaced.
\<close>

section \<open>The guard\<close>

text \<open>\<open>ActiveConnGuard::new\<close> and its \<open>Drop\<close>.\<close>

definition guard_new :: "arc option \<Rightarrow> store \<Rightarrow> store" where
  "guard_new counter s = (case counter of Some c \<Rightarrow> snd (fetch_add c 1 s) | None \<Rightarrow> s)"

definition guard_drop :: "arc option \<Rightarrow> store \<Rightarrow> store" where
  "guard_drop counter s = (case counter of Some c \<Rightarrow> snd (fetch_sub c 1 s) | None \<Rightarrow> s)"

lemma fresh_guard [simp]: "fresh (guard_new c s) = fresh s" "fresh (guard_drop c s) = fresh s"
  by (simp_all add: guard_new_def guard_drop_def fetch_add_def fetch_sub_def split: option.splits)

lemma cells_guard:
  "cells (guard_new c s) a = (if c = Some a then cells s a + 1 else cells s a)"
  "cells (guard_drop c s) a = (if c = Some a then cells s a - 1 else cells s a)"
  by (auto simp: guard_new_def guard_drop_def fetch_add_def fetch_sub_def split: option.splits)

section \<open>Requests in flight\<close>

record 'd plane =
  pl_store :: store
  pl_table :: "'d route_table"
  pl_selected :: "arc option multiset"
  pl_active :: "arc option multiset"

definition plane_init :: "'d plane" where
  "plane_init =
     \<lparr>pl_store = store_init, pl_table = route_table_default, pl_selected = {#}, pl_active = {#}\<rparr>"

text \<open>The write of a new table: \<open>*write_route_table = Arc::new(RouteTable::new(&snap))\<close>.\<close>

definition plane_update ::
  "'d counters \<Rightarrow> (string \<Rightarrow> header_name option) \<Rightarrow> snapshot \<Rightarrow> 'd plane \<Rightarrow> 'd plane" where
  "plane_update dm from_bytes snap p =
     (let (t, s) = route_table_new dm from_bytes snap (pl_store p)
      in p\<lparr>pl_store := s, pl_table := t\<rparr>)"

text \<open>
  What a request does to the shared state.  The loads of a selection may return anything:
  they are made one after the other, with the steps of other requests in between.
\<close>

inductive request_step :: "'d counters \<Rightarrow> 'd plane \<Rightarrow> 'd plane \<Rightarrow> bool" for dm :: "'d counters" where
  select:
    "get_endpoint dm (pl_table p) cluster_name loads (pl_store p) = (Some sel, s') \<Longrightarrow>
     request_step dm p
       (p\<lparr>pl_store := s', pl_selected := add_mset (se_counter sel) (pl_selected p)\<rparr>)"
| acquire:
    "c \<in># pl_selected p \<Longrightarrow>
     request_step dm p
       (p\<lparr>pl_store := guard_new c (pl_store p), pl_selected := pl_selected p - {#c#},
          pl_active := add_mset c (pl_active p)\<rparr>)"
| release:
    "c \<in># pl_active p \<Longrightarrow>
     request_step dm p
       (p\<lparr>pl_store := guard_drop c (pl_store p), pl_active := pl_active p - {#c#}\<rparr>)"

inductive plane_step ::
  "'d counters \<Rightarrow> (string \<Rightarrow> header_name option) \<Rightarrow> 'd plane \<Rightarrow> 'd plane \<Rightarrow> bool"
  for dm :: "'d counters" and from_bytes :: "string \<Rightarrow> header_name option" where
  request: "request_step dm p q \<Longrightarrow> plane_step dm from_bytes p q"
| update:
    "pl_selected p = {#} \<Longrightarrow>
     plane_step dm from_bytes p (plane_update dm from_bytes snap p)"

lemma plane_update_requests [simp]:
  "pl_selected (plane_update dm fb snap p) = pl_selected p" "pl_active (plane_update dm fb snap p) = pl_active p"
  by (simp_all add: plane_update_def split_def Let_def)

lemma request_step_table: "request_step dm p q \<Longrightarrow> pl_table q = pl_table p"
  by (erule request_step.cases) simp_all

inductive plane_reachable ::
  "'d counters \<Rightarrow> (string \<Rightarrow> header_name option) \<Rightarrow> 'd plane \<Rightarrow> bool"
  for dm :: "'d counters" and from_bytes :: "string \<Rightarrow> header_name option" where
  reach_init: "plane_reachable dm from_bytes plane_init"
| reach_step:
    "plane_reachable dm from_bytes p \<Longrightarrow> plane_step dm from_bytes p q \<Longrightarrow> plane_reachable dm from_bytes q"

section \<open>The invariant\<close>

text \<open>
  \<open>K\<close> is the set of all counters handed out so far, by the current table and by the
  tables before it.  Every cell of \<open>K\<close> holds the number of active requests that hold it,
  and no cursor of the current table is in \<open>K\<close>.
\<close>

definition plane_inv :: "'d counters \<Rightarrow> arc set \<Rightarrow> 'd plane \<Rightarrow> bool" where
  "plane_inv dm K p \<longleftrightarrow>
     K \<subseteq> {..<fresh (pl_store p)}
     \<and> table_counters dm (tab_clusters (pl_table p)) \<subseteq> K
     \<and> table_cursors (tab_clusters (pl_table p)) \<inter> K = {}
     \<and> table_cursors (tab_clusters (pl_table p)) \<subseteq> {..<fresh (pl_store p)}
     \<and> (\<forall>c \<in> ran (tab_clusters (pl_table p)). \<exists>b. laid_out dm b c)
     \<and> (\<forall>a. Some a \<in># pl_selected p \<or> Some a \<in># pl_active p \<longrightarrow> a \<in> K)
     \<and> (\<forall>a \<in> K. cells (pl_store p) a = of_nat (count (pl_active p) (Some a)))"

lemma plane_inv_init: "plane_inv dm {} plane_init"
  by (simp add: plane_inv_def plane_init_def route_table_default_def table_counters_def table_cursors_def)

lemma plane_inv_acquire:
  assumes "plane_inv dm K p" "c \<in># pl_selected p"
  shows "plane_inv dm K
    (p\<lparr>pl_store := guard_new c (pl_store p), pl_selected := pl_selected p - {#c#},
       pl_active := add_mset c (pl_active p)\<rparr>)"
  using assms by (auto simp: plane_inv_def cells_guard dest: in_diffD)

lemma plane_inv_release:
  assumes "plane_inv dm K p" "c \<in># pl_active p"
  shows "plane_inv dm K
    (p\<lparr>pl_store := guard_drop c (pl_store p), pl_active := pl_active p - {#c#}\<rparr>)"
proof -
  have "of_nat (count (pl_active p) c) - 1 = (of_nat (count (pl_active p) c - 1) :: usize)"
    using assms(2) by (cases "count (pl_active p) c") (simp_all add: count_eq_zero_iff)
  then show ?thesis
    using assms by (auto simp: plane_inv_def cells_guard dest: in_diffD)
qed

context counter_map begin

text \<open>Selecting changes at most the round-robin cursor and returns a counter of the cluster.\<close>

lemma select_endpoint_effect:
  assumes "laid_out dm b c" "select_endpoint dm c loads s = (Some sel, s')"
  shows "\<exists>a. se_counter sel = Some a \<and> a \<in> counter_arcs dm c"
    "fresh s' = fresh s" "a \<noteq> cr_rr_cursor c \<Longrightarrow> cells s' a = cells s a"
proof -
  have ne: "cr_endpoints c \<noteq> []"
    using assms(2) by (auto simp: select_endpoint_def round_robin_def least_conn_def Let_def
        split: lb_policy.splits)
  note arcs = counter_arcs_laid_out [OF assms(1)]
  have cur: "cr_rr_cursor c = b + length (cr_endpoints c)"
    using assms(1) by (simp add: laid_out_def)
  have "(\<exists>a. se_counter sel = Some a \<and> a \<in> counter_arcs dm c) \<and> fresh s' = fresh s
      \<and> (\<forall>a. a \<noteq> cr_rr_cursor c \<longrightarrow> cells s' a = cells s a)"
  proof (cases "cr_lb_policy c")
    case RoundRobin
    with assms ne show ?thesis
      by (auto simp: select_endpoint_def round_robin_laid_out fetch_add_def arcs cur)
  next
    case LeastConn
    with assms(2) least_conn_laid_out [OF assms(1) ne, of loads s] show ?thesis
      by (auto simp: select_endpoint_def arcs cur)
  qed
  then show "\<exists>a. se_counter sel = Some a \<and> a \<in> counter_arcs dm c"
    "fresh s' = fresh s" "a \<noteq> cr_rr_cursor c \<Longrightarrow> cells s' a = cells s a"
    by blast+
qed

lemma plane_inv_select:
  assumes inv: "plane_inv dm K p"
    and get: "get_endpoint dm (pl_table p) name loads (pl_store p) = (Some sel, s')"
  shows "plane_inv dm K (p\<lparr>pl_store := s', pl_selected := add_mset (se_counter sel) (pl_selected p)\<rparr>)"
proof -
  let ?m = "tab_clusters (pl_table p)"
  from get obtain c where c: "?m name = Some c" "select_endpoint dm c loads (pl_store p) = (Some sel, s')"
    by (auto simp: get_endpoint_def split: option.splits)
  then have ran: "c \<in> ran ?m" by (auto simp: ran_def)
  with inv obtain b where "laid_out dm b c" by (auto simp: plane_inv_def)
  note eff = select_endpoint_effect [OF this c(2)]
  have "counter_arcs dm c \<subseteq> K" "cr_rr_cursor c \<notin> K"
    using inv ran by (auto simp: plane_inv_def table_counters_def table_cursors_def)
  moreover have "cells s' a = cells (pl_store p) a" if "a \<in> K" for a
    using eff(3) [of a] that \<open>cr_rr_cursor c \<notin> K\<close> by blast
  ultimately show ?thesis
    using inv eff(1,2) by (auto simp: plane_inv_def)
qed

lemma plane_inv_update:
  assumes inv: "plane_inv dm K p"
  shows "plane_inv dm (K \<union> table_counters dm (tab_clusters (pl_table (plane_update dm fb snap p))))
    (plane_update dm fb snap p)"
proof -
  define new where "new = route_table_new dm fb snap (pl_store p)"
  have upd: "plane_update dm fb snap p = p\<lparr>pl_store := snd new, pl_table := fst new\<rparr>"
    by (simp add: plane_update_def new_def split_def Let_def)
  let ?m = "tab_clusters (fst new)"
  have own: "own_cells dm (pl_store p) ?m (snd new)"
    unfolding new_def tab_of_new by (rule own_cells_build)
  note ctr = own_cells_counters [OF own] and cur = own_cells_cursors [OF own]
  have ext: "extends (pl_store p) (snd new)" and lay: "\<forall>c \<in> ran ?m. \<exists>b. laid_out dm b c"
    and dis: "table_counters dm ?m \<inter> table_cursors ?m = {}"
    using own by (auto simp: own_cells_def)
  have K: "a \<in> K \<Longrightarrow> a < fresh (pl_store p)" for a
    using inv by (auto simp: plane_inv_def)
  have zero: "count (pl_active p) (Some a) = 0" if "fresh (pl_store p) \<le> a" for a
    using inv K [of a] that by (auto simp: plane_inv_def not_in_iff [symmetric])
  have "cells (snd new) a = of_nat (count (pl_active p) (Some a))"
    if "a \<in> K \<union> table_counters dm ?m" for a
    using that inv K extends_cells [OF ext] ctr zero by (auto simp: plane_inv_def)
  then show ?thesis
    using inv K cur ctr lay dis extends_fresh [OF ext]
    unfolding upd by (fastforce simp: plane_inv_def)
qed

lemma plane_inv_reachable: "plane_reachable dm fb p \<Longrightarrow> \<exists>K. plane_inv dm K p"
proof (induction rule: plane_reachable.induct)
  case reach_init
  then show ?case using plane_inv_init by blast
next
  case (reach_step p q)
  from reach_step(2) show ?case
  proof (cases rule: plane_step.cases)
    case request
    then show ?thesis
      using reach_step(3)
      by (cases rule: request_step.cases)
         (blast intro: plane_inv_select plane_inv_acquire plane_inv_release)+
  qed (use reach_step(3) in \<open>blast intro: plane_inv_update\<close>)
qed

end

section \<open>What the counters mean\<close>

text \<open>
  The counters count the requests in flight.  In every reachable state, whatever the
  interleaving of requests and table updates, the counter of each endpoint of the current
  table holds the number of active requests that hold it.
\<close>

theorem counters_count_active:
  assumes "counter_map dm" and "plane_reachable dm from_bytes p"
    and "a \<in> table_counters dm (tab_clusters (pl_table p))"
  shows "cells (pl_store p) a = of_nat (count (pl_active p) (Some a))"
  using counter_map.plane_inv_reachable [OF assms(1,2)] assms(3) by (auto simp: plane_inv_def)

lemma of_nat_count_le:
  assumes "size M < 2 ^ 64" "size N < 2 ^ 64" "(of_nat (count M x) :: usize) \<le> of_nat (count N y)"
  shows "count M x \<le> count N y"
proof -
  have "unat (of_nat (count M x) :: usize) = count M x" "unat (of_nat (count N y) :: usize) = count N y"
    using le_less_trans [OF count_le_size assms(1)] le_less_trans [OF count_le_size assms(2)]
    by (simp_all add: unat_of_nat)
  then show ?thesis using assms(3) by (simp add: word_le_nat_alt)
qed

text \<open>
  C31: least connections picks the endpoint with the fewest requests, as seen by its scan.
  Let the scan load the counter of the cell \<open>a\<close> at \<open>moment a\<close>, each a reachable state with the
  same table and fewer than \<open>2^64\<close> requests.  Then \<open>get_endpoint\<close> on a \<open>LeastConn\<close> cluster with
  endpoints returns one of them, and the number of requests that held its counter when it
  was loaded is at most the number that held the counter of any other endpoint of the
  cluster when that one was loaded.  Only requests routed with this table count; those
  still served from a table before it are not seen.
\<close>

theorem least_conn_fewest_in_flight:
  assumes "counter_map dm"
    and "\<And>a. plane_reachable dm from_bytes (moment a)"
    and "\<And>a. pl_table (moment a) = t" and "\<And>a. size (pl_active (moment a)) < 2 ^ 64"
    and "tab_clusters t name = Some c"
    and "cr_lb_policy c = LeastConn" and "cr_endpoints c \<noteq> []"
  shows "\<exists>i a. i < length (cr_endpoints c) \<and> counter_for_index dm c i = Some a
    \<and> get_endpoint dm t name (\<lambda>x. atomic_load x (pl_store (moment x))) s
        = (Some \<lparr>se_endpoint = cr_endpoints c ! i, se_counter = Some a\<rparr>, s)
    \<and> (\<forall>j b. j < length (cr_endpoints c) \<and> counter_for_index dm c j = Some b
         \<longrightarrow> count (pl_active (moment a)) (Some a) \<le> count (pl_active (moment b)) (Some b))"
proof -
  have ran: "c \<in> ran (tab_clusters t)" using assms(5) by (auto simp: ran_def)
  have inv: "\<exists>K. plane_inv dm K (moment x)" for x
    by (rule counter_map.plane_inv_reachable [OF assms(1,2)])
  then obtain b where b: "laid_out dm b c" using ran assms(3) by (fastforce simp: plane_inv_def)
  note ctr = counter_map.counter_laid_out [OF assms(1) b]
  let ?loads = "\<lambda>x. atomic_load x (pl_store (moment x))"
  have loads: "?loads (b + i) = of_nat (count (pl_active (moment (b + i))) (Some (b + i)))"
    if "i < length (cr_endpoints c)" for i
  proof -
    have "cr_rr_cursor c = b + length (cr_endpoints c)" using b by (simp add: laid_out_def)
    then have "b + i \<in> counter_arcs dm c" using that counter_arcs_laid_out [OF b] by simp
    then have "b + i \<in> table_counters dm (tab_clusters (pl_table (moment (b + i))))"
      using ran assms(3) by (auto simp: table_counters_def)
    then show ?thesis using inv [of "b + i"] by (auto simp: plane_inv_def atomic_load_def)
  qed
  from counter_map.least_conn_laid_out [OF assms(1) b assms(7), of ?loads s] obtain i where
    i: "i < length (cr_endpoints c)"
      "least_conn dm c ?loads s = (Some \<lparr>se_endpoint = cr_endpoints c ! i, se_counter = Some (b + i)\<rparr>, s)"
      "\<forall>j < length (cr_endpoints c). ?loads (b + i) \<le> ?loads (b + j)"
    by blast
  have "count (pl_active (moment (b + i))) (Some (b + i)) \<le> count (pl_active (moment (b + j))) (Some (b + j))"
    if "j < length (cr_endpoints c)" for j
    using of_nat_count_le [OF assms(4,4)] i(1,3) that loads by metis
  then show ?thesis
    using i(1,2) ctr assms(5,6)
    by (intro exI [of _ i] exI [of _ "b + i"]) (auto simp: get_endpoint_def select_endpoint_def)
qed

text \<open>
  C16: the routing table is always well formed.  In every reachable state the buckets of the
  current table are not empty, sorted and kept under lower-case hosts, its clusters are kept
  under lower-case names, every endpoint has a counter, every header rule has a name the
  HTTP library accepts and a value exactly if its mode needs one, and the authorization
  settings have no blank and no repeated entries.
\<close>

theorem table_well_formed:
  assumes "counter_map dm" and "plane_reachable dm from_bytes p"
  shows "table_wf dm from_bytes (pl_table p)"
  using assms(2)
proof (induction rule: plane_reachable.induct)
  case reach_init
  show ?case by (simp add: plane_init_def route_table_default_def table_wf_def)
next
  case (reach_step p q)
  from reach_step(2) show ?case
    using reach_step(3) counter_map.table_wf_new [OF assms(1), of from_bytes]
    by (cases rule: plane_step.cases)
      (simp_all add: request_step_table plane_update_def split_def Let_def)
qed

text \<open>A run: a table is installed, a request selects an endpoint of the cluster \<open>web\<close> and is counted in.\<close>

definition demo_snapshot_lc :: snapshot where
  "demo_snapshot_lc = snapshot_default
     \<lparr>sn_routes := [demo_route ''/'' ''Prefix'' ''web''],
      sn_clusters := [demo_cluster ''web'' ''LeastConn'']\<rparr>"

definition demo_plane1 :: "(endpoint_key \<times> arc) list plane" where
  "demo_plane1 = plane_update alist_dash Some demo_snapshot_lc plane_init"

definition demo_selection :: "selected_endpoint option \<times> store" where
  "demo_selection =
     get_endpoint alist_dash (pl_table demo_plane1) ''web'' (current (pl_store demo_plane1)) (pl_store demo_plane1)"

definition demo_plane2 :: "(endpoint_key \<times> arc) list plane" where
  "demo_plane2 = demo_plane1
     \<lparr>pl_store := snd demo_selection,
      pl_selected := add_mset (se_counter (the (fst demo_selection))) (pl_selected demo_plane1)\<rparr>"

definition demo_plane :: "(endpoint_key \<times> arc) list plane" where
  "demo_plane = demo_plane2
     \<lparr>pl_store := guard_new (se_counter (the (fst demo_selection))) (pl_store demo_plane2),
      pl_selected := pl_selected demo_plane2 - {#se_counter (the (fst demo_selection))#},
      pl_active := add_mset (se_counter (the (fst demo_selection))) (pl_active demo_plane2)\<rparr>"

lemma demo_selection_eval: "se_counter (the (fst demo_selection)) = Some 1 \<and> fst demo_selection \<noteq> None"
  by code_simp

lemma demo_reachable: "plane_reachable alist_dash Some demo_plane"
proof -
  have "plane_reachable alist_dash Some demo_plane1"
    unfolding demo_plane1_def
    by (rule reach_step [OF reach_init], rule update) (simp add: plane_init_def)
  then have "plane_reachable alist_dash Some demo_plane2"
    unfolding demo_plane2_def
    by (rule reach_step, intro request select) (use demo_selection_eval in \<open>auto simp: demo_selection_def prod_eq_iff\<close>)
  then show ?thesis
    unfolding demo_plane_def
    by (rule reach_step, intro request acquire) (simp add: demo_plane2_def)
qed

lemma demo_plane_table: "pl_table demo_plane = pl_table demo_plane1"
  by (simp add: demo_plane_def demo_plane2_def)

lemma demo_plane_active: "pl_active demo_plane = {#Some 1#}"
  using demo_selection_eval by (simp add: demo_plane_def demo_plane2_def demo_plane1_def plane_init_def plane_update_def split_def Let_def)

lemma demo_plane_cluster:
  "tab_clusters (pl_table demo_plane) ''web'' = Some (demo_rule ''LeastConn'')"
  unfolding demo_plane_table by code_simp

lemma demo_plane_counter: "1 \<in> table_counters alist_dash (tab_clusters (pl_table demo_plane))"
proof -
  have "map_of (cr_least_conn_cursor (demo_rule ''LeastConn''))
      (endpoint_key_from_endpoint 1 (demo_endpoint ''10.0.0.2'')) = Some 1"
    by code_simp
  then have "1 \<in> counter_arcs alist_dash (demo_rule ''LeastConn'')"
    by (auto simp: counter_arcs_def)
  then show ?thesis
    using demo_plane_cluster by (auto simp: table_counters_def ran_def)
qed

theorem table_well_formed_witness:
  "cluster_wf alist_dash Some (demo_rule ''LeastConn'')"
  using table_well_formed [OF counter_map_alist demo_reachable] demo_plane_cluster by (auto simp: table_wf_def)

theorem counters_count_active_witness: "cells (pl_store demo_plane) 1 = 1"
  using counters_count_active [OF counter_map_alist demo_reachable demo_plane_counter]
  by (simp add: demo_plane_active)

text \<open>The first counter is loaded before that request is counted in, the second one after it.\<close>

definition demo_moment :: "arc \<Rightarrow> (endpoint_key \<times> arc) list plane" where
  "demo_moment a = (if a = 0 then demo_plane1 else demo_plane)"

lemma demo_moment:
  "plane_reachable alist_dash Some (demo_moment a)" "pl_table (demo_moment a) = pl_table demo_plane"
  "size (pl_active (demo_moment a)) < 2 ^ 64"
proof -
  have "plane_reachable alist_dash Some demo_plane1"
    unfolding demo_plane1_def
    by (rule reach_step [OF reach_init], rule update) (simp add: plane_init_def)
  moreover have "pl_active demo_plane1 = {#}" by (simp add: demo_plane1_def plane_init_def)
  ultimately show "plane_reachable alist_dash Some (demo_moment a)"
    "pl_table (demo_moment a) = pl_table demo_plane" "size (pl_active (demo_moment a)) < 2 ^ 64"
    by (simp_all add: demo_moment_def demo_reachable demo_plane_table demo_plane_active)
qed

theorem least_conn_fewest_in_flight_witness:
  "\<exists>i a. i < 2 \<and> counter_for_index alist_dash (demo_rule ''LeastConn'') i = Some a
    \<and> fst (get_endpoint alist_dash (pl_table demo_plane) ''web''
             (\<lambda>x. atomic_load x (pl_store (demo_moment x))) (pl_store demo_plane))
      = Some \<lparr>se_endpoint = cr_endpoints (demo_rule ''LeastConn'') ! i, se_counter = Some a\<rparr>"
proof -
  have "cr_lb_policy (demo_rule ''LeastConn'') = LeastConn" by code_simp
  moreover have "cr_endpoints (demo_rule ''LeastConn'') \<noteq> []" by (simp add: demo_cursor)
  ultimately show ?thesis
    using least_conn_fewest_in_flight [where moment = demo_moment and s = "pl_store demo_plane",
        OF counter_map_alist demo_moment demo_plane_cluster]
    by (fastforce simp: demo_cursor numeral_2_eq_2)
qed

text \<open>
  A table update restarts the counts.  An update is possible whenever no request is
  between selection and counting; after it the requests of the old table are still
  active, but every counter of the new table is zero and held by none of them: least
  connections no longer sees them, although the same endpoints may be serving them.
\<close>

theorem update_restarts_counts:
  assumes "counter_map dm" and "plane_reachable dm from_bytes p" and "pl_selected p = {#}"
    and "a \<in> table_counters dm (tab_clusters (pl_table (plane_update dm from_bytes snap p)))"
  shows "plane_reachable dm from_bytes (plane_update dm from_bytes snap p)
    \<and> pl_active (plane_update dm from_bytes snap p) = pl_active p
    \<and> cells (pl_store (plane_update dm from_bytes snap p)) a = 0
    \<and> count (pl_active p) (Some a) = 0"
proof -
  obtain K where inv: "plane_inv dm K p"
    using counter_map.plane_inv_reachable [OF assms(1,2)] by blast
  have "cells (pl_store (plane_update dm from_bytes snap p)) a = 0 \<and> fresh (pl_store p) \<le> a"
    using own_cells_counters [OF counter_map.own_cells_build [OF assms(1), of "pl_store p" from_bytes], of a]
      assms(4) by (simp add: plane_update_def split_def Let_def)
  moreover from this inv have "Some a \<notin># pl_active p"
    by (auto simp: plane_inv_def)
  ultimately show ?thesis
    using reach_step [OF assms(2) update [OF assms(3)]]
    by (auto simp: plane_update_def split_def Let_def not_in_iff)
qed

theorem update_restarts_counts_witness:
  "cells (pl_store demo_plane1) 1 = 0 \<and> plane_reachable alist_dash Some demo_plane1"
proof -
  have "pl_selected (plane_init :: (endpoint_key \<times> arc) list plane) = {#}"
    by (simp add: plane_init_def)
  moreover have "1 \<in> table_counters alist_dash (tab_clusters (pl_table
      (plane_update alist_dash Some demo_snapshot_lc plane_init)))"
    using demo_plane_counter by (simp add: demo_plane_table demo_plane1_def)
  ultimately show ?thesis
    using update_restarts_counts [OF counter_map_alist reach_init] by (simp add: demo_plane1_def)
qed

end
