(* ===== verification/Proxy.thy ===== *)
theory Proxy
  imports Forward Inflight
begin

text \<open>
  \<open>proxy_handler\<close> of \<open>proxy.rs\<close>: one client request, from its host to the response.  The
  handler is run on its own, threading the store of atomic cells and the trace of sent
  requests; theory \<open>Inflight\<close> interleaves its selection, its guard and table updates with
  those of other tasks.
\<close>

section \<open>Resolving the target\<close>

definition resolve_route ::
  "'h header_ops \<Rightarrow> 'd route_table \<Rightarrow> string \<Rightarrow> string \<Rightarrow> ('h, 'r body) response + route_rule" where
  "resolve_route hm route_table host path =
     (case choose_route route_table host path of
        Some rule \<Rightarrow> Inr rule
      | None \<Rightarrow> Inl (text_response hm NOT_FOUND ''route not found''))"

definition resolve_cluster ::
  "'h header_ops \<Rightarrow> 'd route_table \<Rightarrow> route_rule \<Rightarrow> ('h, 'r body) response + 'd cluster_rule" where
  "resolve_cluster hm route_table rule =
     (case get_cluster_rules route_table (rr_cluster rule) of
        Some cluster \<Rightarrow> Inr cluster
      | None \<Rightarrow> Inl (text_response hm NOT_FOUND ''cluster rules not found''))"

definition resolve_endpoint ::
  "'d counters \<Rightarrow> 'h header_ops \<Rightarrow> 'd route_table \<Rightarrow> route_rule \<Rightarrow> loads \<Rightarrow> store
    \<Rightarrow> (('h, 'r body) response + selected_endpoint) \<times> store" where
  "resolve_endpoint dm hm route_table rule loads s =
     (case get_endpoint dm route_table (rr_cluster rule) loads s of
        (Some endpoint, s') \<Rightarrow> (Inr endpoint, s')
      | (None, s') \<Rightarrow> (Inl (text_response hm BAD_GATEWAY ''endpoint not found''), s'))"

section \<open>Serving\<close>

text \<open>The request as it is sent upstream: pointed at the endpoint, then rewritten.\<close>

definition prepare_upstream ::
  "('h, 'u) http_lib \<Rightarrow> 'd cluster_rule \<Rightarrow> endpoint \<Rightarrow> string \<Rightarrow> bool \<Rightarrow> ('h, 'u, 'b) request
    \<Rightarrow> ('h, 'u, 'b) request" where
  "prepare_upstream lib cluster_rules ep host frontend_is_tls req =
     (let header_rewrites = cr_request_headers cluster_rules;
          req = handle_req_upstream lib req host (ep_address ep) (ucast (ep_port ep))
                  (cr_backend_protocol cluster_rules) frontend_is_tls
      in if header_rewrites \<noteq> []
         then req\<lparr>rq_headers := apply_header_rewrites (hl_headers lib) (header_value_from_str lib)
                                 (rq_headers req) header_rewrites\<rparr>
         else req)"

text \<open>From the authorization to the response, with the guard held.\<close>

definition serve ::
  "('h, 'u) http_lib \<Rightarrow> ('u, 'e) fmt_lib \<Rightarrow> ('h, 'u, 'b, 'r, 'e) network \<Rightarrow> ('b \<Rightarrow> bool)
    \<Rightarrow> 'd cluster_rule \<Rightarrow> endpoint \<Rightarrow> string \<Rightarrow> bool \<Rightarrow> ('h, 'u, 'b) request \<Rightarrow> ('h, 'u, 'b) sent list
    \<Rightarrow> ('h, 'r body) response \<times> ('h, 'u, 'b) sent list" where
  "serve lib fmt net is_end_stream cluster_rules ep host frontend_is_tls req trace =
     (let hm = hl_headers lib;
          insecure = cr_backend_tls_insecure_skip_verify cluster_rules;
          (authorized, trace) =
            (case cr_auth cluster_rules of
               Some auth \<Rightarrow> perform_auth_if_needed lib fmt net req auth host frontend_is_tls insecure trace
             | None \<Rightarrow> (Inr req, trace))
      in case authorized of
           Inl resp \<Rightarrow> (resp, trace)
         | Inr req \<Rightarrow>
             (let req = prepare_upstream lib cluster_rules ep host frontend_is_tls req;
                  request_snapshot = capture is_end_stream req;
                  initial_request = box_body req;
                  addr = ep_address ep @ '':'' @ show_int (sint (ep_port ep));
                  timeout = (scast (cr_timeout_ms cluster_rules) :: u64);
                  retries = nat (max (sint (cr_retries cluster_rules)) 1)
              in case forward_to_upstream fmt net initial_request insecure timeout retries
                        request_snapshot addr trace of
                   (Inl err, trace) \<Rightarrow> (text_response hm BAD_GATEWAY err, trace)
                 | (Inr resp, trace) \<Rightarrow>
                     (\<lparr>rs_status = rs_status resp, rs_headers = remove_hop_headers hm (rs_headers resp),
                       rs_body = Boxed (rs_body resp)\<rparr>, trace)))"

definition proxy_handler ::
  "'d counters \<Rightarrow> ('h, 'u) http_lib \<Rightarrow> ('u, 'e) fmt_lib \<Rightarrow> ('h, 'u, 'b, 'r, 'e) network \<Rightarrow> ('b \<Rightarrow> bool)
    \<Rightarrow> 'd route_table \<Rightarrow> ('h, 'u, 'b) request \<Rightarrow> store \<Rightarrow> ('h, 'u, 'b) sent list
    \<Rightarrow> ('h, 'r body) response \<times> store \<times> ('h, 'u, 'b) sent list" where
  "proxy_handler dm lib fmt net is_end_stream route_table req s trace =
     (let hm = hl_headers lib;
          frontend_is_tls = (case rq_frontend_tls req of Some f \<Rightarrow> f | None \<Rightarrow> False)
      in case extract_host lib req of
           Inl resp \<Rightarrow> (resp, s, trace)
         | Inr host \<Rightarrow>
      (let path = uri_path lib (rq_uri req) in
       case resolve_route hm route_table host path of
           Inl resp \<Rightarrow> (resp, s, trace)
         | Inr rule \<Rightarrow>
      (case resolve_cluster hm route_table rule of
           Inl resp \<Rightarrow> (resp, s, trace)
         | Inr cluster_rules \<Rightarrow>
      (case resolve_endpoint dm hm route_table rule (current s) s of
           (Inl resp, s) \<Rightarrow> (resp, s, trace)
         | (Inr selection, s) \<Rightarrow>
             (let s = guard_new (se_counter selection) s;
                  (resp, trace) = serve lib fmt net is_end_stream cluster_rules
                     (se_endpoint selection) host frontend_is_tls req trace
              in (resp, guard_drop (se_counter selection) s, trace))))))"

section \<open>The phases of the handler\<close>

text \<open>The outcome of the authorization phase of \<open>serve\<close>.\<close>

definition authorize ::
  "('h, 'u) http_lib \<Rightarrow> ('u, 'e) fmt_lib \<Rightarrow> ('h, 'u, 'b, 'r, 'e) network \<Rightarrow> 'd cluster_rule
    \<Rightarrow> string \<Rightarrow> bool \<Rightarrow> ('h, 'u, 'b) request \<Rightarrow> ('h, 'u, 'b) sent list
    \<Rightarrow> (('h, 'r body) response + ('h, 'u, 'b) request) \<times> ('h, 'u, 'b) sent list" where
  "authorize lib fmt net c host tls req trace =
     (case cr_auth c of
        Some auth \<Rightarrow> perform_auth_if_needed lib fmt net req auth host tls
                       (cr_backend_tls_insecure_skip_verify c) trace
      | None \<Rightarrow> (Inr req, trace))"

definition attempts :: "'d cluster_rule \<Rightarrow> nat" where
  "attempts c = nat (max (sint (cr_retries c)) 1)"

definition address :: "endpoint \<Rightarrow> string" where
  "address ep = ep_address ep @ '':'' @ show_int (sint (ep_port ep))"

definition upstream_plan ::
  "('h, 'u) http_lib \<Rightarrow> ('b \<Rightarrow> bool) \<Rightarrow> 'd cluster_rule \<Rightarrow> endpoint \<Rightarrow> string \<Rightarrow> bool
    \<Rightarrow> ('h, 'u, 'b) request \<Rightarrow> ('h, 'u, 'b) sent list" where
  "upstream_plan lib is_end_stream c ep host tls req =
     (let req' = prepare_upstream lib c ep host tls req in
      attempt_plan (cr_backend_tls_insecure_skip_verify c) (scast (cr_timeout_ms c)) (attempts c)
        (box_body req') (capture is_end_stream req'))"

lemma attempts_pos: "0 < attempts c"
  by (simp add: attempts_def)

lemma serve_unfold:
  "serve lib fmt net is_end_stream c ep host tls req trace =
     (case authorize lib fmt net c host tls req trace of
        (Inl resp, trace1) \<Rightarrow> (resp, trace1)
      | (Inr req', trace1) \<Rightarrow>
          (case try_all fmt net (address ep) (upstream_plan lib is_end_stream c ep host tls req')
                  (no_attempt_text fmt (address ep)) trace1 of
             (Inl err, trace') \<Rightarrow> (text_response (hl_headers lib) BAD_GATEWAY err, trace')
           | (Inr resp, trace') \<Rightarrow>
               (\<lparr>rs_status = rs_status resp, rs_headers = remove_hop_headers (hl_headers lib) (rs_headers resp),
                 rs_body = Boxed (rs_body resp)\<rparr>, trace')))"
  unfolding serve_def authorize_def upstream_plan_def Let_def forward_refines_plan attempts_def address_def
  by (simp split: option.split prod.split sum.split)

text \<open>How the handler ends: before a target is found, refused by the gate, or after forwarding.\<close>

inductive handled ::
  "'d counters \<Rightarrow> ('h, 'u) http_lib \<Rightarrow> ('u, 'e) fmt_lib \<Rightarrow> ('h, 'u, 'b, 'r, 'e) network \<Rightarrow> ('b \<Rightarrow> bool)
    \<Rightarrow> 'd route_table \<Rightarrow> ('h, 'u, 'b) request \<Rightarrow> store \<Rightarrow> ('h, 'u, 'b) sent list
    \<Rightarrow> ('h, 'r body) response \<Rightarrow> ('h, 'u, 'b) sent list \<Rightarrow> bool"
  for dm lib fmt net is_end_stream t req s trace where
  unresolved: "st \<in> {BAD_REQUEST, NOT_FOUND, BAD_GATEWAY} \<Longrightarrow>
    handled dm lib fmt net is_end_stream t req s trace (text_response (hl_headers lib) st msg) trace"
| served: "extract_host lib req = (Inr host :: ('h, 'r body) response + string) \<Longrightarrow>
    choose_route t host (uri_path lib (rq_uri req)) = Some rule \<Longrightarrow>
    get_cluster_rules t (rr_cluster rule) = Some c \<Longrightarrow>
    get_endpoint dm t (rr_cluster rule) (current s) s = (Some sel, s1) \<Longrightarrow>
    serve lib fmt net is_end_stream c (se_endpoint sel) host (rq_frontend_tls req = Some True) req trace
      = (resp, trace') \<Longrightarrow>
    handled dm lib fmt net is_end_stream t req s trace resp trace'"

lemma frontend_flag: "(case x of Some f \<Rightarrow> f | None \<Rightarrow> False) = (x = Some True)"
  by (cases x) auto

lemma extract_host_Inl:
  "extract_host lib req = (Inl resp :: ('h, 'r body) response + string) \<Longrightarrow>
   \<exists>msg. resp = text_response (hl_headers lib) BAD_REQUEST msg"
  by (auto simp: extract_host_def Let_def split: option.splits if_splits)

lemmas resolve_defs = resolve_route_def resolve_cluster_def resolve_endpoint_def

lemma handler_handled:
  fixes net :: "('h, 'u, 'b, 'r, 'e) network"
  assumes "proxy_handler dm lib fmt net is_end_stream t req s trace = (resp, s', trace')"
  shows "handled dm lib fmt net is_end_stream t req s trace resp trace'"
proof (cases "extract_host lib req :: ('h, 'r body) response + string")
  case (Inl r)
  with assms show ?thesis
    using extract_host_Inl [OF Inl] by (auto simp: proxy_handler_def intro: unresolved)
next
  case (Inr host)
  show ?thesis
  proof (cases "\<exists>rule c sel s1. choose_route t host (uri_path lib (rq_uri req)) = Some rule
      \<and> get_cluster_rules t (rr_cluster rule) = Some c \<and> get_endpoint dm t (rr_cluster rule) (current s) s = (Some sel, s1)")
    case True
    then obtain rule c sel s1 where r: "choose_route t host (uri_path lib (rq_uri req)) = Some rule"
      "get_cluster_rules t (rr_cluster rule) = Some c" "get_endpoint dm t (rr_cluster rule) (current s) s = (Some sel, s1)"
      by blast
    with assms Inr have "serve lib fmt net is_end_stream c (se_endpoint sel) host
        (rq_frontend_tls req = Some True) req trace = (resp, trace')"
      by (simp add: proxy_handler_def resolve_defs Let_def frontend_flag split: prod.splits)
    with Inr r show ?thesis by (rule served)
  next
    case False
    with assms Inr show ?thesis
      by (auto simp: proxy_handler_def resolve_defs Let_def split: option.splits prod.splits intro: unresolved)
  qed
qed

section \<open>Traces\<close>

text \<open>A request sent upstream is one with a timeout; the subrequest has none.\<close>

definition upstream_sends :: "('h, 'u, 'b) sent list \<Rightarrow> ('h, 'u, 'b) sent list" where
  "upstream_sends xs = filter (\<lambda>x. snt_timeout x \<noteq> None) xs"

lemma auth_subrequest_trace:
  "\<exists>xs. snd (auth_subrequest lib fmt net req auth host tls insecure trace) = trace @ xs
     \<and> length xs \<le> 1 \<and> upstream_sends xs = []"
  by (auto simp: auth_subrequest_defs Let_def upstream_sends_def split: option.splits sum.splits)

lemma authorize_trace:
  assumes "authorize lib fmt net c host tls req trace = (out, trace1)"
  obtains xs where "trace1 = trace @ xs" "length xs \<le> 1" "upstream_sends xs = []"
proof -
  have "snd (authorize lib fmt net c host tls req trace) = trace
      \<or> (\<exists>auth insecure. snd (authorize lib fmt net c host tls req trace)
           = snd (auth_subrequest lib fmt net req auth host tls insecure trace))"
    by (auto simp: authorize_def perform_auth_unfold split: option.splits)
  then show ?thesis
  proof
    assume "snd (authorize lib fmt net c host tls req trace) = trace"
    then show ?thesis using assms that [of "[]"] by (simp add: upstream_sends_def)
  next
    assume "\<exists>auth insecure. snd (authorize lib fmt net c host tls req trace)
           = snd (auth_subrequest lib fmt net req auth host tls insecure trace)"
    then show ?thesis using assms that auth_subrequest_trace by (metis snd_conv)
  qed
qed

lemma plan_upstream: "set (upstream_plan lib ies c ep host tls req) \<subseteq> {x. snt_timeout x \<noteq> None}"
  by (auto simp: upstream_plan_def attempt_plan_def Let_def)

lemma length_upstream_plan: "0 < length (upstream_plan lib ies c ep host tls req)"
  using attempts_pos [of c] by (auto simp: upstream_plan_def length_attempt_plan Let_def)

text \<open>
  The trace of \<open>serve\<close>: at most one subrequest, then, if the gate let the request pass,
  at least one request of the plan.
\<close>

lemma serve_cases:
  assumes "serve lib fmt net ies c ep host tls req trace = (resp, trace')"
  obtains (refused) auth where "cr_auth c = Some auth"
      "perform_auth_if_needed lib fmt net req auth host tls (cr_backend_tls_insecure_skip_verify c) trace
        = (Inl resp, trace')"
      "\<exists>xs. trace' = trace @ xs \<and> upstream_sends xs = []"
  | (forwarded) req' xs k out where "authorize lib fmt net c host tls req trace = (Inr req', trace @ xs)"
      "length xs \<le> 1" "upstream_sends xs = []" "0 < k"
      "trace' = trace @ xs @ take k (upstream_plan lib ies c ep host tls req')"
      "case out of Inl err \<Rightarrow> resp = text_response (hl_headers lib) BAD_GATEWAY err
         \<and> attempt_error fmt net (address ep) trace' \<noteq> None
       | Inr r \<Rightarrow> net_reply net trace' = Inr r \<and> attempt_error fmt net (address ep) trace' = None
           \<and> rs_status resp = rs_status r
           \<and> rs_headers resp = remove_hop_headers (hl_headers lib) (rs_headers r)
           \<and> rs_body resp = Boxed (rs_body r)"
proof -
  obtain a trace1 where a: "authorize lib fmt net c host tls req trace = (a, trace1)" by fastforce
  then obtain xs where xs: "trace1 = trace @ xs" "length xs \<le> 1" "upstream_sends xs = []"
    by (rule authorize_trace)
  show ?thesis
  proof (cases a)
    case (Inl r)
    then have "r = resp" "trace' = trace1" using assms a by (simp_all add: serve_unfold)
    with a Inl xs show ?thesis by (auto simp: authorize_def split: option.splits intro: refused)
  next
    case (Inr req')
    let ?plan = "upstream_plan lib ies c ep host tls req'"
    obtain out tr where out: "try_all fmt net (address ep) ?plan (no_attempt_text fmt (address ep)) trace1 = (out, tr)"
      by fastforce
    then obtain k where k: "k \<le> length ?plan" "tr = trace1 @ take k ?plan"
      "\<And>i. i < k \<Longrightarrow> Suc i < k \<or> (\<exists>e. out = Inl e)
         \<Longrightarrow> attempt_error fmt net (address ep) (trace1 @ take (Suc i) ?plan) \<noteq> None"
      "case out of Inl e \<Rightarrow> k = length ?plan
       | Inr r \<Rightarrow> 0 < k \<and> attempt_error fmt net (address ep) tr = None \<and> net_reply net tr = Inr r"
      by (rule try_all_run) (rule that)
    have tr: "trace' = tr" using assms a Inr out by (auto simp: serve_unfold split: sum.splits)
    have pos: "0 < k" using k(4) length_upstream_plan [of lib ies c ep host tls req'] by (auto split: sum.splits)
    have "case out of Inl err \<Rightarrow> resp = text_response (hl_headers lib) BAD_GATEWAY err
         \<and> attempt_error fmt net (address ep) trace' \<noteq> None
       | Inr r \<Rightarrow> net_reply net trace' = Inr r \<and> attempt_error fmt net (address ep) trace' = None
           \<and> rs_status resp = rs_status r
           \<and> rs_headers resp = remove_hop_headers (hl_headers lib) (rs_headers r)
           \<and> rs_body resp = Boxed (rs_body r)"
      using assms a Inr out k(2, 4) k(3) [of "k - 1"] pos tr by (auto simp: serve_unfold split: sum.splits)
    with a Inr xs pos k(2) tr show ?thesis by (intro forwarded) auto
  qed
qed

section \<open>What reaches an upstream\<close>

lemma upstream_sends_append: "upstream_sends (xs @ ys) = upstream_sends xs @ upstream_sends ys"
  by (simp add: upstream_sends_def)

lemma upstream_sends_plan:
  "upstream_sends (take k (upstream_plan lib ies c ep host tls req)) = take k (upstream_plan lib ies c ep host tls req)"
  unfolding upstream_sends_def filter_id_conv
  using plan_upstream [of lib ies c ep host tls req] by (auto dest: in_set_takeD)

text \<open>The endpoint selected is one of the cluster the route names.\<close>

lemma round_robin_set: "round_robin dm c s = (Some sel, s') \<Longrightarrow> se_endpoint sel \<in> set (cr_endpoints c)"
  by (auto simp: round_robin_def Let_def split: if_splits prod.splits)

lemma least_conn_set: "least_conn dm c loads s = (Some sel, s') \<Longrightarrow> se_endpoint sel \<in> set (cr_endpoints c)"
  unfolding least_conn_def Let_def vec_get_def
  by (simp split: if_splits option.splits add: round_robin_set) auto

lemma select_endpoint_set: "select_endpoint dm c loads s = (Some sel, s') \<Longrightarrow> se_endpoint sel \<in> set (cr_endpoints c)"
  by (simp add: select_endpoint_def round_robin_set least_conn_set split: lb_policy.splits)

lemma get_endpoint_set:
  "get_endpoint dm t name loads s = (Some sel, s') \<Longrightarrow> get_cluster_rules t name = Some c \<Longrightarrow>
   se_endpoint sel \<in> set (cr_endpoints c)"
  by (simp add: get_endpoint_def get_cluster_rules_def select_endpoint_set)

definition cleared ::
  "('h, 'u) http_lib \<Rightarrow> ('h, 'u, 'b, 'r, 'e) network \<Rightarrow> 'd cluster_rule \<Rightarrow> ('h, 'u, 'b) request
    \<Rightarrow> string \<Rightarrow> bool \<Rightarrow> ('h, 'u, 'b) sent list \<Rightarrow> ('h, 'u, 'b) sent list \<Rightarrow> bool" where
  "cleared lib net c req host tls trace trace1 \<longleftrightarrow>
     (case cr_auth c of
        None \<Rightarrow> trace1 = trace
      | Some auth \<Rightarrow>
          (skips_auth lib auth req \<and> trace1 = trace)
          \<or> (\<exists>r. granted lib net req auth host tls (cr_backend_tls_insecure_skip_verify c) trace trace1 r))"

lemma authorize_cleared:
  "authorize lib fmt net c host tls req trace = (Inr req', trace1) \<Longrightarrow> cleared lib net c req host tls trace trace1"
  by (auto simp: authorize_def cleared_def split: option.splits elim: perform_auth_cases)

text \<open>
  C1: a request reaches an upstream only through a route and past the gate.  If anything
  at all is sent upstream for a client request, then the request names a host, a route
  of the table matches host and path, the route's cluster exists, the requests sent are
  the plan of attempts for one of the cluster's endpoints, and before them either the
  cluster has no authorization, or the path is skipped, or the authorization service
  answered the one subrequest with a 2xx status.
\<close>

theorem upstream_only_if_cleared:
  fixes net :: "('h, 'u, 'b, 'r, 'e) network"
  assumes "proxy_handler dm lib fmt net is_end_stream t req s trace = (resp, s', trace @ xs)"
    and "upstream_sends xs \<noteq> []"
  shows "\<exists>host rule c ep req' k n.
    extract_host lib req = (Inr host :: ('h, 'r body) response + string)
    \<and> choose_route t host (uri_path lib (rq_uri req)) = Some rule
    \<and> get_cluster_rules t (rr_cluster rule) = Some c \<and> ep \<in> set (cr_endpoints c)
    \<and> n \<le> 1 \<and> cleared lib net c req host (rq_frontend_tls req = Some True) trace (trace @ take n xs)
    \<and> upstream_sends xs = drop n xs
    \<and> drop n xs = take k (upstream_plan lib is_end_stream c ep host (rq_frontend_tls req = Some True) req')"
  using handler_handled [OF assms(1)]
proof (cases rule: handled.cases)
  case (unresolved st msg)
  then show ?thesis using assms(2) by (simp add: upstream_sends_def)
next
  case (served host rule c sel s1)
  note ep = get_endpoint_set [OF served(4, 3)]
  from served(5) show ?thesis
  proof (cases rule: serve_cases)
    case (refused auth)
    then show ?thesis using assms(2) by auto
  next
    case (forwarded req' ys k out)
    have xs: "xs = ys @ take k (upstream_plan lib is_end_stream c (se_endpoint sel) host (rq_frontend_tls req = Some True) req')"
      using forwarded(5) by simp
    then have "upstream_sends xs = drop (length ys) xs" "trace @ take (length ys) xs = trace @ ys"
      using forwarded(3) by (simp_all add: upstream_sends_append upstream_sends_plan)
    moreover have "cleared lib net c req host (rq_frontend_tls req = Some True) trace (trace @ ys)"
      using forwarded(1) by (rule authorize_cleared)
    ultimately show ?thesis
      using served(1-3) ep forwarded(2) xs
      by (intro exI [of _ host] exI [of _ rule] exI [of _ c] exI [of _ "se_endpoint sel"]
          exI [of _ req'] exI [of _ k] exI [of _ "length ys"]) simp
  qed
qed

section \<open>Hop-by-hop headers\<close>

lemma prepare_headers:
  assumes "header_map (hl_headers lib)"
  shows "hm_get_all (hl_headers lib) (rq_headers (prepare_upstream lib c ep host tls req)) n
    = rewrite_values (header_value_from_str lib) n (cr_request_headers c)
        (upstream_header_values (header_value_from_str lib) tls host
           (hm_get_all (hl_headers lib) (rq_headers req)) n)"
  by (auto simp: prepare_upstream_def Let_def header_map.get_all_apply_header_rewrites [OF assms]
      get_all_handle_req_upstream [OF assms]) (simp add: rewrite_values_def)

lemma plan_headers:
  "x \<in> set (upstream_plan lib ies c ep host tls req) \<Longrightarrow>
   rq_headers (snt_request x) = rq_headers (prepare_upstream lib c ep host tls req)"
  by (cases "attempts c")
    (auto simp: upstream_plan_def attempt_plan_def capture_def build_retry_request_def box_body_def Let_def
      split: if_splits)

lemma text_redirect_headers:
  assumes "header_map (hl_headers lib)" "n \<in> set HOP_HEADERS_REF"
  shows "hm_get_all (hl_headers lib) (rs_headers (text_response (hl_headers lib) st msg)) n = []"
    "hm_get_all (hl_headers lib) (rs_headers (redirect lib st loc)) n = []"
proof -
  have "n \<noteq> ''content-type''" "n \<noteq> ''location''" using assms(2) by (auto simp: HOP_HEADERS_REF_def)
  then show "hm_get_all (hl_headers lib) (rs_headers (text_response (hl_headers lib) st msg)) n = []"
    "hm_get_all (hl_headers lib) (rs_headers (redirect lib st loc)) n = []"
    by (simp_all add: text_response_def redirect_def Let_def header_map.get_all_simps [OF assms(1)]
        split: option.split)
qed

lemma refusal_headers:
  assumes "header_map (hl_headers lib)" "n \<in> set HOP_HEADERS_REF"
    and "perform_auth_if_needed lib fmt net req auth host tls insecure trace = (Inl resp, trace')"
  shows "hm_get_all (hl_headers lib) (rs_headers resp) n = []"
proof -
  have "cookie_redirect lib req auth host tls = Some resp
      \<or> auth_subrequest lib fmt net req auth host tls insecure trace = (Inl resp, trace')"
    using assms(3) by (rule refusal_origin)
  then show ?thesis
    by (elim disjE) (auto simp: cookie_redirect_def auth_subrequest_defs Let_def
      text_redirect_headers [OF assms(1, 2)] split: option.splits sum.splits if_splits)
qed

text \<open>Every request sent upstream is a client request prepared for a cluster of the table.\<close>

lemma upstream_send_cases:
  fixes net :: "('h, 'u, 'b, 'r, 'e) network"
  assumes "proxy_handler dm lib fmt net is_end_stream t req s trace = (resp, s', trace @ xs)"
    and "x \<in> set (upstream_sends xs)"
  obtains host c ep req' where "c \<in> ran (tab_clusters t)"
    "extract_host lib req = (Inr host :: ('h, 'r body) response + string)"
    "x \<in> set (upstream_plan lib is_end_stream c ep host (rq_frontend_tls req = Some True) req')"
  using handler_handled [OF assms(1)]
proof (cases rule: handled.cases)
  case (unresolved st msg)
  then show ?thesis using assms(2) by (simp add: upstream_sends_def)
next
  case (served host rule c sel s1)
  have "c \<in> ran (tab_clusters t)" using served(3) by (auto simp: get_cluster_rules_def ran_def)
  note found = that [OF this served(1)]
  from served(5) show ?thesis
  proof (cases rule: serve_cases)
    case (refused auth)
    then show ?thesis using assms(2) by auto
  next
    case (forwarded req' ys k out)
    then have "x \<in> set (upstream_plan lib is_end_stream c (se_endpoint sel) host (rq_frontend_tls req = Some True) req')"
      using assms(2) by (auto simp: upstream_sends_append upstream_sends_plan dest: in_set_takeD)
    then show ?thesis by (rule found)
  qed
qed

lemma response_headers:
  assumes "header_map (hl_headers lib)" "n \<in> set HOP_HEADERS_REF"
    and "proxy_handler dm lib fmt net is_end_stream t req s trace = (resp, s', trace')"
  shows "hm_get_all (hl_headers lib) (rs_headers resp) n = []"
  using handler_handled [OF assms(3)]
proof (cases rule: handled.cases)
  case (unresolved st msg)
  then show ?thesis by (simp add: text_redirect_headers [OF assms(1, 2)])
next
  case (served host rule c sel s1)
  from served(5) show ?thesis
  proof (cases rule: serve_cases)
    case (refused auth)
    then show ?thesis using refusal_headers [OF assms(1, 2)] by blast
  next
    case (forwarded req' ys k out)
    then show ?thesis
      using assms(2) text_redirect_headers [OF assms(1, 2)]
      by (auto simp: header_map.get_all_remove_hop [OF assms(1)] split: sum.splits)
  qed
qed

text \<open>
  C33: hop-by-hop headers stop at the proxy, in both directions.  No response to a client
  has one, and no request sent upstream has one unless a header rule of some cluster of
  the table names it.
\<close>

theorem hop_headers_stop:
  assumes "header_map (hl_headers lib)"
    and "proxy_handler dm lib fmt net is_end_stream t req s trace = (resp, s', trace @ xs)"
    and "n \<in> set HOP_HEADERS_REF"
  shows "hm_get_all (hl_headers lib) (rs_headers resp) n = []
    \<and> (n \<in> (\<Union>c \<in> ran (tab_clusters t). hrr_name ` set (cr_request_headers c))
       \<or> (\<forall>x \<in> set (upstream_sends xs). hm_get_all (hl_headers lib) (rq_headers (snt_request x)) n = []))"
proof
  show "hm_get_all (hl_headers lib) (rs_headers resp) n = []"
    using assms(1, 3, 2) by (rule response_headers)
  have "hm_get_all (hl_headers lib) (rq_headers (snt_request x)) n = []"
    if "n \<notin> (\<Union>c \<in> ran (tab_clusters t). hrr_name ` set (cr_request_headers c))"
      "x \<in> set (upstream_sends xs)" for x
    using assms(2) that(2)
  proof (rule upstream_send_cases)
    fix c host ep req'
    assume "c \<in> ran (tab_clusters t)"
      "x \<in> set (upstream_plan lib is_end_stream c ep host (rq_frontend_tls req = Some True) req')"
    then show ?thesis
      using that(1) assms(3)
      by (simp add: plan_headers prepare_headers [OF assms(1)] rewrite_values_other upstream_header_values_def)
  qed
  then show "n \<in> (\<Union>c \<in> ran (tab_clusters t). hrr_name ` set (cr_request_headers c))
       \<or> (\<forall>x \<in> set (upstream_sends xs). hm_get_all (hl_headers lib) (rq_headers (snt_request x)) n = [])"
    by blast
qed

section \<open>Counters\<close>

lemma round_robin_cells: "round_robin dm c s = (sel, s') \<Longrightarrow> a \<noteq> cr_rr_cursor c \<Longrightarrow> cells s' a = cells s a"
  by (auto simp: round_robin_def Let_def fetch_add_def split: if_splits)

lemma least_conn_cells: "least_conn dm c loads s = (sel, s') \<Longrightarrow> a \<noteq> cr_rr_cursor c \<Longrightarrow> cells s' a = cells s a"
  unfolding least_conn_def Let_def vec_get_def
  by (auto split: if_splits option.splits dest: round_robin_cells)

lemma get_endpoint_cells:
  "get_endpoint dm t name loads s = (sel, s') \<Longrightarrow> a \<notin> table_cursors (tab_clusters t) \<Longrightarrow> cells s' a = cells s a"
  by (auto simp: get_endpoint_def select_endpoint_def table_cursors_def ran_def
      split: option.splits lb_policy.splits dest: round_robin_cells least_conn_cells)

lemma resolve_endpoint_cells:
  "resolve_endpoint dm hm t rule loads s = (out, s') \<Longrightarrow> cells s' a \<noteq> cells s a \<Longrightarrow> a \<in> table_cursors (tab_clusters t)"
  using get_endpoint_cells by (fastforce simp: resolve_endpoint_def split: prod.splits option.splits)

lemma cells_guard_pair: "cells (guard_drop c (guard_new c s)) = cells s"
  by (rule ext) (simp add: cells_guard)

text \<open>
  The handler leaves the connection counters as it found them.  Whatever happens to
  the request, on every path of the handler, the only cells that differ afterwards are
  round-robin cursors.
\<close>

theorem handler_restores_counters:
  "{a. cells (fst (snd (proxy_handler dm lib fmt net is_end_stream t req s trace))) a \<noteq> cells s a}
   \<subseteq> table_cursors (tab_clusters t)"
  by (auto simp: proxy_handler_def Let_def cells_guard_pair split: sum.splits prod.splits
      dest: resolve_endpoint_cells)

section \<open>Statuses\<close>

lemma refusal_status:
  assumes "perform_auth_if_needed lib fmt net req auth host tls insecure trace = (Inl resp, trace')"
  shows "rs_status resp \<in> {FOUND, UNAUTHORIZED, BAD_GATEWAY}"
proof -
  have "cookie_redirect lib req auth host tls = Some resp
      \<or> auth_subrequest lib fmt net req auth host tls insecure trace = (Inl resp, trace')"
    using assms by (rule refusal_origin)
  then show ?thesis
    by (elim disjE) (auto simp: cookie_redirect_def auth_subrequest_defs Let_def
      split: option.splits sum.splits if_splits)
qed

text \<open>
  C40: the status of every response.  If something was sent upstream, the client gets the
  status of the answer to the last request sent if that came in time, and 502 if it was an
  error or if the time ran out: a timeout is answered with 502, where \<open>docs/settings.md\<close> has
  504.  If nothing was sent upstream, the answer is the proxy's own, a 302, 400, 401, 404 or
  502.
\<close>

theorem handler_statuses:
  assumes "proxy_handler dm lib fmt net is_end_stream t req s trace = (resp, s', trace @ xs)"
  shows "if upstream_sends xs = []
    then rs_status resp \<in> {FOUND, BAD_REQUEST, UNAUTHORIZED, NOT_FOUND, BAD_GATEWAY}
    else rs_status resp = (if net_elapsed net (trace @ xs) then BAD_GATEWAY
      else case net_reply net (trace @ xs) of Inl _ \<Rightarrow> BAD_GATEWAY | Inr r \<Rightarrow> rs_status r)"
  using handler_handled [OF assms]
proof (cases rule: handled.cases)
  case (unresolved st msg)
  then show ?thesis by (auto simp: upstream_sends_def)
next
  case (served host rule c sel s1)
  from served(5) show ?thesis
  proof (cases rule: serve_cases)
    case (refused auth)
    then show ?thesis using refusal_status [OF refused(2)] by (auto simp: upstream_sends_def)
  next
    case (forwarded req' ys k out)
    then have "upstream_sends xs \<noteq> []"
      using length_upstream_plan [of lib is_end_stream c "se_endpoint sel" host "rq_frontend_tls req = Some True" req']
      by (auto simp: upstream_sends_append upstream_sends_plan)
    with forwarded(6) show ?thesis by (auto simp: attempt_error_def split: sum.splits if_splits)
  qed
qed

section \<open>The host of a request without a Host header\<close>

text \<open>
  The host of the URI is used as it is.  For a request without a \<open>Host\<close> header, such
  as an HTTP/2 request with \<open>:authority\<close>, the host is taken from the URI without folding
  its case; if it has an upper-case letter, no route of a named host can match, whatever
  the configuration, and only routes without a host are considered.
\<close>

theorem authority_host_not_folded:
  fixes req :: "('h, 'u, 'b) request"
  assumes "hm_get (hl_headers lib) (rq_headers req) ''host'' = None"
    and "uri_host lib (rq_uri req) = Some h" and "to_ascii_lowercase h \<noteq> h"
  shows "extract_host lib req = (Inr h :: ('h, 'r body) response + string)
    \<and> choose_route (fst (route_table_new dm from_bytes snap s)) h path = best_in_host (sn_routes snap) [] path"
proof
  show "extract_host lib req = (Inr h :: ('h, 'r body) response + string)"
    using assms(1, 2) by (simp add: extract_host_def)
  show "choose_route (fst (route_table_new dm from_bytes snap s)) h path = best_in_host (sn_routes snap) [] path"
    using host_rules_lowercase [OF assms(3)]
    by (simp add: choose_route_best_route best_route_def best_in_host_def)
qed

section \<open>Requests that are served\<close>

definition open_to :: "('h, 'u) http_lib \<Rightarrow> 'd cluster_rule \<Rightarrow> ('h, 'u, 'b) request \<Rightarrow> bool" where
  "open_to lib c req \<longleftrightarrow> (case cr_auth c of None \<Rightarrow> True | Some auth \<Rightarrow> skips_auth lib auth req)"

lemma open_served:
  fixes net :: "('h, 'u, 'b, 'r, 'e) network"
  assumes "extract_host lib req = (Inr host :: ('h, 'r body) response + string)"
    and "choose_route t host (uri_path lib (rq_uri req)) = Some rule"
    and "get_cluster_rules t (rr_cluster rule) = Some c"
    and "cr_endpoints c \<noteq> []" and "open_to lib c req"
  shows "\<exists>resp s' xs. proxy_handler dm lib fmt net is_end_stream t req s trace = (resp, s', trace @ xs)
    \<and> upstream_sends xs \<noteq> []"
proof -
  have "fst (round_robin dm c s) \<noteq> None" using assms(4) by (simp add: round_robin_def Let_def split: prod.split)
  then have "fst (least_conn dm c (current s) s) \<noteq> None" "fst (round_robin dm c s) \<noteq> None"
    using assms(4) by (auto simp: least_conn_def Let_def split: option.splits)
  then have "fst (get_endpoint dm t (rr_cluster rule) (current s) s) \<noteq> None"
    using assms(3) by (auto simp: get_endpoint_def get_cluster_rules_def select_endpoint_def split: lb_policy.splits)
  then obtain sel s1 where sel: "get_endpoint dm t (rr_cluster rule) (current s) s = (Some sel, s1)"
    by (cases "get_endpoint dm t (rr_cluster rule) (current s) s") auto
  obtain resp trace' where sv: "serve lib fmt net is_end_stream c (se_endpoint sel) host
      (rq_frontend_tls req = Some True) req trace = (resp, trace')" by fastforce
  have "\<exists>xs. trace' = trace @ xs \<and> upstream_sends xs \<noteq> []"
    using sv
  proof (cases rule: serve_cases)
    case (refused auth)
    then have "skips_auth lib auth req" using assms(5) by (simp add: open_to_def)
    then show ?thesis using refused(2) by (simp add: perform_auth_unfold)
  next
    case (forwarded req' ys k out)
    then show ?thesis
      using length_upstream_plan [of lib is_end_stream c "se_endpoint sel" host "rq_frontend_tls req = Some True" req']
      by (auto simp: upstream_sends_append upstream_sends_plan)
  qed
  moreover have "proxy_handler dm lib fmt net is_end_stream t req s trace
      = (resp, guard_drop (se_counter sel) (guard_new (se_counter sel) s1), trace')"
    using assms(1-3) sel sv by (simp add: proxy_handler_def resolve_defs Let_def frontend_flag)
  ultimately show ?thesis by auto
qed

text \<open>
  A routable request is served.  If the request names a host, a route matches, the
  route's cluster exists and has an endpoint, and no authorization stands in the way,
  then at least one request is sent upstream.
\<close>

theorem open_request_is_served:
  fixes net :: "('h, 'u, 'b, 'r, 'e) network"
  assumes "extract_host lib req = (Inr host :: ('h, 'r body) response + string)"
    and "choose_route t host (uri_path lib (rq_uri req)) = Some rule"
    and "get_cluster_rules t (rr_cluster rule) = Some c"
    and "cr_endpoints c \<noteq> []" and "open_to lib c req"
  shows "\<exists>resp s' xs. proxy_handler dm lib fmt net is_end_stream t req s trace = (resp, s', trace @ xs)
    \<and> upstream_sends xs \<noteq> []"
  using assms by (rule open_served)

section \<open>Instances\<close>

definition root_request :: "(header_name \<Rightarrow> header_value list, uri_parts, string) request" where
  "root_request = demo_request
     \<lparr>rq_uri := \<lparr>up_scheme = None, up_authority = Some ''Demo.Local'', up_path_and_query = Some ''/x''\<rparr>\<rparr>"

lemma root_extract:
  "extract_host parts_lib root_request = (Inr ''demo.local'' :: (header_name \<Rightarrow> header_value list, string body) response + string)"
proof -
  have "(case extract_host parts_lib root_request ::
      (header_name \<Rightarrow> header_value list, string body) response + string of
        Inr h \<Rightarrow> h = ''demo.local'' | Inl _ \<Rightarrow> False)"
    by code_simp
  then show ?thesis by (simp split: sum.splits)
qed

lemma root_route:
  "choose_route demo_table ''demo.local'' (uri_path parts_lib (rq_uri root_request))
     = Some (rule_of_route (demo_route ''/'' ''Prefix'' ''web'') Prefix)"
  by code_simp

lemma root_cluster:
  obtains c where
    "get_cluster_rules demo_table (rr_cluster (rule_of_route (demo_route ''/'' ''Prefix'' ''web'') Prefix)) = Some c"
    "cr_endpoints c \<noteq> []" "open_to parts_lib c root_request"
proof -
  have "map_option (\<lambda>c. (cr_endpoints c = [], cr_auth c)) (get_cluster_rules demo_table ''web'') = Some (False, None)"
    by code_simp
  then show ?thesis using that by (auto simp: rule_of_route_def demo_route_def open_to_def)
qed

abbreviation "demo_handler net \<equiv>
  proxy_handler alist_dash parts_lib plain_fmt net (\<lambda>b. b = []) demo_table root_request store_init []"

theorem open_request_is_served_witness:
  "\<exists>resp s' xs. demo_handler (answering 200) = (resp, s', [] @ xs) \<and> upstream_sends xs \<noteq> []"
  by (rule root_cluster) (rule open_request_is_served [OF root_extract root_route])

lemma demo_served:
  fixes net :: "(header_name \<Rightarrow> header_value list, uri_parts, string, string, string) network"
  obtains resp s' xs where "demo_handler net = (resp, s', [] @ xs)" "upstream_sends xs \<noteq> []"
proof (rule root_cluster)
  fix c
  assume "get_cluster_rules demo_table (rr_cluster (rule_of_route (demo_route ''/'' ''Prefix'' ''web'') Prefix)) = Some c"
    "cr_endpoints c \<noteq> []" "open_to parts_lib c root_request"
  from open_served [OF root_extract root_route this] show thesis using that by blast
qed

theorem upstream_only_if_cleared_witness:
  "\<exists>rule. choose_route demo_table ''demo.local'' ''/x'' = Some rule"
proof -
  obtain resp s' xs where *: "demo_handler (answering 200) = (resp, s', [] @ xs)" "upstream_sends xs \<noteq> []"
    by (rule demo_served)
  have "uri_path parts_lib (rq_uri root_request) = ''/x''" by code_simp
  with upstream_only_if_cleared [OF *] root_extract show ?thesis by auto
qed

theorem hop_headers_stop_witness:
  "hm_get_all multimap_headers (rs_headers (fst (demo_handler (answering 200)))) ''connection'' = []"
proof -
  obtain resp s' xs where *: "demo_handler (answering 200) = (resp, s', [] @ xs)" "upstream_sends xs \<noteq> []"
    by (rule demo_served)
  have "''connection'' \<in> set HOP_HEADERS_REF" by (simp add: HOP_HEADERS_REF_def)
  from hop_headers_stop [OF header_map_parts_lib *(1) this] show ?thesis unfolding *(1) by simp
qed

theorem handler_statuses_witness:
  "rs_status (fst (demo_handler (answering 418))) = 418
    \<and> rs_status (fst (demo_handler ((answering 200)\<lparr>net_elapsed := \<lambda>_. True\<rparr>))) = 502"
proof
  obtain resp s' xs where *: "demo_handler (answering 418) = (resp, s', [] @ xs)" "upstream_sends xs \<noteq> []"
    by (rule demo_served)
  from handler_statuses [OF *(1)] *(2) show "rs_status (fst (demo_handler (answering 418))) = 418"
    unfolding *(1) by (simp add: answering_def)
next
  let ?net = "(answering 200)\<lparr>net_elapsed := \<lambda>_. True\<rparr>"
  obtain resp s' xs where *: "demo_handler ?net = (resp, s', [] @ xs)" "upstream_sends xs \<noteq> []"
    by (rule demo_served)
  from handler_statuses [OF *(1)] *(2) show "rs_status (fst (demo_handler ?net)) = 502"
    unfolding *(1) by simp
qed

theorem authority_host_not_folded_witness:
  "choose_route demo_table ''Demo.Local'' ''/x'' = None"
proof -
  let ?req = "root_request\<lparr>rq_headers := (\<lambda>_. [])\<rparr>"
  have "hm_get (hl_headers parts_lib) (rq_headers ?req) ''host'' = None" by simp
  moreover have "uri_host parts_lib (rq_uri ?req) = Some ''Demo.Local''"
    "to_ascii_lowercase ''Demo.Local'' \<noteq> ''Demo.Local''" by code_simp+
  ultimately have "choose_route demo_table ''Demo.Local'' ''/x'' = best_in_host (sn_routes demo_snapshot) [] ''/x''"
    unfolding demo_table_def by (rule authority_host_not_folded [THEN conjunct2])
  moreover have "best_in_host (sn_routes demo_snapshot) [] ''/x'' = None" by code_simp
  ultimately show ?thesis by simp
qed

end
