(* ===== verification/Certs.thy ===== *)
theory Certs
  imports Config Atomics
begin

text \<open>
  \<open>certs.rs\<close>: the TLS certificates of a snapshot (\<open>certificates_from_snap\<close>) and the choice
  of a certificate for a TLS handshake (\<open>DynResolver::resolve\<close>).  PEM parsing and key
  loading are third-party code and parameters of the model (\<open>pem_lib\<close>), and so is the
  generator of the self-signed certificate that serves as the default.
\<close>

text \<open>\<open>rustls_pemfile::Item\<close>; the kinds the code does not tell apart are \<open>OtherItem\<close>.\<close>

datatype pem_item =
    X509Certificate string
  | Pkcs1Key string
  | Pkcs8Key string
  | Sec1Key string
  | OtherItem string

datatype private_key_der = Pkcs1 string | Sec1 string | Pkcs8 string

text \<open>\<open>Inl\<close> is the error of a \<open>Result\<close>.\<close>

record 'k pem_lib =
  pem_read_all :: "string \<Rightarrow> (string + pem_item) list"
  pem_read_one :: "string \<Rightarrow> string + pem_item option"
  any_supported_type :: "private_key_der \<Rightarrow> string + 'k"

record 'k certified_key =
  ck_cert :: "string list"
  ck_key :: 'k

type_synonym 'k sni_map = "string \<rightharpoonup> 'k certified_key"

section \<open>Loading the certificates of a snapshot\<close>

text \<open>The loop over \<open>read_all\<close>: certificates are kept, other items and errors skipped.\<close>

fun read_chain :: "(string + pem_item) list \<Rightarrow> string list" where
  "read_chain [] = []"
| "read_chain (item # items) =
     (case item of
        Inr (X509Certificate cert) \<Rightarrow> cert # read_chain items
      | Inr _ \<Rightarrow> read_chain items
      | Inl _ \<Rightarrow> read_chain items)"

definition read_key :: "'k pem_lib \<Rightarrow> string \<Rightarrow> private_key_der option" where
  "read_key lib key_pem =
     (case pem_read_one lib key_pem of
        Inr (Some (Pkcs8Key der)) \<Rightarrow> Some (Pkcs8 der)
      | Inr (Some (Pkcs1Key der)) \<Rightarrow> Some (Pkcs1 der)
      | Inr (Some (Sec1Key der)) \<Rightarrow> Some (Sec1 der)
      | Inr (Some _) \<Rightarrow> None
      | Inr None \<Rightarrow> None
      | Inl _ \<Rightarrow> None)"

text \<open>One bundle up to \<open>CertifiedKey::new\<close>; \<open>None\<close> where the source \<open>continue\<close>s.\<close>

definition bundle_certified_key :: "'k pem_lib \<Rightarrow> server_tls_bundle \<Rightarrow> 'k certified_key option" where
  "bundle_certified_key lib sni =
     (let chain_der = read_chain (pem_read_all lib (tb_cert_pem sni)) in
      if chain_der = [] then None
      else case read_key lib (tb_key_pem sni) of
        None \<Rightarrow> None
      | Some key_der \<Rightarrow>
          (case any_supported_type lib key_der of
             Inl _ \<Rightarrow> None
           | Inr signing_key \<Rightarrow> Some \<lparr>ck_cert = chain_der, ck_key = signing_key\<rparr>))"

definition insert_bundle :: "'k pem_lib \<Rightarrow> server_tls_bundle \<Rightarrow> 'k sni_map \<Rightarrow> 'k sni_map" where
  "insert_bundle lib sni m =
     (case bundle_certified_key lib sni of
        None \<Rightarrow> m
      | Some ck \<Rightarrow> fold (\<lambda>host m. m(host \<mapsto> ck)) (tb_sni sni) m)"

definition certificates_from_snap :: "'k pem_lib \<Rightarrow> snapshot \<Rightarrow> 'k sni_map" where
  "certificates_from_snap lib snap = fold (insert_bundle lib) (sn_server_tls snap) Map.empty"

section \<open>Resolving a certificate\<close>

text \<open>\<open>str::find\<close> with a one-byte character.\<close>

definition str_find :: "char \<Rightarrow> string \<Rightarrow> nat option" where
  "str_find c s = (if c \<in> set s then Some (length (takeWhile (\<lambda>x. x \<noteq> c) s)) else None)"

text \<open>
  \<open>resolve\<close> loads the shared map twice, for the exact name and for the wildcard; a
  snapshot may be stored in between, so the two loads are two arguments.
\<close>

definition resolve ::
  "'k sni_map \<Rightarrow> 'k sni_map \<Rightarrow> 'k certified_key \<Rightarrow> string option \<Rightarrow> 'k certified_key option" where
  "resolve load1 load2 dflt server_name =
     (case server_name of
        None \<Rightarrow> None
      | Some n \<Rightarrow>
          (let name = to_ascii_lowercase n in
           case load1 name of
             Some v \<Rightarrow> Some v
           | None \<Rightarrow>
               (case str_find CHR ''.'' name of
                  None \<Rightarrow> Some dflt
                | Some pos \<Rightarrow>
                    (let star = ''*.'' @ drop (pos + 1) name in
                     case load2 star of
                       Some v \<Rightarrow> Some v
                     | None \<Rightarrow> Some dflt))))"

text \<open>
  \<open>DynResolver\<close> holds the address of the shared map and the default.  A load reads the
  map at that address; \<open>mem1\<close> and \<open>mem2\<close> are the maps at the times of the two loads.
\<close>

record 'k dyn_resolver =
  dr_map :: arc
  dr_default :: "'k certified_key"

definition dyn_resolver_new :: "'k certified_key \<Rightarrow> arc \<Rightarrow> 'k dyn_resolver" where
  "dyn_resolver_new dflt m = \<lparr>dr_map = m, dr_default = dflt\<rparr>"

definition dyn_resolve ::
  "'k dyn_resolver \<Rightarrow> (arc \<Rightarrow> 'k sni_map) \<Rightarrow> (arc \<Rightarrow> 'k sni_map) \<Rightarrow> string option \<Rightarrow> 'k certified_key option" where
  "dyn_resolve r mem1 mem2 server_name = resolve (mem1 (dr_map r)) (mem2 (dr_map r)) (dr_default r) server_name"

text \<open>The default certificate; \<open>generate\<close> gives a certificate and its PKCS 8 key for a list of names.\<close>

definition make_dummy_cert ::
  "(string list \<Rightarrow> string + string \<times> string) \<Rightarrow> 'k pem_lib \<Rightarrow> string + 'k certified_key" where
  "make_dummy_cert generate lib =
     (case generate [''hello.world.example'', ''localhost'', ''echo.local''] of
        Inl err \<Rightarrow> Inl err
      | Inr (cert_der, key_bytes) \<Rightarrow>
          (case any_supported_type lib (Pkcs8 key_bytes) of
             Inl err \<Rightarrow> Inl err
           | Inr signing_key \<Rightarrow> Inr \<lparr>ck_cert = [cert_der], ck_key = signing_key\<rparr>))"

section \<open>What the map holds\<close>

lemma fold_insert_hosts:
  "fold (\<lambda>host m. m(host \<mapsto> ck)) hosts m h = (if h \<in> set hosts then Some ck else m h)"
  by (induction hosts arbitrary: m) auto

text \<open>The usable bundles that list a host, in snapshot order.\<close>

definition host_keys :: "'k pem_lib \<Rightarrow> server_tls_bundle list \<Rightarrow> string \<Rightarrow> 'k certified_key list" where
  "host_keys lib bundles h =
     List.map_filter (\<lambda>b. if h \<in> set (tb_sni b) then bundle_certified_key lib b else None) bundles"

lemma fold_insert_bundle:
  "fold (insert_bundle lib) bundles m h =
     (if host_keys lib bundles h = [] then m h else Some (last (host_keys lib bundles h)))"
proof (induction bundles arbitrary: m)
  case (Cons b bundles)
  have "insert_bundle lib b m h =
      (case if h \<in> set (tb_sni b) then bundle_certified_key lib b else None of None \<Rightarrow> m h | Some ck \<Rightarrow> Some ck)"
    by (simp add: insert_bundle_def fold_insert_hosts split: option.splits)
  then show ?case
    by (auto simp: Cons.IH host_keys_def map_filter_simps split: option.splits)
qed (simp add: host_keys_def map_filter_simps)

lemma host_keys_origin:
  "ck \<in> set (host_keys lib bundles h) \<longleftrightarrow>
   (\<exists>b \<in> set bundles. h \<in> set (tb_sni b) \<and> bundle_certified_key lib b = Some ck)"
  by (induction bundles) (auto simp: host_keys_def map_filter_simps split: option.splits if_splits)

text \<open>
  The certificate of a host.  After a snapshot, the SNI map holds for each host the key
  of the last usable bundle that lists it, and nothing for a host no usable bundle
  lists: a bundle without a certificate, or with a missing, unsupported or rejected key,
  neither adds nor removes an entry.
\<close>

theorem certificates_from_snap_lookup:
  "certificates_from_snap lib snap h =
     (if host_keys lib (sn_server_tls snap) h = [] then None
      else Some (last (host_keys lib (sn_server_tls snap) h)))"
  by (simp add: certificates_from_snap_def fold_insert_bundle)

section \<open>What a handshake gets\<close>

lemma takeWhile_first: "c \<notin> set l \<Longrightarrow> takeWhile (\<lambda>x. x \<noteq> c) (l @ c # r) = l"
  by (induction l) auto

lemma dropWhile_first: "c \<notin> set l \<Longrightarrow> dropWhile (\<lambda>x. x \<noteq> c) (l @ c # r) = c # r"
  by (induction l) auto

lemma str_find_split:
  "str_find c s = Some i \<longleftrightarrow> (\<exists>l r. s = l @ c # r \<and> c \<notin> set l \<and> i = length l)"
proof
  assume "str_find c s = Some i"
  then have c: "c \<in> set s" and i: "i = length (takeWhile (\<lambda>x. x \<noteq> c) s)"
    by (auto simp: str_find_def split: if_splits)
  from split_list_first [OF c] obtain l r where s: "s = l @ c # r" and l: "c \<notin> set l" by blast
  have t: "takeWhile (\<lambda>x. x \<noteq> c) s = l" unfolding s using l by (rule takeWhile_first)
  show "\<exists>l r. s = l @ c # r \<and> c \<notin> set l \<and> i = length l"
  proof (intro exI conjI)
    show "s = l @ c # r" by (rule s)
    show "c \<notin> set l" by (rule l)
    show "i = length l" by (simp only: i t)
  qed
next
  assume "\<exists>l r. s = l @ c # r \<and> c \<notin> set l \<and> i = length l"
  then obtain l r where s: "s = l @ c # r" and l: "c \<notin> set l" and i: "i = length l" by blast
  then show "str_find c s = Some i"
    unfolding s str_find_def takeWhile_first [OF l] by simp
qed

text \<open>The wildcard name of a host: its first label replaced by a star.\<close>

definition wildcard_of :: "string \<Rightarrow> string option" where
  "wildcard_of name =
     (case dropWhile (\<lambda>c. c \<noteq> CHR ''.'') name of [] \<Rightarrow> None | _ # rest \<Rightarrow> Some (''*.'' @ rest))"

lemma wildcard_of_find:
  "wildcard_of name = map_option (\<lambda>pos. ''*.'' @ drop (pos + 1) name) (str_find CHR ''.'' name)"
proof (cases "str_find CHR ''.'' name")
  case None
  then have "dropWhile (\<lambda>c. c \<noteq> CHR ''.'') name = []"
    by (auto simp: str_find_def dropWhile_eq_Nil_conv split: if_splits)
  with None show ?thesis unfolding wildcard_of_def by (simp only: list.case option.map)
next
  case (Some i)
  then obtain l r where n: "name = l @ CHR ''.'' # r" and l: "CHR ''.'' \<notin> set l" and i: "i = length l"
    by (auto simp: str_find_split)
  have "wildcard_of name = Some (''*.'' @ r)"
    unfolding n wildcard_of_def dropWhile_first [OF l] by simp
  moreover have "drop (i + 1) name = r" unfolding n i by simp
  ultimately show ?thesis using Some by simp
qed

lemma resolve_eq:
  "resolve m1 m2 d (Some n) = Some
     (case m1 (to_ascii_lowercase n) of
        Some v \<Rightarrow> v
      | None \<Rightarrow> (case Option.bind (wildcard_of (to_ascii_lowercase n)) m2 of Some v \<Rightarrow> v | None \<Rightarrow> d))"
  by (auto simp: resolve_def wildcard_of_find Let_def split: option.splits)

text \<open>The certificate of a handshake is the default or was stored for the name or for its wildcard.\<close>

lemma resolve_origin:
  assumes "resolve m1 m2 d (Some n) = Some ck"
  obtains "ck = d" | "m1 (to_ascii_lowercase n) = Some ck"
  | w where "wildcard_of (to_ascii_lowercase n) = Some w" "m2 w = Some ck"
  using assms unfolding resolve_eq by (auto split: option.splits simp: bind_eq_Some_conv)

lemma certificates_from_snap_origin:
  assumes "certificates_from_snap lib snap h = Some ck"
  obtains b where "b \<in> set (sn_server_tls snap)" "h \<in> set (tb_sni b)" "bundle_certified_key lib b = Some ck"
proof -
  have "ck \<in> set (host_keys lib (sn_server_tls snap) h)"
    using assms by (auto simp: certificates_from_snap_def fold_insert_bundle split: if_splits)
  then show thesis using that by (auto simp: host_keys_origin)
qed

text \<open>
  A handshake with a server name always gets a certificate: the one stored for the
  lower-cased name, else the one stored for the name with its first label replaced by
  a star, else the default; a handshake without a server name gets none.
\<close>

theorem resolve_precedence:
  "resolve m m dflt None = None
   \<and> resolve m m dflt (Some n) = Some
       (case m (to_ascii_lowercase n) of
          Some v \<Rightarrow> v
        | None \<Rightarrow>
            (case Option.bind (wildcard_of (to_ascii_lowercase n)) m of Some v \<Rightarrow> v | None \<Rightarrow> dflt))"
  by (simp add: resolve_eq) (simp add: resolve_def)

lemma lowercase_wildcard:
  assumes "wildcard_of (to_ascii_lowercase n) = Some w"
  shows "to_ascii_lowercase w = w"
proof -
  obtain x rest where d: "dropWhile (\<lambda>c. c \<noteq> CHR ''.'') (to_ascii_lowercase n) = x # rest"
    and w: "w = ''*.'' @ rest"
    using assms by (auto simp: wildcard_of_def split: list.splits)
  have low: "map ascii_lower rest = rest"
  proof (rule map_idI)
    fix c
    assume "c \<in> set rest"
    then have "c \<in> set (dropWhile (\<lambda>c. c \<noteq> CHR ''.'') (to_ascii_lowercase n))" by (simp add: d)
    then have "c \<in> set (to_ascii_lowercase n)" by (blast dest: set_dropWhileD)
    then show "ascii_lower c = c" by (auto simp: to_ascii_lowercase_def)
  qed
  have "map ascii_lower ''*.'' = ''*.''" by code_simp
  then have "map ascii_lower (''*.'' @ rest) = ''*.'' @ rest"
    by (simp only: map_append low)
  then show ?thesis by (simp only: to_ascii_lowercase_def w)
qed

text \<open>
  An entry stored under a name with an upper-case ASCII letter is never used: storing
  or removing it does not change the outcome of any handshake.
\<close>

theorem mixed_case_sni_unused:
  assumes "to_ascii_lowercase h \<noteq> h"
  shows "resolve (m(h := v)) (m(h := v)) dflt server_name = resolve m m dflt server_name"
proof (cases server_name)
  case (Some n)
  have "to_ascii_lowercase n \<noteq> h" using assms by auto
  moreover have "wildcard_of (to_ascii_lowercase n) = Some w \<Longrightarrow> w \<noteq> h" for w
    using assms lowercase_wildcard by auto
  ultimately show ?thesis
    by (simp add: Some resolve_eq split: option.splits) (auto simp: bind_eq_Some_conv)
qed (simp add: resolve_def)

theorem mixed_case_sni_unused_witness:
  "resolve (Map.empty(''Demo.local'' := Some \<lparr>ck_cert = [''c''], ck_key = (1::nat)\<rparr>))
     (Map.empty(''Demo.local'' := Some \<lparr>ck_cert = [''c''], ck_key = 1\<rparr>))
     \<lparr>ck_cert = [''d''], ck_key = 0\<rparr> (Some ''Demo.local'')
   = resolve Map.empty Map.empty \<lparr>ck_cert = [''d''], ck_key = 0\<rparr> (Some ''Demo.local'')"
proof -
  have "to_ascii_lowercase ''Demo.local'' \<noteq> ''Demo.local''" by code_simp
  then show ?thesis by (rule mixed_case_sni_unused)
qed

end
