(* ===== verification/Grpc_Manager.thy ===== *)
theory Grpc_Manager
  imports Inflight Certs Upstream_Request
begin

text \<open>
  \<open>GrpcManager\<close> of \<open>grpc.rs\<close>: the task that watches the controller for snapshots, the
  task that watches the certificate files, and the state they share with the servers.
  The two tasks and the requests of theory \<open>Inflight\<close> are interleaved step by step; every
  access to shared state is a step of its own.  Whether a connection attempt, the watch
  call or the stream succeeds, and what files contain, is left open.
\<close>

section \<open>Certificate files\<close>

definition bytes_eq :: "string \<Rightarrow> string \<Rightarrow> bool" where
  "bytes_eq a b \<longleftrightarrow> a = b"

text \<open>
  \<open>contents\<close> is the result of reading the file, \<open>None\<close> an error; the result is that of the
  source, \<open>None\<close> for \<open>Err(())\<close>, and the new contents of \<open>target\<close>.
\<close>

definition try_load_and_store :: "string option \<Rightarrow> string \<Rightarrow> bool option \<times> string" where
  "try_load_and_store contents target =
     (case contents of
        Some new_bytes \<Rightarrow>
          if new_bytes \<noteq> [] then
            (if \<not> bytes_eq new_bytes target then (Some True, new_bytes) else (Some False, target))
          else (Some False, target)
      | None \<Rightarrow> (None, target))"

text \<open>\<open>Notify::notify_one\<close> when the load changed something: at most one permit is stored.\<close>

definition notify_if :: "bool option \<Rightarrow> bool \<Rightarrow> bool" where
  "notify_if changed permit = (changed = Some True \<or> permit)"

section \<open>Connecting\<close>

text \<open>
  The checks of \<open>connect_fut\<close> before the channel is opened: \<open>Inr\<close> is the host name TLS
  verifies.
\<close>

definition connect_checks ::
  "('h, 'u) http_lib \<Rightarrow> string \<Rightarrow> string \<Rightarrow> string \<Rightarrow> string \<Rightarrow> string + string" where
  "connect_checks lib controller_addr ca_cert client_cert client_key =
     (if ca_cert = [] then Inl ''CA certificate is not available yet''
      else if client_cert = [] \<or> client_key = [] then Inl ''Client certificate/key is not available yet''
      else case uri_from_str lib controller_addr of
        None \<Rightarrow> Inl ''controller address is not a valid URI''
      | Some uri \<Rightarrow>
          (case uri_host lib uri of
             None \<Rightarrow> Inl ''controller address is missing host component''
           | Some host \<Rightarrow> Inr host))"

definition backoff_init :: u64 where "backoff_init = 500"

definition backoff_max :: u64 where "backoff_max = 10000"

definition next_backoff :: "u64 \<Rightarrow> u64" where
  "next_backoff backoff_ms = min (saturating_mul backoff_ms 2) backoff_max"

section \<open>The state machine\<close>

text \<open>
  Where the stream task is: at the head of its loop, loading the key material, dialling
  with what it loaded, opening the watch stream, reading it, applying a snapshot to the
  routing table and then to the certificates, sleeping, or done.
\<close>

datatype phase =
    Loop_Head
  | Load_Client string
  | Load_Key string string
  | Dialing string string string
  | Opening
  | Streaming bool
  | Write_Table snapshot
  | Write_Sni snapshot
  | Backing_Off
  | Stopped

datatype watcher = Watch_Sleep | Watch_Client | Watch_Key | Watch_Stopped

datatype cause = Connect_Failed | Watch_Failed | Stream_Lost

text \<open>
  The last three fields are history: the snapshots received, the sleeps, latest first,
  and the reconnects that a change of the CA forced.
\<close>

record ('d, 'k) manager =
  gm_phase :: phase
  gm_watcher :: watcher
  gm_backoff :: u64
  gm_cancelled :: bool
  gm_ready :: bool
  gm_snapshot :: snapshot
  gm_plane :: "'d plane"
  gm_sni :: "'k sni_map"
  gm_ca :: string
  gm_client :: string
  gm_key :: string
  gm_ca_updated :: bool
  gm_client_updated :: bool
  gm_received :: "snapshot list"
  gm_sleeps :: "(cause \<times> u64) list"
  gm_ca_reconnects :: nat

definition manager_init :: "('d, 'k) manager" where
  "manager_init =
     \<lparr>gm_phase = Loop_Head, gm_watcher = Watch_Sleep, gm_backoff = backoff_init, gm_cancelled = False,
      gm_ready = False, gm_snapshot = snapshot_default, gm_plane = plane_init, gm_sni = Map.empty,
      gm_ca = [], gm_client = [], gm_key = [], gm_ca_updated = False, gm_client_updated = False,
      gm_received = [], gm_sleeps = [], gm_ca_reconnects = 0\<rparr>"

text \<open>Every failure sleeps for the current delay.\<close>

definition back_off :: "cause \<Rightarrow> ('d, 'k) manager \<Rightarrow> ('d, 'k) manager" where
  "back_off c m = m\<lparr>gm_phase := Backing_Off, gm_sleeps := (c, gm_backoff m) # gm_sleeps m\<rparr>"

text \<open>
  The stream task.  A failed connection attempt includes the one that times out after ten
  seconds.  \<open>open_ok\<close> and \<open>open_failed\<close> are the two answers to the call of \<open>watch\<close>: it has no
  timeout and does not look at the cancellation, so without an answer the task stays in
  \<open>Opening\<close>.
\<close>

inductive stream_step ::
  "'d counters \<Rightarrow> ('h, 'u) http_lib \<Rightarrow> 'k pem_lib \<Rightarrow> string \<Rightarrow> ('d, 'k) manager \<Rightarrow> ('d, 'k) manager \<Rightarrow> bool"
  for dm lib pem controller_addr where
  head_stop: "gm_phase m = Loop_Head \<Longrightarrow> gm_cancelled m \<Longrightarrow>
    stream_step dm lib pem controller_addr m (m\<lparr>gm_phase := Stopped\<rparr>)"
| load_ca: "gm_phase m = Loop_Head \<Longrightarrow> \<not> gm_cancelled m \<Longrightarrow>
    stream_step dm lib pem controller_addr m (m\<lparr>gm_phase := Load_Client (gm_ca m)\<rparr>)"
| load_client: "gm_phase m = Load_Client ca \<Longrightarrow>
    stream_step dm lib pem controller_addr m (m\<lparr>gm_phase := Load_Key ca (gm_client m)\<rparr>)"
| load_key: "gm_phase m = Load_Key ca client \<Longrightarrow>
    stream_step dm lib pem controller_addr m (m\<lparr>gm_phase := Dialing ca client (gm_key m)\<rparr>)"
| dial_ok: "gm_phase m = Dialing ca client key \<Longrightarrow>
    connect_checks lib controller_addr ca client key = Inr host \<Longrightarrow>
    stream_step dm lib pem controller_addr m (m\<lparr>gm_phase := Opening, gm_backoff := backoff_init\<rparr>)"
| dial_failed: "gm_phase m = Dialing ca client key \<Longrightarrow>
    stream_step dm lib pem controller_addr m (back_off Connect_Failed m)"
| open_ok: "gm_phase m = Opening \<Longrightarrow>
    stream_step dm lib pem controller_addr m (m\<lparr>gm_phase := Streaming False, gm_ready := True\<rparr>)"
| open_failed: "gm_phase m = Opening \<Longrightarrow>
    stream_step dm lib pem controller_addr m (back_off Watch_Failed m)"
| stream_cancelled: "gm_phase m = Streaming got_first \<Longrightarrow> gm_cancelled m \<Longrightarrow>
    stream_step dm lib pem controller_addr m (m\<lparr>gm_phase := Stopped\<rparr>)"
| ca_changed: "gm_phase m = Streaming got_first \<Longrightarrow> gm_ca_updated m \<Longrightarrow>
    stream_step dm lib pem controller_addr m
      ((back_off Stream_Lost m)\<lparr>gm_ca_updated := False, gm_ca_reconnects := Suc (gm_ca_reconnects m)\<rparr>)"
| client_changed: "gm_phase m = Streaming got_first \<Longrightarrow> gm_client_updated m \<Longrightarrow>
    stream_step dm lib pem controller_addr m ((back_off Stream_Lost m)\<lparr>gm_client_updated := False\<rparr>)"
| message: "gm_phase m = Streaming got_first \<Longrightarrow>
    stream_step dm lib pem controller_addr m
      (m\<lparr>gm_phase := Write_Table snap, gm_snapshot := snap, gm_received := gm_received m @ [snap]\<rparr>)"
| stream_ended: "gm_phase m = Streaming got_first \<Longrightarrow>
    stream_step dm lib pem controller_addr m (back_off Stream_Lost m)"
| write_table: "gm_phase m = Write_Table snap \<Longrightarrow> pl_selected (gm_plane m) = {#} \<Longrightarrow>
    stream_step dm lib pem controller_addr m
      (m\<lparr>gm_phase := Write_Sni snap,
         gm_plane := plane_update dm (header_name_from_bytes lib) snap (gm_plane m)\<rparr>)"
| write_sni: "gm_phase m = Write_Sni snap \<Longrightarrow>
    stream_step dm lib pem controller_addr m
      (m\<lparr>gm_phase := Streaming True, gm_sni := certificates_from_snap pem snap\<rparr>)"
| wake: "gm_phase m = Backing_Off \<Longrightarrow>
    stream_step dm lib pem controller_addr m
      (m\<lparr>gm_phase := Loop_Head, gm_backoff := next_backoff (gm_backoff m)\<rparr>)"

text \<open>The certificate task: every two seconds the three files, one after the other.\<close>

inductive watcher_step :: "('d, 'k) manager \<Rightarrow> ('d, 'k) manager \<Rightarrow> bool" where
  watch_stop: "gm_watcher m = Watch_Sleep \<Longrightarrow> gm_cancelled m \<Longrightarrow>
    watcher_step m (m\<lparr>gm_watcher := Watch_Stopped\<rparr>)"
| watch_ca: "gm_watcher m = Watch_Sleep \<Longrightarrow> try_load_and_store contents (gm_ca m) = (changed, target) \<Longrightarrow>
    watcher_step m
      (m\<lparr>gm_watcher := Watch_Client, gm_ca := target, gm_ca_updated := notify_if changed (gm_ca_updated m)\<rparr>)"
| watch_client: "gm_watcher m = Watch_Client \<Longrightarrow> try_load_and_store contents (gm_client m) = (changed, target) \<Longrightarrow>
    watcher_step m
      (m\<lparr>gm_watcher := Watch_Key, gm_client := target,
         gm_client_updated := notify_if changed (gm_client_updated m)\<rparr>)"
| watch_key: "gm_watcher m = Watch_Key \<Longrightarrow> try_load_and_store contents (gm_key m) = (changed, target) \<Longrightarrow>
    watcher_step m
      (m\<lparr>gm_watcher := Watch_Sleep, gm_key := target,
         gm_client_updated := notify_if changed (gm_client_updated m)\<rparr>)"

text \<open>\<open>shutdown\<close> cancels and joins the two tasks; \<open>is_ready\<close> and \<open>latest_snapshot\<close> read the shared state.\<close>

definition cancel :: "('d, 'k) manager \<Rightarrow> ('d, 'k) manager" where
  "cancel m = m\<lparr>gm_cancelled := True\<rparr>"

definition joined :: "('d, 'k) manager \<Rightarrow> bool" where
  "joined m \<longleftrightarrow> gm_phase m = Stopped \<and> gm_watcher m = Watch_Stopped"

definition is_ready :: "('d, 'k) manager \<Rightarrow> bool" where
  "is_ready m = gm_ready m"

definition latest_snapshot :: "('d, 'k) manager \<Rightarrow> snapshot" where
  "latest_snapshot m = gm_snapshot m"

inductive manager_step ::
  "'d counters \<Rightarrow> ('h, 'u) http_lib \<Rightarrow> 'k pem_lib \<Rightarrow> string \<Rightarrow> ('d, 'k) manager \<Rightarrow> ('d, 'k) manager \<Rightarrow> bool"
  for dm lib pem controller_addr where
  stream_task: "stream_step dm lib pem controller_addr m n \<Longrightarrow> manager_step dm lib pem controller_addr m n"
| watcher_task: "watcher_step m n \<Longrightarrow> manager_step dm lib pem controller_addr m n"
| request_task: "request_step dm (gm_plane m) p \<Longrightarrow> manager_step dm lib pem controller_addr m (m\<lparr>gm_plane := p\<rparr>)"
| shutdown: "manager_step dm lib pem controller_addr m (cancel m)"

inductive manager_reachable ::
  "'d counters \<Rightarrow> ('h, 'u) http_lib \<Rightarrow> 'k pem_lib \<Rightarrow> string \<Rightarrow> ('d, 'k) manager \<Rightarrow> bool"
  for dm lib pem controller_addr where
  start: "manager_reachable dm lib pem controller_addr manager_init"
| run: "manager_reachable dm lib pem controller_addr m \<Longrightarrow> manager_step dm lib pem controller_addr m n \<Longrightarrow>
    manager_reachable dm lib pem controller_addr n"

section \<open>Invariants\<close>

text \<open>The contract of an invariant: it holds at the start and every task keeps it.\<close>

locale manager_invariant =
  fixes dm :: "'d counters" and lib :: "('h, 'u) http_lib" and pem :: "'k pem_lib" and controller_addr :: string
    and inv :: "('d, 'k) manager \<Rightarrow> bool"
  assumes inv_init: "inv manager_init"
    and inv_stream: "stream_step dm lib pem controller_addr m n \<Longrightarrow> inv m \<Longrightarrow> inv n"
    and inv_watcher: "watcher_step m n \<Longrightarrow> inv m \<Longrightarrow> inv n"
    and inv_request: "request_step dm (gm_plane m) p \<Longrightarrow> inv m \<Longrightarrow> inv (m\<lparr>gm_plane := p\<rparr>)"
    and inv_cancel: "inv m \<Longrightarrow> inv (cancel m)"
begin

lemma always: "manager_reachable dm lib pem controller_addr m \<Longrightarrow> inv m"
proof (induction rule: manager_reachable.induct)
  case start
  show ?case by (rule inv_init)
next
  case (run m n)
  from run(2) show ?case
    by (cases rule: manager_step.cases) (use run(3) inv_stream inv_watcher inv_request inv_cancel in blast)+
qed

end

lemma watcher_frame:
  "watcher_step m n \<Longrightarrow> gm_phase n = gm_phase m \<and> gm_backoff n = gm_backoff m \<and> gm_ready n = gm_ready m
     \<and> gm_snapshot n = gm_snapshot m \<and> gm_plane n = gm_plane m \<and> gm_sni n = gm_sni m
     \<and> gm_received n = gm_received m \<and> gm_sleeps n = gm_sleeps m \<and> gm_ca_reconnects n = gm_ca_reconnects m"
  by (erule watcher_step.cases) simp_all

subsection \<open>The data plane\<close>

interpretation plane_inv: manager_invariant dm lib pem controller_addr
  "\<lambda>m. plane_reachable dm (header_name_from_bytes lib) (gm_plane m)"
  for dm lib pem controller_addr
proof
  fix m n :: "('a, 'd) manager"
  assume "stream_step dm lib pem controller_addr m n" "plane_reachable dm (header_name_from_bytes lib) (gm_plane m)"
  then show "plane_reachable dm (header_name_from_bytes lib) (gm_plane n)"
    by (cases rule: stream_step.cases) (auto simp: back_off_def intro: reach_step update)
qed (auto simp: manager_init_def cancel_def watcher_frame intro: reach_init reach_step request)

text \<open>
  The manager drives the data plane by its rules.  In every reachable state of the
  whole system the tables, counters and requests form a reachable state of the data
  plane, so that every guarantee about the counters holds while snapshots arrive.
\<close>

theorem manager_refines_plane:
  assumes "manager_reachable dm lib pem controller_addr m"
  shows "plane_reachable dm (header_name_from_bytes lib) (gm_plane m)"
  using assms by (rule plane_inv.always)

subsection \<open>The configuration served\<close>

definition latest :: "('d, 'k) manager \<Rightarrow> snapshot" where
  "latest m = last (snapshot_default # gm_received m)"

definition previous :: "('d, 'k) manager \<Rightarrow> snapshot" where
  "previous m = last (snapshot_default # butlast (gm_received m))"

definition table_from :: "'d counters \<Rightarrow> ('h, 'u) http_lib \<Rightarrow> snapshot \<Rightarrow> 'd route_table \<Rightarrow> bool" where
  "table_from dm lib snap t \<longleftrightarrow> (\<exists>s. t = fst (route_table_new dm (header_name_from_bytes lib) snap s))"

definition table_source :: "('d, 'k) manager \<Rightarrow> snapshot" where
  "table_source m = (case gm_phase m of Write_Table _ \<Rightarrow> previous m | _ \<Rightarrow> latest m)"

definition sni_source :: "('d, 'k) manager \<Rightarrow> snapshot" where
  "sni_source m = (case gm_phase m of Write_Table _ \<Rightarrow> previous m | Write_Sni _ \<Rightarrow> previous m | _ \<Rightarrow> latest m)"

definition config_inv ::
  "'d counters \<Rightarrow> ('h, 'u) http_lib \<Rightarrow> 'k pem_lib \<Rightarrow> ('d, 'k) manager \<Rightarrow> bool" where
  "config_inv dm lib pem m \<longleftrightarrow>
     gm_snapshot m = latest m
     \<and> table_from dm lib (table_source m) (pl_table (gm_plane m))
     \<and> gm_sni m = certificates_from_snap pem (sni_source m)
     \<and> (case gm_phase m of Write_Table snap \<Rightarrow> snap = latest m | Write_Sni snap \<Rightarrow> snap = latest m | _ \<Rightarrow> True)"

lemma sni_source_received: "sni_source m \<noteq> snapshot_default \<Longrightarrow> sni_source m \<in> set (gm_received m)"
  by (auto simp: sni_source_def latest_def previous_def split: phase.splits if_splits
      dest: in_set_butlastD last_in_set)

lemma table_from_default: "table_from dm lib snapshot_default route_table_default"
  unfolding table_from_def
  by (intro exI [of _ store_init])
    (simp add: route_table_new_def build_clusters_def snapshot_default_def route_table_default_def
      build_routes_def build_buckets_def Let_def)

lemma certificates_default: "certificates_from_snap pem snapshot_default = Map.empty"
  by (simp add: certificates_from_snap_def snapshot_default_def)

lemma pl_table_update:
  "pl_table (plane_update dm fb snap p) = fst (route_table_new dm fb snap (pl_store p))"
  by (simp add: plane_update_def split_def Let_def)

lemma config_frame:
  assumes "gm_phase n = gm_phase m" "gm_snapshot n = gm_snapshot m" "gm_received n = gm_received m"
    "gm_sni n = gm_sni m" "pl_table (gm_plane n) = pl_table (gm_plane m)"
  shows "config_inv dm lib pem n \<longleftrightarrow> config_inv dm lib pem m"
proof -
  have "latest n = latest m" "previous n = previous m"
    using assms(3) by (simp_all add: latest_def previous_def)
  then show ?thesis
    using assms by (simp add: config_inv_def table_source_def sni_source_def cong: phase.case_cong)
qed

interpretation config: manager_invariant dm lib pem controller_addr "config_inv dm lib pem"
  for dm lib pem controller_addr
proof
  fix m n :: "('a, 'd) manager"
  assume "stream_step dm lib pem controller_addr m n" "config_inv dm lib pem m"
  then show "config_inv dm lib pem n"
    by (cases rule: stream_step.cases)
      (auto simp: config_inv_def back_off_def latest_def previous_def table_source_def sni_source_def
        pl_table_update table_from_def)
next
  fix m :: "('a, 'd) manager" and p
  assume "request_step dm (gm_plane m) p" "config_inv dm lib pem m"
  then show "config_inv dm lib pem (m\<lparr>gm_plane := p\<rparr>)"
    by (subst config_frame [of _ m]) (simp_all add: request_step_table)
next
  fix m n :: "('a, 'd) manager"
  assume "watcher_step m n" "config_inv dm lib pem m"
  then show "config_inv dm lib pem n"
    by (subst config_frame [of _ m]) (simp_all add: watcher_frame [of m n])
next
  fix m :: "('a, 'd) manager"
  assume "config_inv dm lib pem m"
  then show "config_inv dm lib pem (cancel m)"
    by (subst config_frame [of _ m]) (simp_all add: cancel_def)
qed (simp_all add: config_inv_def manager_init_def latest_def previous_def table_source_def sni_source_def
  plane_init_def table_from_default certificates_default)

text \<open>
  C10: the proxy serves the last snapshot it received, through every loss of the
  controller.  The stored snapshot is the last one received, or the empty one; the routing
  table is built from it except while it waits for the table's lock, and the certificates
  are read from it except until they are stored; in between they are those of the
  snapshot before.
\<close>

theorem serves_last_snapshot:
  assumes "manager_reachable dm lib pem controller_addr m"
  shows "gm_snapshot m = latest m
    \<and> table_from dm lib (table_source m) (pl_table (gm_plane m))
    \<and> gm_sni m = certificates_from_snap pem (sni_source m)"
  using config.always [OF assms] by (simp add: config_inv_def)

subsection \<open>The delays\<close>

text \<open>The sleeps since the last successful connection, given the causes of all sleeps, latest first.\<close>

fun failures :: "cause list \<Rightarrow> nat" where
  "failures [] = 0"
| "failures (c # cs) = (if c = Connect_Failed then Suc (failures cs) else 1)"

definition delay_after :: "cause list \<Rightarrow> nat" where
  "delay_after cs = min (500 * 2 ^ failures cs) 10000"

fun scheduled :: "(cause \<times> u64) list \<Rightarrow> bool" where
  "scheduled [] \<longleftrightarrow> True"
| "scheduled ((c, ms) # xs) \<longleftrightarrow>
     unat ms = (if c = Connect_Failed then delay_after (map fst xs) else 500) \<and> scheduled xs"

definition backoff_inv :: "('d, 'k) manager \<Rightarrow> bool" where
  "backoff_inv m \<longleftrightarrow>
     scheduled (gm_sleeps m)
     \<and> (case gm_phase m of
          Opening \<Rightarrow> gm_backoff m = backoff_init
        | Streaming _ \<Rightarrow> gm_backoff m = backoff_init
        | Write_Table _ \<Rightarrow> gm_backoff m = backoff_init
        | Write_Sni _ \<Rightarrow> gm_backoff m = backoff_init
        | Backing_Off \<Rightarrow> gm_sleeps m \<noteq> [] \<and> gm_backoff m = snd (hd (gm_sleeps m))
        | Stopped \<Rightarrow> True
        | _ \<Rightarrow> unat (gm_backoff m) = delay_after (map fst (gm_sleeps m)))"

lemma unat_next_backoff:
  assumes "unat b \<le> 10000"
  shows "unat (next_backoff b) = min (2 * unat b) 10000"
proof -
  have "unat (b * 2) = unat b * 2"
    using assms by (subst unat_mult_lem [THEN iffD1]) (simp_all add: unat_word_ariths)
  then have "unat (saturating_mul b 2) = 2 * unat b"
    using assms by (simp add: saturating_mul_def)
  then show ?thesis
    by (simp add: next_backoff_def backoff_max_def min_def word_le_nat_alt)
qed

lemma next_delay: "min (2 * delay_after cs) 10000 = min (500 * 2 ^ Suc (failures cs)) 10000"
  by (auto simp: delay_after_def min_def)

lemma unat_backoff_init: "unat backoff_init = 500"
  by (simp add: backoff_init_def)

lemma scheduled_wake:
  assumes "scheduled xs" "xs \<noteq> []"
  shows "unat (next_backoff (snd (hd xs))) = delay_after (map fst xs)"
proof -
  obtain c ms ys where xs: "xs = (c, ms) # ys" using assms(2) by (cases xs) auto
  then have ms: "unat ms = (if c = Connect_Failed then delay_after (map fst ys) else 500)"
    using assms(1) by simp
  moreover have "unat ms \<le> 10000" using ms by (simp add: delay_after_def)
  ultimately show ?thesis
    using next_delay [of "map fst ys"] by (simp add: xs unat_next_backoff delay_after_def)
qed

interpretation backoff: manager_invariant dm lib pem controller_addr backoff_inv
  for dm lib pem controller_addr
proof
  fix m n :: "('a, 'd) manager"
  assume "stream_step dm lib pem controller_addr m n" "backoff_inv m"
  then show "backoff_inv n"
    by (cases rule: stream_step.cases)
      (auto simp: backoff_inv_def back_off_def unat_backoff_init scheduled_wake)
next
  fix m n :: "('a, 'd) manager"
  assume "watcher_step m n" "backoff_inv m"
  then show "backoff_inv n"
    by (simp add: backoff_inv_def watcher_frame [of m n] cong: phase.case_cong)
qed (simp_all add: backoff_inv_def manager_init_def cancel_def unat_backoff_init delay_after_def cong: phase.case_cong)

text \<open>
  C38: the reconnect schedule.  A sleep after a failed connection attempt lasts
  \<open>500 * 2^k\<close> milliseconds, at most ten seconds, where \<open>k\<close> is the number of sleeps since a
  connection last succeeded; a sleep after a failed watch call or a lost stream always
  lasts 500 milliseconds.
\<close>

theorem backoff_schedule:
  assumes "manager_reachable dm lib pem controller_addr m"
  shows "scheduled (gm_sleeps m)"
  using backoff.always [OF assms] by (simp add: backoff_inv_def)

subsection \<open>Readiness\<close>

definition connected :: "phase \<Rightarrow> bool" where
  "connected ph \<longleftrightarrow> (case ph of Streaming _ \<Rightarrow> True | Write_Table _ \<Rightarrow> True | Write_Sni _ \<Rightarrow> True | _ \<Rightarrow> False)"

interpretation readiness: manager_invariant dm lib pem controller_addr
  "\<lambda>m. connected (gm_phase m) \<or> gm_received m \<noteq> [] \<longrightarrow> gm_ready m"
  for dm lib pem controller_addr
proof
  fix m n :: "('a, 'd) manager"
  assume "stream_step dm lib pem controller_addr m n"
    "connected (gm_phase m) \<or> gm_received m \<noteq> [] \<longrightarrow> gm_ready m"
  then show "connected (gm_phase n) \<or> gm_received n \<noteq> [] \<longrightarrow> gm_ready n"
    by (cases rule: stream_step.cases) (auto simp: connected_def back_off_def)
qed (auto simp: manager_init_def cancel_def connected_def watcher_frame)

lemma stream_keeps_ready: "stream_step dm lib pem addr m n \<Longrightarrow> gm_ready m \<Longrightarrow> gm_ready n"
  by (erule stream_step.cases) (simp_all add: back_off_def)

text \<open>
  Readiness.  The proxy is ready whenever a stream is open or a snapshot has been
  received, and once ready it stays ready whatever happens to the controller.
\<close>

theorem readiness_spec:
  assumes "manager_reachable dm lib pem controller_addr m" and "manager_step dm lib pem controller_addr m n"
  shows "(connected (gm_phase m) \<or> gm_received m \<noteq> [] \<longrightarrow> gm_ready m) \<and> (gm_ready m \<longrightarrow> gm_ready n)"
proof
  show "connected (gm_phase m) \<or> gm_received m \<noteq> [] \<longrightarrow> gm_ready m"
    using assms(1) by (rule readiness.always)
  show "gm_ready m \<longrightarrow> gm_ready n"
    using assms(2) by (cases rule: manager_step.cases) (auto dest: stream_keeps_ready simp: watcher_frame cancel_def)
qed

subsection \<open>Key material\<close>

lemma try_load_nonempty: "try_load_and_store c t = (ch, t') \<Longrightarrow> t \<noteq> [] \<Longrightarrow> t' \<noteq> []"
  by (auto simp: try_load_and_store_def split: option.splits if_splits)

lemma try_load_first: "try_load_and_store c t = (ch, t') \<Longrightarrow> t' \<noteq> [] \<Longrightarrow> t \<noteq> [] \<or> ch = Some True"
  by (auto simp: try_load_and_store_def bytes_eq_def split: option.splits if_splits)

text \<open>What has been loaded is still there: the watcher never stores empty contents.\<close>

definition keys_inv :: "('d, 'k) manager \<Rightarrow> bool" where
  "keys_inv m \<longleftrightarrow>
     (case gm_phase m of
        Load_Client ca \<Rightarrow> ca \<noteq> [] \<longrightarrow> gm_ca m \<noteq> []
      | Load_Key ca cl \<Rightarrow> (ca \<noteq> [] \<longrightarrow> gm_ca m \<noteq> []) \<and> (cl \<noteq> [] \<longrightarrow> gm_client m \<noteq> [])
      | Dialing ca cl key \<Rightarrow>
          (ca \<noteq> [] \<longrightarrow> gm_ca m \<noteq> []) \<and> (cl \<noteq> [] \<longrightarrow> gm_client m \<noteq> []) \<and> (key \<noteq> [] \<longrightarrow> gm_key m \<noteq> [])
      | ph \<Rightarrow> connected ph \<or> ph = Opening \<longrightarrow> gm_ca m \<noteq> [] \<and> gm_client m \<noteq> [] \<and> gm_key m \<noteq> [])
     \<and> (gm_ca m \<noteq> [] \<longrightarrow> gm_ca_updated m \<or> gm_ca_reconnects m \<noteq> 0)"

lemma connect_checks_Inr:
  "connect_checks lib addr ca cl key = Inr host \<Longrightarrow> ca \<noteq> [] \<and> cl \<noteq> [] \<and> key \<noteq> []"
  by (auto simp: connect_checks_def split: if_splits)

lemma keys_inv_stream:
  assumes "stream_step dm lib pem addr m n" "keys_inv m"
  shows "keys_inv n"
  using assms
  by (cases rule: stream_step.cases)
    (auto simp: keys_inv_def back_off_def connected_def dest: connect_checks_Inr)

lemma keys_inv_watcher:
  assumes "watcher_step m n" "keys_inv m"
  shows "keys_inv n"
  using assms
  by (cases rule: watcher_step.cases)
    (auto simp: keys_inv_def notify_if_def split: phase.splits dest: try_load_nonempty try_load_first)

interpretation keys: manager_invariant dm lib pem controller_addr keys_inv
  for dm lib pem controller_addr
proof
  show "stream_step dm lib pem controller_addr m n \<Longrightarrow> keys_inv m \<Longrightarrow> keys_inv n" for m n :: "('a, 'd) manager"
    by (rule keys_inv_stream)
  show "watcher_step m n \<Longrightarrow> keys_inv m \<Longrightarrow> keys_inv n" for m n :: "('a, 'd) manager"
    by (rule keys_inv_watcher)
qed (simp_all add: keys_inv_def manager_init_def cancel_def connected_def cong: phase.case_cong)

text \<open>
  A stream is only ever open with key material, and the first one does not last.
  While the watch stream is open, a CA, a client certificate and a client key have been
  loaded; and unless a change of the CA has already forced a reconnect, one is pending,
  because the first load of the CA counts as a change.
\<close>

theorem first_stream_reconnects:
  assumes "manager_reachable dm lib pem controller_addr m" and "connected (gm_phase m)"
  shows "gm_ca m \<noteq> [] \<and> gm_client m \<noteq> [] \<and> gm_key m \<noteq> []
    \<and> (gm_ca_reconnects m = 0 \<longrightarrow> gm_ca_updated m)"
  using keys.always [OF assms(1)] assms(2) by (auto simp: keys_inv_def connected_def split: phase.splits)

section \<open>Shutting down\<close>

text \<open>The steps the stream task still makes once it is cancelled, if no snapshot arrives.\<close>

fun stop_rank :: "phase \<Rightarrow> nat" where
  "stop_rank Stopped = 0"
| "stop_rank Loop_Head = 1"
| "stop_rank Backing_Off = 2"
| "stop_rank (Streaming _) = 3"
| "stop_rank (Write_Sni _) = 4"
| "stop_rank (Write_Table _) = 5"
| "stop_rank Opening = 4"
| "stop_rank (Dialing _ _ _) = 5"
| "stop_rank (Load_Key _ _) = 6"
| "stop_rank (Load_Client _) = 7"

lemma stop_rank_le: "stop_rank ph \<le> 7"
  by (cases ph) simp_all

text \<open>A run with \<open>n\<close> steps of the stream task, among any steps of the other tasks.\<close>

inductive shutdown_run ::
  "'d counters \<Rightarrow> ('h, 'u) http_lib \<Rightarrow> 'k pem_lib \<Rightarrow> string \<Rightarrow> nat \<Rightarrow> ('d, 'k) manager \<Rightarrow> ('d, 'k) manager \<Rightarrow> bool"
  for dm lib pem controller_addr where
  shut_start: "shutdown_run dm lib pem controller_addr 0 m m"
| shut_stream: "shutdown_run dm lib pem controller_addr n m m1 \<Longrightarrow> stream_step dm lib pem controller_addr m1 m2 \<Longrightarrow>
    shutdown_run dm lib pem controller_addr (Suc n) m m2"
| shut_watcher: "shutdown_run dm lib pem controller_addr n m m1 \<Longrightarrow> watcher_step m1 m2 \<Longrightarrow>
    shutdown_run dm lib pem controller_addr n m m2"
| shut_request: "shutdown_run dm lib pem controller_addr n m m1 \<Longrightarrow> request_step dm (gm_plane m1) p \<Longrightarrow>
    shutdown_run dm lib pem controller_addr n m (m1\<lparr>gm_plane := p\<rparr>)"

lemma watcher_cancelled: "watcher_step m n \<Longrightarrow> gm_cancelled n = gm_cancelled m"
  by (erule watcher_step.cases) simp_all

lemma stream_cancelled_rank:
  assumes "stream_step dm lib pem addr m n" "gm_cancelled m"
  shows "gm_cancelled n"
    and "Suc (stop_rank (gm_phase n)) + 3 * length (gm_received m)
      \<le> stop_rank (gm_phase m) + 3 * length (gm_received n)"
  using assms by (cases rule: stream_step.cases; simp add: back_off_def)+

lemma shutdown_run_rank:
  assumes "shutdown_run dm lib pem addr n m m'" "gm_cancelled m"
  shows "gm_cancelled m' \<and> n + stop_rank (gm_phase m') + 3 * length (gm_received m)
    \<le> stop_rank (gm_phase m) + 3 * length (gm_received m')"
  using assms
proof (induction rule: shutdown_run.induct)
  case (shut_stream n m m1 m2)
  with stream_cancelled_rank [OF shut_stream(2)] show ?case by simp
qed (auto simp: watcher_frame watcher_cancelled)

lemma cancelled_progress:
  assumes "gm_cancelled m" "gm_phase m \<noteq> Stopped" "pl_selected (gm_plane m) = {#}"
  obtains m' where "stream_step dm lib pem addr m m'" "stop_rank (gm_phase m') < stop_rank (gm_phase m)"
    "gm_plane m' = gm_plane m \<or> (\<exists>snap. gm_plane m' = plane_update dm (header_name_from_bytes lib) snap (gm_plane m))"
    "gm_watcher m' = gm_watcher m"
proof (cases "gm_phase m")
  case Loop_Head
  from that [OF head_stop [OF this assms(1)]] Loop_Head show thesis by simp
next
  case (Load_Client ca)
  from that [OF load_client [OF this]] Load_Client show thesis by simp
next
  case (Load_Key ca cl)
  from that [OF load_key [OF this]] Load_Key show thesis by simp
next
  case (Dialing ca cl key)
  from that [OF dial_failed [OF this]] Dialing show thesis by (simp add: back_off_def)
next
  case Opening
  from that [OF open_failed [OF this]] Opening show thesis by (simp add: back_off_def)
next
  case (Streaming got)
  from that [OF stream_cancelled [OF this assms(1)]] Streaming show thesis by simp
next
  case (Write_Table snap)
  from that [OF write_table [OF this assms(3)]] Write_Table show thesis by auto
next
  case (Write_Sni snap)
  from that [OF write_sni [OF this]] Write_Sni show thesis by simp
next
  case Backing_Off
  from that [OF wake [OF this]] Backing_Off show thesis by simp
next
  case Stopped
  with assms(2) show thesis by simp
qed

text \<open>
  A step that needs no answer of the controller: a connection attempt is given up after its
  timeout, and a stream is left because of the cancellation; the call of \<open>watch\<close> has no such
  step.
\<close>

definition unaided :: "('d, 'k) manager \<Rightarrow> ('d, 'k) manager \<Rightarrow> bool" where
  "unaided m n \<longleftrightarrow>
     (case gm_phase m of
        Opening \<Rightarrow> False
      | Dialing _ _ _ \<Rightarrow> gm_phase n = Backing_Off
      | Streaming _ \<Rightarrow> gm_phase n = Stopped
      | _ \<Rightarrow> True)"

lemma cancelled_unaided:
  assumes "gm_cancelled m" "gm_phase m \<noteq> Stopped" "gm_phase m \<noteq> Opening"
    "\<And>snap. gm_phase m = Write_Table snap \<Longrightarrow> pl_selected (gm_plane m) = {#}"
  obtains m' where "stream_step dm lib pem addr m m'" "unaided m m'" "stop_rank (gm_phase m') < stop_rank (gm_phase m)"
proof (cases "gm_phase m")
  case Loop_Head
  from that [OF head_stop [OF this assms(1)]] Loop_Head show thesis by (simp add: unaided_def)
next
  case (Load_Client ca)
  from that [OF load_client [OF this]] Load_Client show thesis by (simp add: unaided_def)
next
  case (Load_Key ca cl)
  from that [OF load_key [OF this]] Load_Key show thesis by (simp add: unaided_def)
next
  case (Dialing ca cl key)
  from that [OF dial_failed [OF this]] Dialing show thesis by (simp add: unaided_def back_off_def)
next
  case (Streaming got)
  from that [OF stream_cancelled [OF this assms(1)]] Streaming show thesis by (simp add: unaided_def)
next
  case (Write_Table snap)
  from that [OF write_table [OF this assms(4) [OF this]]] Write_Table show thesis by (simp add: unaided_def)
next
  case (Write_Sni snap)
  from that [OF write_sni [OF this]] Write_Sni show thesis by (simp add: unaided_def)
next
  case Backing_Off
  from that [OF wake [OF this]] Backing_Off show thesis by (simp add: unaided_def)
qed (use assms(2,3) in simp_all)

text \<open>
  C15: cancellation ends the stream task, unless the controller does not answer.  From the
  moment it is cancelled the stream task makes at most seven steps, and three more for
  every snapshot that still arrives.  Until it has stopped it waits for the answer to its
  call of \<open>watch\<close>, or for a request that holds the read lock of the table, or it has a step
  to make that needs no answer of the controller and brings it closer to its end.
\<close>

theorem shutdown_bounded:
  assumes "gm_cancelled m" and "shutdown_run dm lib pem controller_addr n m m'"
  shows "n \<le> 7 + 3 * (length (gm_received m') - length (gm_received m))
    \<and> (gm_phase m' = Stopped \<or> gm_phase m' = Opening
        \<or> (\<exists>snap. gm_phase m' = Write_Table snap) \<and> pl_selected (gm_plane m') \<noteq> {#}
        \<or> (\<exists>m2. stream_step dm lib pem controller_addr m' m2 \<and> unaided m' m2
              \<and> stop_rank (gm_phase m2) < stop_rank (gm_phase m')))"
proof -
  have "n \<le> 7 + 3 * (length (gm_received m') - length (gm_received m))"
    using shutdown_run_rank [OF assms(2,1)] stop_rank_le [of "gm_phase m"] by linarith
  moreover have "gm_cancelled m'" using shutdown_run_rank [OF assms(2,1)] by simp
  ultimately show ?thesis by (meson cancelled_unaided)
qed

section \<open>A run\<close>

text \<open>The files are loaded, the stream is opened, a snapshot arrives and is applied.\<close>

definition demo_lib :: "(header_name \<Rightarrow> header_value list, uri_parts) http_lib" where
  "demo_lib = parts_lib\<lparr>uri_host := (\<lambda>_. Some ''controller'')\<rparr>"

definition no_pem :: "unit pem_lib" where
  "no_pem = \<lparr>pem_read_all = (\<lambda>_. []), pem_read_one = (\<lambda>_. Inr None), any_supported_type = (\<lambda>_. Inr ())\<rparr>"

abbreviation "demo_reaches \<equiv> manager_reachable alist_dash demo_lib no_pem ''https://controller:18000''"

definition demo_keys :: "((endpoint_key \<times> arc) list, unit) manager" where
  "demo_keys = manager_init
     \<lparr>gm_ca := ''ca'', gm_ca_updated := True, gm_client := ''cert'', gm_key := ''key'', gm_client_updated := True\<rparr>"

definition demo_open :: "((endpoint_key \<times> arc) list, unit) manager" where
  "demo_open = demo_keys\<lparr>gm_phase := Streaming False, gm_backoff := backoff_init, gm_ready := True\<rparr>"

definition demo_applied :: "((endpoint_key \<times> arc) list, unit) manager" where
  "demo_applied = demo_open
     \<lparr>gm_phase := Streaming True, gm_snapshot := demo_snapshot, gm_received := [demo_snapshot],
      gm_plane := plane_update alist_dash (header_name_from_bytes demo_lib) demo_snapshot plane_init,
      gm_sni := certificates_from_snap no_pem demo_snapshot\<rparr>"

lemmas demo_simps = manager_init_def try_load_and_store_def bytes_eq_def notify_if_def demo_keys_def
  demo_open_def demo_applied_def

lemma demo_keys_reachable: "demo_reaches demo_keys"
proof -
  let ?m0 = "manager_init :: ((endpoint_key \<times> arc) list, unit) manager"
  let ?m1 = "?m0\<lparr>gm_watcher := Watch_Client, gm_ca := ''ca'', gm_ca_updated := True\<rparr>"
  let ?m2 = "?m1\<lparr>gm_watcher := Watch_Key, gm_client := ''cert'', gm_client_updated := True\<rparr>"
  have "watcher_step ?m0 ?m1"
    using watch_ca [of ?m0 "Some ''ca''" "Some True" "''ca''"] by (simp add: demo_simps)
  moreover have "watcher_step ?m1 ?m2"
    using watch_client [of ?m1 "Some ''cert''" "Some True" "''cert''"] by (simp add: demo_simps)
  moreover have "watcher_step ?m2 demo_keys"
    using watch_key [of ?m2 "Some ''key''" "Some True" "''key''"] by (simp add: demo_simps)
  ultimately show ?thesis by (blast intro: start run watcher_task)
qed

lemma demo_run:
  "demo_reaches m \<Longrightarrow> stream_step alist_dash demo_lib no_pem ''https://controller:18000'' m n \<Longrightarrow> demo_reaches n"
  by (erule run) (rule stream_task)

definition demo_opening :: "((endpoint_key \<times> arc) list, unit) manager" where
  "demo_opening = demo_keys\<lparr>gm_phase := Opening, gm_backoff := backoff_init\<rparr>"

lemma demo_opening_reachable: "demo_reaches demo_opening"
proof -
  let ?step = "stream_step alist_dash demo_lib no_pem ''https://controller:18000''"
  let ?m1 = "demo_keys\<lparr>gm_phase := Load_Client ''ca''\<rparr>"
  let ?m2 = "demo_keys\<lparr>gm_phase := Load_Key ''ca'' ''cert''\<rparr>"
  let ?m3 = "demo_keys\<lparr>gm_phase := Dialing ''ca'' ''cert'' ''key''\<rparr>"
  have 1: "?step demo_keys ?m1" using load_ca [of demo_keys] by (simp add: demo_simps)
  have 2: "?step ?m1 ?m2" using load_client [of ?m1 "''ca''"] by (simp add: demo_simps)
  have 3: "?step ?m2 ?m3" using load_key [of ?m2 "''ca''" "''cert''"] by (simp add: demo_simps)
  have 4: "?step ?m3 demo_opening"
    using dial_ok [of ?m3 "''ca''" "''cert''" "''key''" demo_lib "''https://controller:18000''" "''controller''"]
    by (simp add: connect_checks_def demo_lib_def parts_lib_def demo_opening_def)
  show ?thesis
    by (rule demo_run [OF demo_run [OF demo_run [OF demo_run [OF demo_keys_reachable 1] 2] 3] 4])
qed

lemma demo_opens: "stream_step alist_dash demo_lib no_pem ''https://controller:18000'' demo_opening demo_open"
  using open_ok [of demo_opening] by (simp add: demo_simps demo_opening_def)

lemma demo_open_reachable: "demo_reaches demo_open"
  using demo_opening_reachable demo_opens by (rule demo_run)

lemma demo_applied_reachable: "demo_reaches demo_applied"
proof -
  let ?step = "stream_step alist_dash demo_lib no_pem ''https://controller:18000''"
  let ?m1 = "demo_open\<lparr>gm_phase := Write_Table demo_snapshot, gm_snapshot := demo_snapshot,
    gm_received := [demo_snapshot]\<rparr>"
  let ?m2 = "?m1\<lparr>gm_phase := Write_Sni demo_snapshot,
    gm_plane := plane_update alist_dash (header_name_from_bytes demo_lib) demo_snapshot plane_init\<rparr>"
  have 1: "?step demo_open ?m1" using message [of demo_open False] by (simp add: demo_simps)
  have 2: "?step ?m1 ?m2" using write_table [of ?m1 demo_snapshot] by (simp add: demo_simps plane_init_def)
  have 3: "?step ?m2 demo_applied" using write_sni [of ?m2 demo_snapshot] by (simp add: demo_simps)
  show ?thesis
    by (rule demo_run [OF demo_run [OF demo_run [OF demo_open_reachable 1] 2] 3])
qed

theorem manager_refines_plane_witness:
  "plane_reachable alist_dash (header_name_from_bytes demo_lib) (gm_plane demo_applied)"
  using demo_applied_reachable by (rule manager_refines_plane)

theorem serves_last_snapshot_witness:
  "table_from alist_dash demo_lib demo_snapshot (pl_table (gm_plane demo_applied))"
  using serves_last_snapshot [OF demo_applied_reachable]
  by (simp add: demo_applied_def table_source_def latest_def)

theorem backoff_schedule_witness:
  "\<exists>m. demo_reaches m \<and> gm_sleeps m = [(Stream_Lost, 500)] \<and> scheduled [(Stream_Lost, 500)]"
proof -
  have *: "demo_reaches (back_off Stream_Lost demo_open)"
    using demo_open_reachable by (rule run) (intro stream_task stream_ended [of _ False], simp add: demo_open_def)
  have "gm_sleeps (back_off Stream_Lost demo_open) = [(Stream_Lost, 500)]"
    by (simp add: back_off_def demo_simps backoff_init_def)
  with backoff_schedule [OF *] * show ?thesis by auto
qed

theorem readiness_spec_witness:
  "gm_ready demo_applied"
  using readiness_spec [OF demo_applied_reachable shutdown] by (simp add: demo_applied_def)

theorem shutdown_bounded_witness:
  "\<exists>m. shutdown_run alist_dash demo_lib no_pem ''https://controller:18000'' 1 (cancel demo_open) m
    \<and> gm_phase m = Stopped \<and> (1::nat) \<le> 7 + 3 * (length (gm_received m) - length (gm_received (cancel demo_open)))"
proof -
  let ?m = "(cancel demo_open)\<lparr>gm_phase := Stopped\<rparr>"
  have "shutdown_run alist_dash demo_lib no_pem ''https://controller:18000'' (Suc 0) (cancel demo_open) ?m"
    by (rule shut_stream [OF shut_start stream_cancelled [of _ False]]) (simp_all add: cancel_def demo_open_def)
  moreover have "gm_cancelled (cancel demo_open)" by (simp add: cancel_def)
  ultimately show ?thesis
    using shutdown_bounded [of "cancel demo_open"] by (intro exI [of _ ?m]) fastforce
qed

theorem first_stream_reconnects_witness:
  "gm_ca demo_open \<noteq> [] \<and> gm_ca_updated demo_open"
  using first_stream_reconnects [OF demo_open_reachable] by (simp add: demo_simps connected_def)

end
