(* ===== verification/Servers.thy ===== *)
theory Servers
  imports Proxy Grpc_Manager
begin

text \<open>
  \<open>main.rs\<close> and \<open>utils.rs\<close>: the admin endpoint \<open>echo\<close>, the service functions of the two
  front ends, and the accept loops \<open>run_http\<close> and \<open>run_https\<close> with their graceful
  shutdown.  \<open>AppState\<close> starts as the shared part of \<open>manager_init\<close>.
\<close>

section \<open>The admin endpoint\<close>

definition empty_body :: "'b body" where
  "empty_body = Full []"

definition full :: "string \<Rightarrow> 'b body" where
  "full chunk = Full chunk"

text \<open>\<open>Response::new\<close>: status 200, no headers.\<close>

definition response_new :: "'h header_ops \<Rightarrow> 'b body \<Rightarrow> ('h, 'b body) response" where
  "response_new hm body = \<lparr>rs_status = OK, rs_headers = hm_new hm, rs_body = body\<rparr>"

definition echo :: "('h, 'u) http_lib \<Rightarrow> ('h, 'u, 'b) request \<Rightarrow> bool \<Rightarrow> ('h, 'b body) response" where
  "echo lib req ready =
     (let hm = hl_headers lib; meth = rq_method req; path = uri_path lib (rq_uri req) in
      if meth = ''POST'' \<and> path = ''/echo'' then response_new hm (Boxed (rq_body req))
      else if meth = ''GET'' \<and> path = ''/healthz'' then response_new hm (full ''Ok'')
      else if meth = ''GET'' \<and> path = ''/readyz'' then
        (if ready then (response_new hm empty_body)\<lparr>rs_status := OK\<rparr>
         else (response_new hm empty_body)\<lparr>rs_status := 503\<rparr>)
      else (response_new hm empty_body)\<lparr>rs_status := NOT_FOUND\<rparr>)"

definition readyz :: "(header_name \<Rightarrow> header_value list, uri_parts, string) request" where
  "readyz = demo_request
     \<lparr>rq_uri := \<lparr>up_scheme = None, up_authority = None, up_path_and_query = Some ''/readyz''\<rparr>\<rparr>"

text \<open>
  The readiness probe does not wait for a configuration.  A run of the system
  reaches a state in which \<open>/readyz\<close> answers 200 although no snapshot has arrived yet and
  the routing table matches no request at all.
\<close>

theorem ready_without_routes:
  "\<exists>m. manager_reachable alist_dash demo_lib no_pem ''https://controller:18000'' m
     \<and> rs_status (echo demo_lib readyz (gm_ready m)) = OK
     \<and> (\<forall>host path. choose_route (pl_table (gm_plane m)) host path = None)"
proof (intro exI conjI allI)
  show "demo_reaches demo_open" by (rule demo_open_reachable)
  show "rs_status (echo demo_lib readyz (gm_ready demo_open)) = OK"
    by (simp add: echo_def Let_def readyz_def demo_request_def demo_lib_def parts_lib_def response_new_def
        demo_open_def)
  show "choose_route (pl_table (gm_plane demo_open)) host path = None" for host path
    by (simp add: demo_simps plane_init_def route_table_default_def choose_route_def)
qed

section \<open>The front ends\<close>

text \<open>The service functions mark the request with the listener it came through.\<close>

definition front_end ::
  "bool \<Rightarrow> 'd counters \<Rightarrow> ('h, 'u) http_lib \<Rightarrow> ('u, 'e) fmt_lib \<Rightarrow> ('h, 'u, 'b, 'r, 'e) network \<Rightarrow> ('b \<Rightarrow> bool)
    \<Rightarrow> 'd route_table \<Rightarrow> ('h, 'u, 'b) request \<Rightarrow> store \<Rightarrow> ('h, 'u, 'b) sent list
    \<Rightarrow> ('h, 'r body) response \<times> store \<times> ('h, 'u, 'b) sent list" where
  "front_end tls dm lib fmt net is_end_stream route_table req s trace =
     proxy_handler dm lib fmt net is_end_stream route_table (req\<lparr>rq_frontend_tls := Some tls\<rparr>) s trace"

abbreviation "http_service \<equiv> front_end False"
abbreviation "https_service \<equiv> front_end True"

lemma extract_host_extension: "extract_host lib (req\<lparr>rq_frontend_tls := f\<rparr>) = extract_host lib req"
  by (simp add: extract_host_def Let_def cong: option.case_cong)

lemma demo_no_header_rules: "c \<in> ran (tab_clusters demo_table) \<Longrightarrow> cr_request_headers c = []"
proof -
  assume "c \<in> ran (tab_clusters demo_table)"
  then obtain k where k: "tab_clusters demo_table k = Some c" by (auto simp: ran_def)
  have "tab_clusters demo_table = fst (build_clusters alist_dash Some (sn_clusters demo_snapshot) store_init)"
    by (simp add: demo_table_def)
  with k show ?thesis
    by (auto simp: build_clusters_def push_cluster_def demo_snapshot_def demo_cluster_def new_cluster_eval
        split: if_splits)
qed

text \<open>
  C39: an upstream can trust \<open>X-Forwarded-Proto\<close>.  Whatever the client sends, every request
  that reaches an upstream carries exactly one \<open>X-Forwarded-Proto\<close>, naming the listener
  the client connected to, unless a header rule of some cluster of the table names it.
\<close>

theorem forwarded_proto_honest:
  assumes "header_map (hl_headers lib)"
    and "front_end tls dm lib fmt net is_end_stream t req s trace = (resp, s', trace @ xs)"
    and "x \<in> set (upstream_sends xs)"
    and "''x-forwarded-proto'' \<notin> (\<Union>c \<in> ran (tab_clusters t). hrr_name ` set (cr_request_headers c))"
  shows "hm_get_all (hl_headers lib) (rq_headers (snt_request x)) ''x-forwarded-proto''
    = [if tls then ''https'' else ''http'']"
  using assms(2) [unfolded front_end_def] assms(3)
proof (rule upstream_send_cases)
  fix c host ep req'
  assume "c \<in> ran (tab_clusters t)"
    "x \<in> set (upstream_plan lib is_end_stream c ep host (rq_frontend_tls (req\<lparr>rq_frontend_tls := Some tls\<rparr>) = Some True) req')"
  then show ?thesis
    using assms(4)
    by (simp add: plan_headers prepare_headers [OF assms(1)] rewrite_values_other upstream_header_values_def)
qed

theorem forwarded_proto_honest_witness:
  "\<exists>resp s' xs. http_service alist_dash parts_lib plain_fmt (answering 200) (\<lambda>b. b = []) demo_table
      root_request store_init [] = (resp, s', [] @ xs) \<and> xs \<noteq> []
    \<and> (\<forall>x \<in> set (upstream_sends xs). rq_headers (snt_request x) ''x-forwarded-proto'' = [''http''])"
proof -
  let ?req = "root_request\<lparr>rq_frontend_tls := Some False\<rparr>"
  have host: "extract_host parts_lib ?req =
      (Inr ''demo.local'' :: (header_name \<Rightarrow> header_value list, string body) response + string)"
    using root_extract by (simp only: extract_host_extension)
  have route: "choose_route demo_table ''demo.local'' (uri_path parts_lib (rq_uri ?req))
     = Some (rule_of_route (demo_route ''/'' ''Prefix'' ''web'') Prefix)"
    using root_route by simp
  have rules: "\<Union>((\<lambda>c. hrr_name ` set (cr_request_headers c)) ` ran (tab_clusters demo_table)) = {}"
    using demo_no_header_rules by simp
  obtain c where "get_cluster_rules demo_table (rr_cluster (rule_of_route (demo_route ''/'' ''Prefix'' ''web'') Prefix)) = Some c"
    "cr_endpoints c \<noteq> []" "open_to parts_lib c root_request"
    by (rule root_cluster)
  moreover have "open_to parts_lib c ?req"
    using calculation(3) by (simp add: open_to_def skips_auth_def split: option.splits)
  ultimately obtain resp s' xs where *: "http_service alist_dash parts_lib plain_fmt (answering 200) (\<lambda>b. b = [])
      demo_table root_request store_init [] = (resp, s', [] @ xs)" "upstream_sends xs \<noteq> []"
    unfolding front_end_def using open_served [OF host route] by blast
  then have "xs \<noteq> []" by (auto simp: upstream_sends_def)
  moreover have "rq_headers (snt_request x) ''x-forwarded-proto'' = [''http'']" if "x \<in> set (upstream_sends xs)" for x
    using forwarded_proto_honest [OF header_map_parts_lib *(1) that] rules by simp
  ultimately show ?thesis using *(1) by blast
qed

section \<open>TLS handshakes\<close>

text \<open>
  A handshake never gets the certificate of another name.  Whenever the two loads of
  the resolver happen, a handshake with a server name gets a certificate: the default one,
  or that of a bundle of a received snapshot that lists the lower-cased name or the
  wildcard of its parent domain.
\<close>

theorem handshake_certificate:
  assumes "manager_reachable dm lib pem controller_addr m1" and "manager_reachable dm lib pem controller_addr m2"
  shows "\<exists>ck. dyn_resolve r (\<lambda>_. gm_sni m1) (\<lambda>_. gm_sni m2) (Some n) = Some ck
    \<and> (ck = dr_default r
       \<or> (\<exists>snap b. snap \<in> set (gm_received m1 @ gm_received m2) \<and> b \<in> set (sn_server_tls snap)
            \<and> bundle_certified_key pem b = Some ck
            \<and> (to_ascii_lowercase n \<in> set (tb_sni b)
               \<or> (\<exists>w. wildcard_of (to_ascii_lowercase n) = Some w \<and> w \<in> set (tb_sni b)))))"
proof -
  have stored: "\<exists>snap b. snap \<in> set (gm_received m) \<and> b \<in> set (sn_server_tls snap)
      \<and> bundle_certified_key pem b = Some ck \<and> h \<in> set (tb_sni b)"
    if m: "manager_reachable dm lib pem controller_addr m" and h: "gm_sni m h = Some ck" for m h ck
  proof -
    have "certificates_from_snap pem (sni_source m) h = Some ck"
      using config.always [OF m] h by (simp add: config_inv_def)
    then obtain b where b: "b \<in> set (sn_server_tls (sni_source m))" "h \<in> set (tb_sni b)"
      "bundle_certified_key pem b = Some ck" by (rule certificates_from_snap_origin)
    have "sni_source m \<noteq> snapshot_default" using b(1) by (auto simp: snapshot_default_def)
    then have "sni_source m \<in> set (gm_received m)" by (rule sni_source_received)
    with b show ?thesis by blast
  qed
  obtain ck where ck: "resolve (gm_sni m1) (gm_sni m2) (dr_default r) (Some n) = Some ck"
    by (simp add: resolve_eq)
  show ?thesis
    unfolding dyn_resolve_def set_append
  proof (intro exI conjI)
    from ck show "ck = dr_default r
       \<or> (\<exists>snap b. snap \<in> set (gm_received m1) \<union> set (gm_received m2) \<and> b \<in> set (sn_server_tls snap)
            \<and> bundle_certified_key pem b = Some ck
            \<and> (to_ascii_lowercase n \<in> set (tb_sni b)
               \<or> (\<exists>w. wildcard_of (to_ascii_lowercase n) = Some w \<and> w \<in> set (tb_sni b))))"
      by (rule resolve_origin) (blast dest: stored [OF assms(1)] stored [OF assms(2)])+
  qed (rule ck)
qed

theorem handshake_certificate_witness:
  "\<exists>ck. dyn_resolve (dyn_resolver_new \<lparr>ck_cert = [], ck_key = ()\<rparr> 0) (\<lambda>_. gm_sni demo_open) (\<lambda>_. gm_sni demo_applied)
    (Some ''Demo.Local'') = Some ck"
  using handshake_certificate [OF demo_open_reachable demo_applied_reachable] by blast

section \<open>Accept loops and graceful shutdown\<close>

text \<open>
  \<open>run_http\<close> and \<open>run_https\<close> have the same shape: bind the socket or return the error,
  accept connections until the shutdown token is cancelled, then wait for the tasks of the
  \<open>JoinSet\<close>.  A connection is served by its own task and has any number of requests in
  flight, of which \<open>sv_conns\<close> holds the number for each open connection; when an accept
  and the shutdown are both ready, either may be taken.  \<open>Returned\<close> holds the error of a
  failed bind.

  A connection can end with requests in flight, as when the client goes away.  Those of
  HTTP/1 end with it; those of HTTP/2 run in tasks of their own, which \<open>TokioExecutor\<close>
  spawns outside the \<open>JoinSet\<close>, and may go on, or even start, afterwards: \<open>sv_orphans\<close>
  counts them.  The last two fields count connections.
\<close>

datatype server_phase = Binding | Accepting | Draining | Returned "string option"

record server =
  sv_phase :: server_phase
  sv_conns :: "nat list"
  sv_orphans :: nat
  sv_accepted :: nat
  sv_finished :: nat

definition server_init :: server where
  "server_init = \<lparr>sv_phase = Binding, sv_conns = [], sv_orphans = 0, sv_accepted = 0, sv_finished = 0\<rparr>"

inductive server_step :: "bool \<Rightarrow> server \<Rightarrow> server \<Rightarrow> bool" for shutdown where
  bind_ok: "sv_phase v = Binding \<Longrightarrow> server_step shutdown v (v\<lparr>sv_phase := Accepting\<rparr>)"
| bind_failed: "sv_phase v = Binding \<Longrightarrow> server_step shutdown v (v\<lparr>sv_phase := Returned (Some err)\<rparr>)"
| accept_conn: "sv_phase v = Accepting \<Longrightarrow>
    server_step shutdown v (v\<lparr>sv_conns := sv_conns v @ [0], sv_accepted := Suc (sv_accepted v)\<rparr>)"
| accept_error: "sv_phase v = Accepting \<Longrightarrow> server_step shutdown v v"
| conn_done: "sv_conns v = xs @ n # ys \<Longrightarrow>
    server_step shutdown v (v\<lparr>sv_conns := xs @ ys, sv_orphans := sv_orphans v + n,
                              sv_finished := Suc (sv_finished v)\<rparr>)"
| stop_accepting: "sv_phase v = Accepting \<Longrightarrow> shutdown \<Longrightarrow> server_step shutdown v (v\<lparr>sv_phase := Draining\<rparr>)"
| all_joined: "sv_phase v = Draining \<Longrightarrow> sv_conns v = [] \<Longrightarrow>
    server_step shutdown v (v\<lparr>sv_phase := Returned None\<rparr>)"

inductive_cases server_stepE: "server_step shutdown v w"

text \<open>A request starts, of an open connection or of one that has ended; read backwards, it ends.\<close>

inductive conn_request :: "server \<Rightarrow> server \<Rightarrow> bool" where
  of_conn: "sv_conns v = xs @ n # ys \<Longrightarrow> conn_request v (v\<lparr>sv_conns := xs @ Suc n # ys\<rparr>)"
| of_ended: "sv_finished v \<noteq> 0 \<Longrightarrow> conn_request v (v\<lparr>sv_orphans := Suc (sv_orphans v)\<rparr>)"

definition server_inv :: "bool \<Rightarrow> server \<Rightarrow> bool" where
  "server_inv shutdown v \<longleftrightarrow> sv_accepted v = sv_finished v + length (sv_conns v)
     \<and> (sv_finished v = 0 \<longrightarrow> sv_orphans v = 0)
     \<and> (case sv_phase v of
          Binding \<Rightarrow> sv_accepted v = 0
        | Accepting \<Rightarrow> True
        | Draining \<Rightarrow> shutdown
        | Returned None \<Rightarrow> shutdown \<and> sv_conns v = []
        | Returned (Some _) \<Rightarrow> sv_accepted v = 0)"

text \<open>The requests of a listener: those of its open connections and the orphans.\<close>

definition server_requests :: "server \<Rightarrow> nat" where
  "server_requests v = sum_list (sv_conns v) + sv_orphans v"

lemma server_inv_init: "server_inv shutdown server_init"
  by (simp add: server_inv_def server_init_def)

lemma server_inv_step: "server_step shutdown v w \<Longrightarrow> server_inv shutdown v \<Longrightarrow> server_inv shutdown w"
  by (erule server_stepE) (auto simp: server_inv_def split: server_phase.splits option.splits)

lemma server_inv_shutdown: "server_inv shutdown v \<Longrightarrow> server_inv True v"
  by (auto simp: server_inv_def split: server_phase.splits option.splits)

lemma server_inv_request: "conn_request v w \<Longrightarrow> server_inv shutdown v \<Longrightarrow> server_inv shutdown w"
  "conn_request v w \<Longrightarrow> server_inv shutdown w \<Longrightarrow> server_inv shutdown v"
  by (erule conn_request.cases; fastforce simp: server_inv_def split: server_phase.splits option.splits)+

lemma conn_request_sum: "conn_request v w \<Longrightarrow> server_requests w = Suc (server_requests v)"
  by (erule conn_request.cases) (simp_all add: server_requests_def)

lemma server_step_sum: "server_step shutdown v w \<Longrightarrow> server_requests w = server_requests v"
  by (erule server_stepE) (simp_all add: server_requests_def)

text \<open>Once it stops accepting, no connection is added.\<close>

lemma draining_accepts_nothing:
  "server_step shutdown v w \<Longrightarrow> sv_phase v = Draining \<Longrightarrow> sv_accepted w = sv_accepted v"
  by (erule server_stepE) auto

text \<open>A server that has returned without a bind error has seen all its connections end.\<close>

lemma returned_drained:
  "server_inv shutdown v \<Longrightarrow> sv_phase v = Returned r \<Longrightarrow> sv_conns v = [] \<and> sv_finished v = sv_accepted v"
  by (cases r) (auto simp: server_inv_def)

end
