(* ===== verification/Client_Pool.thy ===== *)
theory Client_Pool
  imports Proxy
begin

text \<open>
  \<open>client_pool.rs\<close>: the two HTTP clients of the proxy.  One verifies the certificates of
  backends against the native roots, the other accepts any certificate; both keep a
  bounded number of idle connections.  The verifier of the native roots is third-party
  code and a parameter.  A cluster's setting decides which client its requests use, and
  the lemmas show that no request of a handler run uses the other one.
\<close>

section \<open>Verifiers\<close>

datatype signature_scheme =
    RSA_PKCS1_SHA256
  | ECDSA_NISTP256_SHA256
  | RSA_PSS_SHA256
  | Other_Scheme u16

text \<open>
  The trait \<open>ServerCertVerifier\<close>: certificates, names, messages and signatures are byte
  strings, the time a number of seconds, \<open>Inl\<close> an error of the TLS library.
\<close>

record verifier =
  verify_server_cert :: "string \<Rightarrow> string list \<Rightarrow> string \<Rightarrow> string \<Rightarrow> u64 \<Rightarrow> string + unit"
  verify_tls12_signature :: "string \<Rightarrow> string \<Rightarrow> string \<Rightarrow> string + unit"
  verify_tls13_signature :: "string \<Rightarrow> string \<Rightarrow> string \<Rightarrow> string + unit"
  supported_verify_schemes :: "signature_scheme list"

definition no_cert_verifier :: verifier where
  "no_cert_verifier =
     \<lparr>verify_server_cert = (\<lambda>end_entity intermediates server_name ocsp_response now. Inr ()),
      verify_tls12_signature = (\<lambda>message cert dss. Inr ()),
      verify_tls13_signature = (\<lambda>message cert dss. Inr ()),
      supported_verify_schemes = [RSA_PSS_SHA256, ECDSA_NISTP256_SHA256, RSA_PKCS1_SHA256]\<rparr>"

section \<open>The pool\<close>

record http_client =
  hc_verifier :: verifier
  hc_idle_timeout :: u64
  hc_max_idle_per_host :: usize

record client_pool =
  cp_connector :: http_client
  cp_connector_insecure :: http_client

definition DEFAULT_COUNT_POOL :: usize where "DEFAULT_COUNT_POOL = 32"

definition DEFAULT_IDLE_TIMEOUT :: u64 where "DEFAULT_IDLE_TIMEOUT = 60"

text \<open>
  \<open>native_roots\<close> is the verifier for the native root certificates, \<open>None\<close> if there are
  none, in which case \<open>expect\<close> panics.  The product is one of \<open>usize\<close>.
\<close>

definition new_http_pool_connector :: "verifier option \<Rightarrow> usize \<Rightarrow> client_pool option" where
  "new_http_pool_connector native_roots count_thread =
     (case native_roots of
        None \<Rightarrow> None
      | Some roots \<Rightarrow>
          Some \<lparr>cp_connector =
                  \<lparr>hc_verifier = roots, hc_idle_timeout = DEFAULT_IDLE_TIMEOUT,
                   hc_max_idle_per_host = DEFAULT_COUNT_POOL * count_thread\<rparr>,
                cp_connector_insecure =
                  \<lparr>hc_verifier = no_cert_verifier, hc_idle_timeout = DEFAULT_IDLE_TIMEOUT,
                   hc_max_idle_per_host = DEFAULT_COUNT_POOL * count_thread\<rparr>\<rparr>)"

definition client_pool_default :: "verifier option \<Rightarrow> client_pool option" where
  "client_pool_default native_roots = new_http_pool_connector native_roots DEFAULT_COUNT_POOL"

text \<open>The client of a request, as \<open>proxy.rs\<close> chooses it.\<close>

definition client_for :: "client_pool \<Rightarrow> ('h, 'u, 'b) sent \<Rightarrow> http_client" where
  "client_for pool x = (if snt_insecure x then cp_connector_insecure pool else cp_connector pool)"

text \<open>Below \<open>2^59\<close> threads the bound on idle connections does not wrap around.\<close>

lemma max_idle_exact:
  assumes "new_http_pool_connector roots n = Some pool" "unat n < 2 ^ 59"
  shows "unat (hc_max_idle_per_host (client_for pool x)) = 32 * unat n"
proof -
  have "unat (32 * n) = 32 * unat n"
    using assms(2) by (subst unat_mult_lem [THEN iffD1]) (simp_all add: unat_word_ariths)
  then show ?thesis
    using assms(1) by (auto simp: new_http_pool_connector_def client_for_def DEFAULT_COUNT_POOL_def split: option.splits)
qed

section \<open>Which client a request uses\<close>

lemma authorize_insecure:
  assumes "authorize lib fmt net c host tls req trace = (a, trace @ xs)" "x \<in> set xs"
  shows "snt_insecure x = cr_backend_tls_insecure_skip_verify c"
  using assms
  by (auto simp: authorize_def perform_auth_unfold auth_subrequest_defs Let_def
      split: option.splits if_splits sum.splits)

lemma plan_insecure:
  "x \<in> set (upstream_plan lib ies c ep host tls req) \<Longrightarrow> snt_insecure x = cr_backend_tls_insecure_skip_verify c"
  by (auto simp: upstream_plan_def attempt_plan_def Let_def)

lemma serve_insecure:
  assumes "serve lib fmt net ies c ep host tls req trace = (resp, trace @ ys)" "x \<in> set ys"
  shows "snt_insecure x = cr_backend_tls_insecure_skip_verify c"
  using assms(1)
proof (cases rule: serve_cases)
  case (refused auth)
  then have "authorize lib fmt net c host tls req trace = (Inl resp, trace @ ys)" by (simp add: authorize_def)
  then show ?thesis using assms(2) by (rule authorize_insecure)
next
  case (forwarded req' xs k out)
  then have "x \<in> set xs \<or> x \<in> set (upstream_plan lib ies c ep host tls req')"
    using assms(2) by (auto dest: in_set_takeD)
  then show ?thesis using authorize_insecure [OF forwarded(1)] plan_insecure by blast
qed

text \<open>
  C18: certificates of backends are verified unless the cluster says otherwise.  Every
  request that a run of the handler sends, the authorization subrequest included, goes
  through the client with the native roots if the cluster of the matched route does not
  skip verification, and through the one that accepts every certificate if it does.
\<close>

theorem backend_certificates_verified:
  fixes net :: "('h, 'u, 'b, 'r, 'e) network"
  assumes "proxy_handler dm lib fmt net is_end_stream t req s trace = (resp, s', trace @ xs)"
    and "x \<in> set xs"
    and "new_http_pool_connector (Some roots) count_thread = Some pool"
  shows "\<exists>host rule c. extract_host lib req = (Inr host :: ('h, 'r body) response + string)
    \<and> choose_route t host (uri_path lib (rq_uri req)) = Some rule
    \<and> get_cluster_rules t (rr_cluster rule) = Some c
    \<and> hc_verifier (client_for pool x)
        = (if cr_backend_tls_insecure_skip_verify c then no_cert_verifier else roots)"
  using handler_handled [OF assms(1)]
proof (cases rule: handled.cases)
  case (unresolved st msg)
  then show ?thesis using assms(2) by simp
next
  case (served host rule c sel s1)
  have "snt_insecure x = cr_backend_tls_insecure_skip_verify c"
    using served(5) assms(2) by (rule serve_insecure)
  then have "hc_verifier (client_for pool x) = (if cr_backend_tls_insecure_skip_verify c then no_cert_verifier else roots)"
    using assms(3) by (auto simp: client_for_def new_http_pool_connector_def)
  with served show ?thesis by blast
qed

text \<open>A verifier that rejects every certificate, as native roots reject a self-signed one.\<close>

definition reject_all :: verifier where
  "reject_all = no_cert_verifier\<lparr>verify_server_cert := (\<lambda>_ _ _ _ _. Inl ''UnknownIssuer'')\<rparr>"

theorem backend_certificates_verified_witness:
  "\<exists>resp s' x xs pool. demo_handler (answering 200) = (resp, s', [] @ x # xs)
    \<and> new_http_pool_connector (Some reject_all) 4 = Some pool
    \<and> hc_verifier (client_for pool x) = reject_all"
proof -
  obtain resp s' xs where *: "demo_handler (answering 200) = (resp, s', [] @ xs)" "upstream_sends xs \<noteq> []"
    by (rule demo_served)
  then obtain x ys where xs: "xs = x # ys" by (cases xs) (auto simp: upstream_sends_def)
  obtain pool where pool: "new_http_pool_connector (Some reject_all) 4 = Some pool"
    by (simp add: new_http_pool_connector_def)
  obtain host rule c where
    hrc: "extract_host parts_lib root_request = (Inr host :: (header_name \<Rightarrow> header_value list, string body) response + string)"
      "choose_route demo_table host (uri_path parts_lib (rq_uri root_request)) = Some rule"
      "get_cluster_rules demo_table (rr_cluster rule) = Some c"
    and v: "hc_verifier (client_for pool x)
        = (if cr_backend_tls_insecure_skip_verify c then no_cert_verifier else reject_all)"
    using backend_certificates_verified [OF *(1) _ pool, of x] by (auto simp: xs)
  have "rule = rule_of_route (demo_route ''/'' ''Prefix'' ''web'') Prefix"
    using hrc(1,2) root_extract root_route by simp
  moreover have "map_option cr_backend_tls_insecure_skip_verify (get_cluster_rules demo_table ''web'') = Some False"
    by code_simp
  ultimately have "\<not> cr_backend_tls_insecure_skip_verify c"
    using hrc(3) by (auto simp: rule_of_route_def demo_route_def)
  with v * pool show ?thesis by (auto simp: xs)
qed

end
