(* ===== verification/Startup.thy ===== *)
theory Startup
  imports Client_Pool Grpc_Manager
begin

text \<open>
  The start of \<open>main.rs\<close>: the settings read from the environment, the parsing of numbers,
  and everything that can stop the process before it serves: a panic, a port that is not a
  number, a bind that fails, a default certificate that cannot be made.  The operating
  system and the libraries called are parameters (\<open>os\<close>).
\<close>

section \<open>Parsing an unsigned integer\<close>

text \<open>
  \<open>str::parse\<close> for an unsigned type: an optional plus sign, then decimal digits; a
  character that is not a digit is noticed before the overflow it would cause.
\<close>

datatype int_error = Empty | InvalidDigit | PosOverflow

fun parse_digits :: "nat \<Rightarrow> nat \<Rightarrow> string \<Rightarrow> int_error + nat" where
  "parse_digits bound acc [] = Inr acc"
| "parse_digits bound acc (c # cs) =
     (if \<not> is_digit c then Inl InvalidDigit
      else let v = 10 * acc + (of_char c - 48) in
        if v < bound then parse_digits bound v cs else Inl PosOverflow)"

definition parse_unsigned :: "string \<Rightarrow> int_error + 'a::len word" where
  "parse_unsigned s =
     (if s = [] then Inl Empty
      else if s = ''+'' \<or> s = ''-'' then Inl InvalidDigit
      else map_sum id of_nat
        (parse_digits (2 ^ LENGTH('a)) 0 (if hd s = CHR ''+'' then tl s else s)))"

lemma parse_digits_Inr:
  "acc < bound \<Longrightarrow>
   parse_digits bound acc s = Inr v \<longleftrightarrow> list_all is_digit s \<and> v = digits_from acc s \<and> v < bound"
proof (induction s arbitrary: acc)
  case (Cons c cs)
  let ?v = "10 * acc + (of_char c - 48)"
  have "\<not> ?v < bound \<Longrightarrow> \<not> digits_from ?v cs < bound"
    using digits_from_mono [of ?v cs] by linarith
  then show ?case using Cons.IH [of ?v] by (auto simp: Let_def)
qed auto

lemma not_digit_sign: "\<not> is_digit CHR ''+''" "\<not> is_digit CHR ''-''"
  by code_simp+

text \<open>The decimal numerals: digits, with an optional plus sign.\<close>

definition numeral_of :: "string \<Rightarrow> nat \<Rightarrow> bool" where
  "numeral_of s v \<longleftrightarrow>
     (\<exists>ds. ds \<noteq> [] \<and> list_all is_digit ds \<and> (s = ds \<or> s = CHR ''+'' # ds) \<and> v = digits_value ds)"

lemma numeral_of_iff:
  "numeral_of s v \<longleftrightarrow> s \<noteq> [] \<and> s \<noteq> ''+'' \<and> s \<noteq> ''-''
     \<and> (let ds = if hd s = CHR ''+'' then tl s else s in list_all is_digit ds \<and> v = digits_value ds)"
proof (cases s)
  case (Cons c rest)
  then show ?thesis
    using not_digit_sign by (cases "c = CHR ''+''") (auto simp: numeral_of_def Let_def)
qed (simp add: numeral_of_def)

lemma parse_digits_word:
  "map_sum id of_nat (parse_digits (2 ^ LENGTH('a)) 0 ds) = Inr (w :: 'a::len word)
     \<longleftrightarrow> list_all is_digit ds \<and> unat w = digits_value ds"
  (is "?parsed \<longleftrightarrow> ?numeral")
proof
  assume ?parsed
  then obtain v where "parse_digits (2 ^ LENGTH('a)) 0 ds = Inr v" "w = of_nat v"
    by (cases "parse_digits (2 ^ LENGTH('a)) 0 ds") auto
  then show ?numeral by (simp add: parse_digits_Inr digits_value_from unat_of_nat)
next
  assume num: ?numeral
  have "unat w < 2 ^ LENGTH('a)" by (rule unsigned_less)
  with num have "parse_digits (2 ^ LENGTH('a)) 0 ds = Inr (unat w)"
    by (simp add: parse_digits_Inr digits_value_from)
  then show ?parsed by simp
qed

lemma parse_unsigned_iff: "parse_unsigned s = Inr (w :: 'a::len word) \<longleftrightarrow> numeral_of s (unat w)"
  unfolding numeral_of_iff parse_unsigned_def Let_def by (simp add: parse_digits_word)

lemma numeral_of_show_nat: "numeral_of (show_nat n) n"
  unfolding numeral_of_def
  using show_nat_digits [of n] by (intro exI [of _ "show_nat n"]) simp

text \<open>
  A number is read exactly if it is one.  Parsing gives a word if and only if the text
  is a decimal numeral, digits with an optional plus sign, whose value is that of the word
  and so fits its width; every other text is an error.  The printed number is read back.
\<close>

theorem parse_unsigned_correct:
  "(parse_unsigned s = Inr (w :: 'a::len word) \<longleftrightarrow> numeral_of s (unat w))
   \<and> parse_unsigned (show_nat (unat w)) = Inr w"
  by (simp add: parse_unsigned_iff numeral_of_show_nat)

section \<open>Settings\<close>

text \<open>
  What the start asks of its surroundings: environment variables (\<open>None\<close> if unset or not
  Unicode), the number of processors, whether the TLS provider can be installed and the
  runtime built, the native roots, the error of binding the admin port, and the generator
  of a self-signed certificate.
\<close>

record os =
  os_env :: "string \<Rightarrow> string option"
  os_cpus :: usize
  os_install_provider :: bool
  os_build_runtime :: bool
  os_native_roots :: "verifier option"
  os_bind :: "u16 \<Rightarrow> string option"
  os_generate :: "string list \<Rightarrow> string + string \<times> string"

definition env_or :: "os \<Rightarrow> string \<Rightarrow> string \<Rightarrow> string" where
  "env_or os name dflt = (case os_env os name of Some v \<Rightarrow> v | None \<Rightarrow> dflt)"

definition thread_count :: "os \<Rightarrow> usize" where
  "thread_count os =
     (case parse_unsigned (env_or os ''COUNT_THREADS'' (show_nat (unat (os_cpus os)))) of
        Inr n \<Rightarrow> n
      | Inl _ \<Rightarrow> 1)"

datatype stop = Panic string | Not_A_Port int_error | Not_Bound string | No_Certificate string

record 'k running =
  rn_threads :: usize
  rn_http_port :: u16
  rn_https_port :: u16
  rn_admin_port :: u16
  rn_controller_addr :: string
  rn_node_id :: string
  rn_pool :: client_pool
  rn_resolver :: "'k dyn_resolver"

text \<open>
  \<open>main\<close> up to the point where the listeners are spawned; \<open>sni\<close> is the address of the shared
  certificate map.  \<open>worker_threads\<close> panics on zero.
\<close>

definition startup :: "arc \<Rightarrow> 'k pem_lib \<Rightarrow> os \<Rightarrow> stop + 'k running" where
  "startup sni pem os =
     (if \<not> os_install_provider os then Inl (Panic ''failed to install ring CryptoProvider'')
      else if thread_count os = 0 then Inl (Panic ''Worker threads cannot be set to 0'')
      else if \<not> os_build_runtime os then Inl (Panic ''called `Result::unwrap()` on an `Err` value'')
      else
        let http_port = env_or os ''HTTP_PORT'' ''8080'';
            https_port = env_or os ''HTTPS_PORT'' ''8443'';
            admin_port = env_or os ''ADMIN_PORT'' ''8181'';
            controller_addr = env_or os ''CONTROLLER_ADDR'' ''https://127.0.0.1:18000'';
            node_id = env_or os ''NODE_ID'' ''dp-axum''
        in case new_http_pool_connector (os_native_roots os) (thread_count os) of
             None \<Rightarrow> Inl (Panic ''no native root CA certificates found'')
           | Some pool \<Rightarrow>
               (case parse_unsigned admin_port of
                  Inl e \<Rightarrow> Inl (Not_A_Port e)
                | Inr admin \<Rightarrow>
                    (case os_bind os admin of
                       Some e \<Rightarrow> Inl (Not_Bound e)
                     | None \<Rightarrow>
                         (case parse_unsigned http_port of
                            Inl e \<Rightarrow> Inl (Not_A_Port e)
                          | Inr http \<Rightarrow>
                              (case parse_unsigned https_port of
                                 Inl e \<Rightarrow> Inl (Not_A_Port e)
                               | Inr https \<Rightarrow>
                                   (case make_dummy_cert (os_generate os) pem of
                                      Inl e \<Rightarrow> Inl (No_Certificate e)
                                    | Inr dummy_cert \<Rightarrow>
                                        Inr \<lparr>rn_threads = thread_count os, rn_http_port = http,
                                             rn_https_port = https, rn_admin_port = admin,
                                             rn_controller_addr = controller_addr, rn_node_id = node_id,
                                             rn_pool = pool,
                                             rn_resolver = dyn_resolver_new dummy_cert sni\<rparr>))))))"

lemma thread_count_unset: "os_env os ''COUNT_THREADS'' = None \<Longrightarrow> thread_count os = os_cpus os"
  using numeral_of_show_nat [of "unat (os_cpus os)"]
  by (simp add: thread_count_def env_or_def flip: parse_unsigned_iff)

lemma parse_zero: "parse_unsigned ''0'' = Inr (0 :: 'a::len word)"
  using numeral_of_show_nat [of 0] by (simp add: parse_unsigned_iff show_nat.simps str_simps)

text \<open>A thread count of zero stops the process, although a text that is no number counts as one thread.\<close>

lemma zero_threads_panic:
  "os_install_provider os \<Longrightarrow> os_env os ''COUNT_THREADS'' = Some ''0'' \<Longrightarrow>
   startup sni pem os = Inl (Panic ''Worker threads cannot be set to 0'')"
  by (simp add: startup_def thread_count_def env_or_def parse_zero)

text \<open>
  A process that starts has the settings it was given.  The three ports are the numbers
  written in the environment, or the defaults; there is at least one thread, as many as
  there are processors if nothing else is set; and below \<open>2^59\<close> threads each client keeps
  at most 32 idle connections per thread and host.
\<close>

theorem started_settings:
  assumes "startup sni pem os = Inr r"
  shows "numeral_of (env_or os ''HTTP_PORT'' ''8080'') (unat (rn_http_port r))
    \<and> numeral_of (env_or os ''HTTPS_PORT'' ''8443'') (unat (rn_https_port r))
    \<and> numeral_of (env_or os ''ADMIN_PORT'' ''8181'') (unat (rn_admin_port r))
    \<and> rn_threads r \<noteq> 0
    \<and> (os_env os ''COUNT_THREADS'' = None \<longrightarrow> rn_threads r = os_cpus os)
    \<and> (unat (rn_threads r) < 2 ^ 59 \<longrightarrow>
         unat (hc_max_idle_per_host (client_for (rn_pool r) x)) = 32 * unat (rn_threads r))"
proof -
  have "new_http_pool_connector (os_native_roots os) (rn_threads r) = Some (rn_pool r)"
    using assms by (auto simp: startup_def Let_def split: if_splits option.splits sum.splits)
  note idle = max_idle_exact [OF this]
  show ?thesis
    using assms idle thread_count_unset [of os]
    by (auto simp: startup_def Let_def simp flip: parse_unsigned_iff split: if_splits option.splits sum.splits)
qed

text \<open>An empty environment on four processors.\<close>

definition demo_os :: os where
  "demo_os =
     \<lparr>os_env = (\<lambda>_. None), os_cpus = 4, os_install_provider = True, os_build_runtime = True,
      os_native_roots = Some reject_all, os_bind = (\<lambda>_. None), os_generate = (\<lambda>_. Inr (''cert'', ''key''))\<rparr>"

lemma parse_default_ports:
  "parse_unsigned ''8080'' = Inr (8080 :: u16)" "parse_unsigned ''8443'' = Inr (8443 :: u16)"
  "parse_unsigned ''8181'' = Inr (8181 :: u16)"
  using numeral_of_show_nat [of 8080] numeral_of_show_nat [of 8443] numeral_of_show_nat [of 8181]
  by (simp_all add: parse_unsigned_iff show_nat.simps str_simps)

lemma demo_started: "\<exists>r. startup 0 no_pem demo_os = Inr r"
proof -
  have "thread_count demo_os = 4" by (simp add: thread_count_unset demo_os_def)
  then show ?thesis
    by (simp add: startup_def demo_os_def env_or_def parse_default_ports new_http_pool_connector_def
        make_dummy_cert_def no_pem_def)
qed

theorem started_settings_witness:
  "\<exists>r. startup 0 no_pem demo_os = Inr r \<and> numeral_of ''8080'' (unat (rn_http_port r)) \<and> rn_threads r \<noteq> 0"
proof -
  obtain r where "startup 0 no_pem demo_os = Inr r" using demo_started by blast
  with started_settings [OF this] show ?thesis by (auto simp: env_or_def demo_os_def)
qed

end
