(* ===== verification/App.thy ===== *)
theory App
  imports Servers Startup
begin

text \<open>
  The whole process of \<open>main.rs\<close> after its start: the main task, the two listeners, the
  requests of their connections and the manager of theory \<open>Grpc_Manager\<close>, interleaved step
  by step.  On a signal the main task waits for the listeners to drain, then stops the
  manager, then returns.  The lemmas show that it stops the manager only when every
  connection has ended, that a shutdown can always be completed, and what becomes of a
  listener that cannot bind its port.
\<close>

section \<open>The process\<close>

datatype main_phase = Waiting | Join_Http | Join_Https | Stop_Manager | Join_Manager | Exited

text \<open>\<open>ap_servers False\<close> is the HTTP listener, \<open>ap_servers True\<close> the HTTPS listener.\<close>

record ('d, 'k) app =
  ap_main :: main_phase
  ap_token :: bool
  ap_servers :: "bool \<Rightarrow> server"
  ap_manager :: "('d, 'k) manager"

definition app_init :: "('d, 'k) app" where
  "app_init = \<lparr>ap_main = Waiting, ap_token = False, ap_servers = (\<lambda>_. server_init), ap_manager = manager_init\<rparr>"

definition in_flight :: "'d plane \<Rightarrow> nat" where
  "in_flight p = size (pl_selected p) + size (pl_active p)"

text \<open>
  The steps of the process.  A request belongs to a connection, open or ended.  The main
  task ignores the result of a listener, an error of its bind
  included.  After the main task has returned nothing runs any more.
\<close>

inductive app_step ::
  "'d counters \<Rightarrow> ('h, 'u) http_lib \<Rightarrow> 'k pem_lib \<Rightarrow> string \<Rightarrow> ('d, 'k) app \<Rightarrow> ('d, 'k) app \<Rightarrow> bool"
  for dm lib pem controller_addr where
  signal: "ap_main a \<noteq> Exited \<Longrightarrow> app_step dm lib pem controller_addr a (a\<lparr>ap_token := True\<rparr>)"
| listener: "ap_main a \<noteq> Exited \<Longrightarrow> server_step (ap_token a) (ap_servers a tls) v \<Longrightarrow>
    app_step dm lib pem controller_addr a (a\<lparr>ap_servers := (ap_servers a)(tls := v)\<rparr>)"
| request_begins: "ap_main a \<noteq> Exited \<Longrightarrow> conn_request (ap_servers a tls) v \<Longrightarrow>
    request_step dm (gm_plane (ap_manager a)) p \<Longrightarrow> in_flight p = Suc (in_flight (gm_plane (ap_manager a))) \<Longrightarrow>
    app_step dm lib pem controller_addr a
      (a\<lparr>ap_servers := (ap_servers a)(tls := v), ap_manager := (ap_manager a)\<lparr>gm_plane := p\<rparr>\<rparr>)"
| request_goes_on: "ap_main a \<noteq> Exited \<Longrightarrow>
    request_step dm (gm_plane (ap_manager a)) p \<Longrightarrow> in_flight p = in_flight (gm_plane (ap_manager a)) \<Longrightarrow>
    app_step dm lib pem controller_addr a (a\<lparr>ap_manager := (ap_manager a)\<lparr>gm_plane := p\<rparr>\<rparr>)"
| request_ends: "ap_main a \<noteq> Exited \<Longrightarrow> conn_request v (ap_servers a tls) \<Longrightarrow>
    request_step dm (gm_plane (ap_manager a)) p \<Longrightarrow> Suc (in_flight p) = in_flight (gm_plane (ap_manager a)) \<Longrightarrow>
    app_step dm lib pem controller_addr a
      (a\<lparr>ap_servers := (ap_servers a)(tls := v), ap_manager := (ap_manager a)\<lparr>gm_plane := p\<rparr>\<rparr>)"
| manager_stream: "ap_main a \<noteq> Exited \<Longrightarrow> stream_step dm lib pem controller_addr (ap_manager a) m \<Longrightarrow>
    app_step dm lib pem controller_addr a (a\<lparr>ap_manager := m\<rparr>)"
| manager_watcher: "ap_main a \<noteq> Exited \<Longrightarrow> watcher_step (ap_manager a) m \<Longrightarrow>
    app_step dm lib pem controller_addr a (a\<lparr>ap_manager := m\<rparr>)"
| main_wakes: "ap_main a = Waiting \<Longrightarrow> ap_token a \<Longrightarrow>
    app_step dm lib pem controller_addr a (a\<lparr>ap_main := Join_Http\<rparr>)"
| http_joined: "ap_main a = Join_Http \<Longrightarrow> sv_phase (ap_servers a False) = Returned r \<Longrightarrow>
    app_step dm lib pem controller_addr a (a\<lparr>ap_main := Join_Https\<rparr>)"
| https_joined: "ap_main a = Join_Https \<Longrightarrow> sv_phase (ap_servers a True) = Returned r \<Longrightarrow>
    app_step dm lib pem controller_addr a (a\<lparr>ap_main := Stop_Manager\<rparr>)"
| stop_manager: "ap_main a = Stop_Manager \<Longrightarrow>
    app_step dm lib pem controller_addr a (a\<lparr>ap_main := Join_Manager, ap_manager := cancel (ap_manager a)\<rparr>)"
| main_returns: "ap_main a = Join_Manager \<Longrightarrow> joined (ap_manager a) \<Longrightarrow>
    app_step dm lib pem controller_addr a (a\<lparr>ap_main := Exited\<rparr>)"

inductive app_reachable ::
  "'d counters \<Rightarrow> ('h, 'u) http_lib \<Rightarrow> 'k pem_lib \<Rightarrow> string \<Rightarrow> ('d, 'k) app \<Rightarrow> bool"
  for dm lib pem controller_addr where
  app_start: "app_reachable dm lib pem controller_addr app_init"
| app_run: "app_reachable dm lib pem controller_addr a \<Longrightarrow> app_step dm lib pem controller_addr a b \<Longrightarrow>
    app_reachable dm lib pem controller_addr b"

section \<open>The invariant\<close>

definition returned :: "server \<Rightarrow> bool" where
  "returned v \<longleftrightarrow> (\<exists>r. sv_phase v = Returned r)"

lemma returned_step: "server_step sh v w \<Longrightarrow> returned v \<Longrightarrow> returned w"
  by (erule server_stepE) (auto simp: returned_def)

lemma returned_request: "conn_request v w \<Longrightarrow> returned v = returned w"
  by (erule conn_request.cases) (auto simp: returned_def)

definition conn_requests :: "(bool \<Rightarrow> server) \<Rightarrow> nat" where
  "conn_requests sv = server_requests (sv False) + server_requests (sv True)"

lemma conn_requests_upd:
  "conn_requests (sv(tls := v)) + server_requests (sv tls) = conn_requests sv + server_requests v"
  by (cases tls) (simp_all add: conn_requests_def)

definition app_inv ::
  "'d counters \<Rightarrow> ('h, 'u) http_lib \<Rightarrow> 'k pem_lib \<Rightarrow> string \<Rightarrow> ('d, 'k) app \<Rightarrow> bool" where
  "app_inv dm lib pem controller_addr a \<longleftrightarrow>
     manager_reachable dm lib pem controller_addr (ap_manager a)
     \<and> (\<forall>tls. server_inv (ap_token a) (ap_servers a tls))
     \<and> in_flight (gm_plane (ap_manager a)) = conn_requests (ap_servers a)
     \<and> (ap_main a \<noteq> Waiting \<longrightarrow> ap_token a)
     \<and> (ap_main a \<notin> {Waiting, Join_Http} \<longrightarrow> returned (ap_servers a False))
     \<and> (ap_main a \<in> {Stop_Manager, Join_Manager, Exited} \<longrightarrow> returned (ap_servers a True))
     \<and> (gm_cancelled (ap_manager a) \<longleftrightarrow> ap_main a \<in> {Join_Manager, Exited})"

lemma in_flight_update [simp]: "in_flight (plane_update dm fb snap p) = in_flight p"
  by (simp add: in_flight_def plane_update_def split_def Let_def)

lemma stream_frame:
  "stream_step dm lib pem addr m n \<Longrightarrow>
   gm_cancelled n = gm_cancelled m \<and> gm_watcher n = gm_watcher m \<and> in_flight (gm_plane n) = in_flight (gm_plane m)"
  by (erule stream_step.cases) (simp_all add: back_off_def)

lemma app_inv_init: "app_inv dm lib pem addr app_init"
proof -
  have "\<not> gm_cancelled manager_init" "in_flight (gm_plane manager_init) = 0" "server_requests server_init = 0"
    by (simp_all add: manager_init_def plane_init_def in_flight_def server_init_def server_requests_def)
  then show ?thesis by (simp add: app_inv_def app_init_def server_inv_init start conn_requests_def)
qed

lemma app_inv_servers:
  assumes "app_inv dm lib pem addr a" "server_inv (ap_token a) v" "returned (ap_servers a tls) \<Longrightarrow> returned v"
    "manager_reachable dm lib pem addr m" "gm_cancelled m = gm_cancelled (ap_manager a)"
    "in_flight (gm_plane m) = conn_requests ((ap_servers a)(tls := v))"
  shows "app_inv dm lib pem addr (a\<lparr>ap_servers := (ap_servers a)(tls := v), ap_manager := m\<rparr>)"
  using assms by (auto simp: app_inv_def)

lemma app_inv_step:
  assumes "app_step dm lib pem addr a b" "app_inv dm lib pem addr a"
  shows "app_inv dm lib pem addr b"
  using assms(1)
proof (cases rule: app_step.cases)
  case (listener tls v)
  have "app_inv dm lib pem addr (a\<lparr>ap_servers := (ap_servers a)(tls := v), ap_manager := ap_manager a\<rparr>)"
    using assms(2) listener(3) server_inv_step returned_step server_step_sum [OF listener(3)]
      conn_requests_upd [of "ap_servers a" tls v]
    by (intro app_inv_servers) (auto simp: app_inv_def)
  with listener show ?thesis by simp
next
  case (request_begins tls v p)
  show ?thesis
    unfolding request_begins(1)
    using assms(2) request_begins(3-) server_inv_request(1) returned_request conn_request_sum [OF request_begins(3)]
      conn_requests_upd [of "ap_servers a" tls v]
    by (intro app_inv_servers) (auto simp: app_inv_def intro: run request_task)
next
  case (request_goes_on p)
  then show ?thesis using assms(2) by (auto simp: app_inv_def intro: run request_task)
next
  case (request_ends v tls p)
  show ?thesis
    unfolding request_ends(1)
    using assms(2) request_ends(3-) server_inv_request(2) returned_request conn_request_sum [OF request_ends(3)]
      conn_requests_upd [of "ap_servers a" tls v]
    by (intro app_inv_servers) (auto simp: app_inv_def intro: run request_task)
next
  case (manager_stream m)
  then show ?thesis
    using assms(2) stream_frame [OF manager_stream(3)] by (auto simp: app_inv_def intro: run stream_task)
next
  case (manager_watcher m)
  then show ?thesis
    using assms(2) watcher_frame [OF manager_watcher(3)] watcher_cancelled [OF manager_watcher(3)]
    by (auto simp: app_inv_def intro: run watcher_task)
next
  case stop_manager
  have "manager_reachable dm lib pem addr (cancel (ap_manager a))"
    using assms(2) by (auto simp: app_inv_def intro: run shutdown)
  with stop_manager assms(2) show ?thesis by (auto simp: app_inv_def cancel_def)
qed (use assms(2) in \<open>auto simp: app_inv_def returned_def intro: server_inv_shutdown\<close>)

lemma app_inv_reachable: "app_reachable dm lib pem addr a \<Longrightarrow> app_inv dm lib pem addr a"
  by (induction rule: app_reachable.induct) (auto intro: app_inv_init app_inv_step)

text \<open>
  C13: the order of a shutdown.  Once the manager has been cancelled, both listeners have
  returned and every connection they accepted has ended; the requests still in flight are
  exactly those that have outlived their connection; and if there are none, every
  connection counter of the routing table is zero.
\<close>

theorem graceful_shutdown:
  assumes "counter_map dm" and "app_reachable dm lib pem controller_addr a" and "gm_cancelled (ap_manager a)"
  shows "sv_conns (ap_servers a tls) = [] \<and> sv_finished (ap_servers a tls) = sv_accepted (ap_servers a tls)
    \<and> in_flight (gm_plane (ap_manager a)) = sv_orphans (ap_servers a False) + sv_orphans (ap_servers a True)
    \<and> (sv_orphans (ap_servers a False) = 0 \<and> sv_orphans (ap_servers a True) = 0 \<longrightarrow>
        (\<forall>x. x \<in> table_counters dm (tab_clusters (pl_table (gm_plane (ap_manager a))))
          \<longrightarrow> cells (pl_store (gm_plane (ap_manager a))) x = 0))"
proof -
  note inv = app_inv_reachable [OF assms(2)]
  have ret: "returned (ap_servers a tls)" for tls
    using inv assms(3) by (cases tls) (auto simp: app_inv_def)
  have drained: "sv_conns (ap_servers a tls) = [] \<and> sv_finished (ap_servers a tls) = sv_accepted (ap_servers a tls)" for tls
    using inv ret [of tls] by (auto simp: app_inv_def returned_def dest: returned_drained)
  have flight: "in_flight (gm_plane (ap_manager a)) = sv_orphans (ap_servers a False) + sv_orphans (ap_servers a True)"
    using inv drained by (simp add: app_inv_def conn_requests_def server_requests_def)
  moreover have "cells (pl_store (gm_plane (ap_manager a))) x = 0"
    if "x \<in> table_counters dm (tab_clusters (pl_table (gm_plane (ap_manager a))))"
      and none: "in_flight (gm_plane (ap_manager a)) = 0" for x
  proof -
    have "plane_reachable dm (header_name_from_bytes lib) (gm_plane (ap_manager a))"
      using inv by (auto simp: app_inv_def intro: plane_inv.always)
    then obtain K where "plane_inv dm K (gm_plane (ap_manager a))"
      using counter_map.plane_inv_reachable [OF assms(1)] by blast
    with that show ?thesis by (auto simp: plane_inv_def in_flight_def)
  qed
  ultimately show ?thesis using drained by simp
qed

section \<open>A shutdown can be completed\<close>

fun main_rank :: "main_phase \<Rightarrow> nat" where
  "main_rank Waiting = 5"
| "main_rank Join_Http = 4"
| "main_rank Join_Https = 3"
| "main_rank Stop_Manager = 2"
| "main_rank Join_Manager = 1"
| "main_rank Exited = 0"

fun server_rank :: "server_phase \<Rightarrow> nat" where
  "server_rank Binding = 3"
| "server_rank Accepting = 2"
| "server_rank Draining = 1"
| "server_rank (Returned _) = 0"

fun watcher_rank :: "watcher \<Rightarrow> nat" where
  "watcher_rank Watch_Client = 3"
| "watcher_rank Watch_Key = 2"
| "watcher_rank Watch_Sleep = 1"
| "watcher_rank Watch_Stopped = 0"

definition app_rank :: "('d, 'k) app \<Rightarrow> nat" where
  "app_rank a = main_rank (ap_main a)
     + (server_rank (sv_phase (ap_servers a False)) + length (sv_conns (ap_servers a False)))
     + (server_rank (sv_phase (ap_servers a True)) + length (sv_conns (ap_servers a True)))
     + (2 * size (pl_selected (gm_plane (ap_manager a))) + size (pl_active (gm_plane (ap_manager a))))
     + stop_rank (gm_phase (ap_manager a)) + watcher_rank (gm_watcher (ap_manager a))"

lemma select_progress:
  assumes "pl_selected p \<noteq> {#}"
  obtains q where "request_step dm p q" "in_flight q = in_flight p"
    "2 * size (pl_selected q) + size (pl_active q) < 2 * size (pl_selected p) + size (pl_active p)"
proof -
  obtain c where c: "c \<in># pl_selected p" using assms by blast
  then have "Suc (size (pl_selected p - {#c#})) = size (pl_selected p)" by (rule size_Suc_Diff1)
  then show thesis by (intro that [OF acquire [OF c]]) (simp_all add: in_flight_def)
qed

lemma active_progress:
  assumes "pl_active p \<noteq> {#}"
  obtains q where "request_step dm p q" "Suc (in_flight q) = in_flight p"
    "2 * size (pl_selected q) + size (pl_active q) < 2 * size (pl_selected p) + size (pl_active p)"
proof -
  obtain c where c: "c \<in># pl_active p" using assms by blast
  then have "Suc (size (pl_active p - {#c#})) = size (pl_active p)" by (rule size_Suc_Diff1)
  then show thesis by (intro that [OF release [OF c]]) (simp_all add: in_flight_def)
qed

lemma busy_connection:
  assumes "server_inv sh w" "0 < server_requests w"
  obtains v where "conn_request v w" "sv_phase v = sv_phase w" "length (sv_conns v) = length (sv_conns w)"
proof (cases "sum_list (sv_conns w) = 0")
  case True
  with assms(2) have "0 < sv_orphans w" unfolding server_requests_def by linarith
  then obtain k where k: "sv_orphans w = Suc k" unfolding gr0_conv_Suc by blast
  let ?v = "w\<lparr>sv_orphans := k\<rparr>"
  have "sv_finished ?v \<noteq> 0" using assms(1) k by (auto simp: server_inv_def)
  then have "conn_request ?v (?v\<lparr>sv_orphans := Suc (sv_orphans ?v)\<rparr>)" by (rule of_ended)
  moreover have "?v\<lparr>sv_orphans := Suc (sv_orphans ?v)\<rparr> = w" using k by (cases w) simp
  ultimately show thesis using that [of ?v] by simp
next
  case False
  then have "\<not> (\<forall>n \<in> set (sv_conns w). n = 0)"
    by (simp only: sum_list_eq_0_iff [symmetric]) simp
  then obtain n where "n \<in> set (sv_conns w)" "0 < n" by auto
  then obtain xs ys k where w: "sv_conns w = xs @ Suc k # ys" by (auto simp: gr0_conv_Suc dest!: split_list)
  let ?v = "w\<lparr>sv_conns := xs @ k # ys\<rparr>"
  have "conn_request ?v (?v\<lparr>sv_conns := xs @ Suc k # ys\<rparr>)" by (rule of_conn) simp
  moreover have "?v\<lparr>sv_conns := xs @ Suc k # ys\<rparr> = w" using w by (cases w) simp
  ultimately show thesis using w that [of ?v] by simp
qed

lemma idle_server_progress:
  assumes "\<not> returned v \<or> sv_conns v \<noteq> []"
  obtains w where "server_step True v w"
    "server_rank (sv_phase w) + length (sv_conns w) < server_rank (sv_phase v) + length (sv_conns v)"
proof (cases "sv_conns v")
  case Nil
  then show thesis
    using assms that bind_ok [of v True] stop_accepting [of v True] all_joined [of v True]
    by (cases "sv_phase v") (fastforce simp: returned_def)+
next
  case (Cons n ns)
  then have "sv_conns v = [] @ n # ns" by simp
  from that [OF conn_done [OF this]] Cons show thesis by simp
qed

lemma watcher_progress:
  assumes "gm_cancelled m" "gm_watcher m \<noteq> Watch_Stopped"
  obtains n where "watcher_step m n" "watcher_rank (gm_watcher n) < watcher_rank (gm_watcher m)"
    "gm_phase n = gm_phase m" "gm_plane n = gm_plane m"
proof (cases "gm_watcher m")
  case Watch_Sleep
  from that [OF watch_stop [OF this assms(1)]] Watch_Sleep show thesis by simp
next
  case Watch_Client
  have "try_load_and_store None (gm_client m) = (None, gm_client m)" by (simp add: try_load_and_store_def)
  from that [OF watch_client [OF Watch_Client this]] Watch_Client show thesis by simp
next
  case Watch_Key
  have "try_load_and_store None (gm_key m) = (None, gm_key m)" by (simp add: try_load_and_store_def)
  from that [OF watch_key [OF Watch_Key this]] Watch_Key show thesis by simp
next
  case Watch_Stopped
  with assms(2) show thesis by simp
qed

text \<open>Once a shutdown was requested, some task can always bring the process closer to its end.\<close>

lemma request_progress:
  assumes inv: "app_inv dm lib pem addr a" and main: "ap_main a \<noteq> Exited"
    and busy: "in_flight (gm_plane (ap_manager a)) \<noteq> 0"
  obtains b where "app_step dm lib pem addr a b" "app_rank b < app_rank a" "ap_token b = ap_token a"
proof (cases "pl_selected (gm_plane (ap_manager a)) = {#}")
  case False
  then obtain q where q: "request_step dm (gm_plane (ap_manager a)) q" "in_flight q = in_flight (gm_plane (ap_manager a))"
    "2 * size (pl_selected q) + size (pl_active q)
      < 2 * size (pl_selected (gm_plane (ap_manager a))) + size (pl_active (gm_plane (ap_manager a)))"
    by (rule select_progress)
  from that [OF request_goes_on [OF main q(1,2)]] q(3) show thesis by (simp add: app_rank_def)
next
  case True
  with busy have "pl_active (gm_plane (ap_manager a)) \<noteq> {#}" by (auto simp: in_flight_def)
  then obtain q where q: "request_step dm (gm_plane (ap_manager a)) q" "Suc (in_flight q) = in_flight (gm_plane (ap_manager a))"
    "2 * size (pl_selected q) + size (pl_active q)
      < 2 * size (pl_selected (gm_plane (ap_manager a))) + size (pl_active (gm_plane (ap_manager a)))"
    by (rule active_progress)
  have "conn_requests (ap_servers a) \<noteq> 0" using inv busy by (simp add: app_inv_def)
  then have "0 < server_requests (ap_servers a False) \<or> 0 < server_requests (ap_servers a True)"
    unfolding conn_requests_def by linarith
  then obtain tls where "0 < server_requests (ap_servers a tls)" by blast
  moreover have "server_inv (ap_token a) (ap_servers a tls)" using inv by (simp add: app_inv_def)
  ultimately obtain v where v: "conn_request v (ap_servers a tls)" "sv_phase v = sv_phase (ap_servers a tls)"
    "length (sv_conns v) = length (sv_conns (ap_servers a tls))" using busy_connection by blast
  from that [OF request_ends [OF main v(1) q(1,2)]] q(3) v(2,3) show thesis
    by (cases tls) (simp_all add: app_rank_def)
qed

lemma listener_progress:
  assumes main: "ap_main a \<noteq> Exited" and token: "ap_token a" and open_: "\<not> returned (ap_servers a tls)"
  obtains b where "app_step dm lib pem addr a b" "app_rank b < app_rank a" "ap_token b"
proof -
  have "\<not> returned (ap_servers a tls) \<or> sv_conns (ap_servers a tls) \<noteq> []" using open_ by blast
  then obtain w where w: "server_step True (ap_servers a tls) w"
    "server_rank (sv_phase w) + length (sv_conns w)
      < server_rank (sv_phase (ap_servers a tls)) + length (sv_conns (ap_servers a tls))"
    by (rule idle_server_progress)
  then have "server_step (ap_token a) (ap_servers a tls) w" using token by simp
  from that [OF listener [OF main this]] w(2) token show thesis by (cases tls) (simp_all add: app_rank_def)
qed

lemma manager_progress:
  assumes main: "ap_main a = Join_Manager" and can: "gm_cancelled (ap_manager a)"
    and idle: "in_flight (gm_plane (ap_manager a)) = 0" and run: "\<not> joined (ap_manager a)"
  obtains b where "app_step dm lib pem addr a b" "app_rank b < app_rank a" "ap_token b = ap_token a"
proof (cases "gm_phase (ap_manager a) = Stopped")
  case False
  have "pl_selected (gm_plane (ap_manager a)) = {#}" using idle by (simp add: in_flight_def)
  with can False obtain m where m: "stream_step dm lib pem addr (ap_manager a) m"
    "stop_rank (gm_phase m) < stop_rank (gm_phase (ap_manager a))"
    "gm_plane m = gm_plane (ap_manager a)
      \<or> (\<exists>snap. gm_plane m = plane_update dm (header_name_from_bytes lib) snap (gm_plane (ap_manager a)))"
    "gm_watcher m = gm_watcher (ap_manager a)"
    by (rule cancelled_progress)
  from that [OF manager_stream [OF _ m(1)]] m(2-) main show thesis by (auto simp: app_rank_def)
next
  case True
  with run have "gm_watcher (ap_manager a) \<noteq> Watch_Stopped" by (simp add: joined_def)
  with can obtain n where n: "watcher_step (ap_manager a) n"
    "watcher_rank (gm_watcher n) < watcher_rank (gm_watcher (ap_manager a))"
    "gm_phase n = gm_phase (ap_manager a)" "gm_plane n = gm_plane (ap_manager a)"
    by (rule watcher_progress)
  from that [OF manager_watcher [OF _ n(1)]] n(2-) main show thesis by (simp add: app_rank_def)
qed

lemma app_progress:
  assumes inv: "app_inv dm lib pem addr a" and token: "ap_token a" and main: "ap_main a \<noteq> Exited"
  obtains b where "app_step dm lib pem addr a b" "app_rank b < app_rank a" "ap_token b"
proof (cases "in_flight (gm_plane (ap_manager a)) = 0")
  case False
  show thesis by (rule request_progress [OF inv main False]) (use that token in simp)
next
  case idle: True
  show thesis
  proof (cases "returned (ap_servers a False) \<and> returned (ap_servers a True)")
    case False
    then obtain tls where "\<not> returned (ap_servers a tls)" by blast
    then show thesis by (rule listener_progress [OF main token]) (rule that)
  next
    case True
    then obtain r r' where ret: "sv_phase (ap_servers a False) = Returned r" "sv_phase (ap_servers a True) = Returned r'"
      by (auto simp: returned_def)
    show thesis
    proof (cases "ap_main a")
      case Waiting
      from that [OF main_wakes [OF this token]] Waiting token show thesis by (simp add: app_rank_def)
    next
      case Join_Http
      from that [OF http_joined [OF this ret(1)]] Join_Http token show thesis by (simp add: app_rank_def)
    next
      case Join_Https
      from that [OF https_joined [OF this ret(2)]] Join_Https token show thesis by (simp add: app_rank_def)
    next
      case Stop_Manager
      from that [OF stop_manager [OF this]] Stop_Manager token show thesis by (simp add: app_rank_def cancel_def)
    next
      case Join_Manager
      have can: "gm_cancelled (ap_manager a)" using inv Join_Manager by (simp add: app_inv_def)
      show thesis
      proof (cases "joined (ap_manager a)")
        case True
        from that [OF main_returns [OF Join_Manager True]] Join_Manager token show thesis by (simp add: app_rank_def)
      next
        case False
        show thesis by (rule manager_progress [OF Join_Manager can idle False]) (use that token in simp)
      qed
    next
      case Exited
      with main show thesis by simp
    qed
  qed
qed

lemma app_inv_completes:
  assumes "app_inv dm lib pem controller_addr a" and "ap_token a"
  shows "\<exists>n b. n \<le> app_rank a \<and> (app_step dm lib pem controller_addr ^^ n) a b \<and> ap_main b = Exited"
  using assms
proof (induction "app_rank a" arbitrary: a rule: less_induct)
  case less
  show ?case
  proof (cases "ap_main a = Exited")
    case True
    then show ?thesis by (intro exI [of _ 0]) auto
  next
    case False
    obtain b where b: "app_step dm lib pem controller_addr a b" "app_rank b < app_rank a" "ap_token b"
      by (rule app_progress [OF less.prems False])
    with less.hyps [of b] less.prems obtain n c where
      "n \<le> app_rank b" "(app_step dm lib pem controller_addr ^^ n) b c" "ap_main c = Exited"
      by (blast intro: app_inv_step)
    with b relpowp_Suc_I2 [of "app_step dm lib pem controller_addr" a b n c] show ?thesis
      by (intro exI [of _ "Suc n"] exI [of _ c]) (simp del: relpowp.simps)
  qed
qed

text \<open>
  C14: a shutdown can always be completed.  From every reachable state in which a shutdown
  was requested, whatever connections and requests are open and wherever the manager is,
  the process has a run that ends, of at most as many steps as \<open>app_rank\<close> counts: there is
  no deadlock between draining, the locks and the tasks that are joined.  In that run every
  call that is awaited returns.
\<close>

theorem shutdown_completes:
  assumes "app_reachable dm lib pem controller_addr a" and "ap_token a"
  shows "\<exists>n b. n \<le> app_rank a \<and> (app_step dm lib pem controller_addr ^^ n) a b \<and> ap_main b = Exited"
  using app_inv_completes [OF app_inv_reachable [OF assms(1)] assms(2)] .

text \<open>A signal right after the start.\<close>

abbreviation "demo_process \<equiv> app_reachable alist_dash demo_lib no_pem ''https://controller:18000''"

lemma signalled_reachable: "app_reachable dm lib pem addr (app_init\<lparr>ap_token := True\<rparr>)"
  by (rule app_run [OF app_start], rule signal) (simp add: app_init_def)

theorem shutdown_completes_witness:
  "\<exists>n b. (app_step alist_dash demo_lib no_pem ''https://controller:18000'' ^^ n) (app_init\<lparr>ap_token := True\<rparr>) b
     \<and> ap_main b = Exited"
  using shutdown_completes [OF signalled_reachable, of alist_dash demo_lib no_pem "''https://controller:18000''"]
  by auto

lemma app_reachable_pow:
  "(app_step dm lib pem addr ^^ n) a b \<Longrightarrow> app_reachable dm lib pem addr a \<Longrightarrow> app_reachable dm lib pem addr b"
  by (induction n arbitrary: b) (auto intro: app_run)

theorem graceful_shutdown_witness:
  "\<exists>b. demo_process b \<and> ap_main b = Exited
    \<and> in_flight (gm_plane (ap_manager b)) = sv_orphans (ap_servers b False) + sv_orphans (ap_servers b True)"
proof -
  let ?a = "app_init\<lparr>ap_token := True\<rparr> :: ((endpoint_key \<times> arc) list, unit) app"
  have "demo_process ?a" by (rule signalled_reachable)
  moreover have "ap_token ?a" by simp
  ultimately obtain n b where b: "(app_step alist_dash demo_lib no_pem ''https://controller:18000'' ^^ n) ?a b"
    "ap_main b = Exited"
    using app_inv_completes [OF app_inv_reachable] by blast
  then have reach: "demo_process b" using \<open>demo_process ?a\<close> by (blast intro: app_reachable_pow)
  then have "gm_cancelled (ap_manager b)" using app_inv_reachable [OF reach] b(2) by (simp add: app_inv_def)
  with graceful_shutdown [OF counter_map_alist reach] reach b(2) show ?thesis by blast
qed

section \<open>A listener that cannot bind\<close>

text \<open>The HTTP listener has failed with \<open>err\<close>, everything else goes on.\<close>

definition without_http ::
  "'d counters \<Rightarrow> ('h, 'u) http_lib \<Rightarrow> 'k pem_lib \<Rightarrow> string \<Rightarrow> string \<Rightarrow> ('d, 'k) manager \<Rightarrow> ('d, 'k) app \<Rightarrow> bool" where
  "without_http dm lib pem controller_addr err m a \<longleftrightarrow>
     app_reachable dm lib pem controller_addr a \<and> ap_manager a = m \<and> ap_main a = Waiting
     \<and> sv_phase (ap_servers a False) = Returned (Some err) \<and> sv_phase (ap_servers a True) = Accepting"

lemma without_http_start:
  fixes dm :: "'d counters" and pem :: "'k pem_lib"
  shows "\<exists>a. without_http dm lib pem addr err manager_init a"
proof -
  let ?a = "(app_init :: ('d, 'k) app)\<lparr>ap_servers := (\<lambda>_. server_init)(False := server_init\<lparr>sv_phase := Returned (Some err)\<rparr>)\<rparr>"
  let ?b = "?a\<lparr>ap_servers := (ap_servers ?a)(True := server_init\<lparr>sv_phase := Accepting\<rparr>)\<rparr>"
  have "app_step dm lib pem addr app_init ?a"
    using listener [of app_init False "server_init\<lparr>sv_phase := Returned (Some err)\<rparr>"] bind_failed [of server_init False err]
    by (simp add: app_init_def server_init_def)
  moreover have "app_step dm lib pem addr ?a ?b"
    using listener [of ?a True "server_init\<lparr>sv_phase := Accepting\<rparr>"] bind_ok [of server_init False]
    by (simp add: app_init_def server_init_def)
  ultimately have "app_reachable dm lib pem addr ?b" by (blast intro: app_start app_run)
  then show ?thesis unfolding without_http_def by (intro exI [of _ ?b]) (simp add: app_init_def)
qed

lemma without_http_manager:
  assumes "without_http dm lib pem addr err m a" "app_step dm lib pem addr a (a\<lparr>ap_manager := n\<rparr>)"
  shows "without_http dm lib pem addr err n (a\<lparr>ap_manager := n\<rparr>)"
  using assms by (auto simp: without_http_def intro: app_run)

lemma without_http_select:
  assumes "without_http dm lib pem addr err m a" "request_step dm (gm_plane m) p"
    "in_flight p = Suc (in_flight (gm_plane m))"
  shows "\<exists>b. without_http dm lib pem addr err (m\<lparr>gm_plane := p\<rparr>) b"
proof -
  let ?v = "ap_servers a True"
  let ?v1 = "?v\<lparr>sv_conns := sv_conns ?v @ [0], sv_accepted := Suc (sv_accepted ?v)\<rparr>"
  let ?v2 = "?v1\<lparr>sv_conns := sv_conns ?v @ [Suc 0]\<rparr>"
  let ?a1 = "a\<lparr>ap_servers := (ap_servers a)(True := ?v1)\<rparr>"
  let ?a2 = "?a1\<lparr>ap_servers := (ap_servers ?a1)(True := ?v2), ap_manager := (ap_manager ?a1)\<lparr>gm_plane := p\<rparr>\<rparr>"
  have "app_step dm lib pem addr a ?a1"
    using assms(1) by (intro listener accept_conn) (simp_all add: without_http_def)
  moreover have "conn_request ?v1 ?v2" using of_conn [of ?v1 "sv_conns ?v" 0 "[]"] by simp
  then have "app_step dm lib pem addr ?a1 ?a2"
    using assms by (intro request_begins) (simp_all add: without_http_def)
  ultimately have "app_reachable dm lib pem addr ?a2"
    using assms(1) by (auto simp: without_http_def intro: app_run)
  then show ?thesis using assms(1) by (intro exI [of _ ?a2]) (simp add: without_http_def)
qed

lemma without_http_release:
  assumes "without_http dm lib pem addr err m a" "request_step dm (gm_plane m) p"
    "Suc (in_flight p) = in_flight (gm_plane m)"
  shows "\<exists>b. without_http dm lib pem addr err (m\<lparr>gm_plane := p\<rparr>) b"
proof -
  have a: "ap_main a \<noteq> Exited" "ap_manager a = m" using assms(1) by (simp_all add: without_http_def)
  have inv: "app_inv dm lib pem addr a" using assms(1) by (simp add: without_http_def app_inv_reachable)
  then have "server_inv (ap_token a) (ap_servers a False)" and sv: "server_inv (ap_token a) (ap_servers a True)"
    by (simp_all add: app_inv_def)
  then have "server_requests (ap_servers a False) = 0"
    using assms(1) by (auto simp: server_inv_def without_http_def server_requests_def)
  with inv assms(3) a have "0 < server_requests (ap_servers a True)"
    by (simp add: app_inv_def conn_requests_def)
  with sv obtain v where v: "conn_request v (ap_servers a True)" "sv_phase v = sv_phase (ap_servers a True)"
    using busy_connection by blast
  let ?b = "a\<lparr>ap_servers := (ap_servers a)(True := v), ap_manager := (ap_manager a)\<lparr>gm_plane := p\<rparr>\<rparr>"
  have "app_step dm lib pem addr a ?b"
    using a v(1) assms(2,3) by (intro request_ends) simp_all
  then have "app_reachable dm lib pem addr ?b"
    using assms(1) by (auto simp: without_http_def intro: app_run)
  then show ?thesis using assms(1) v(2) by (intro exI [of _ ?b]) (simp add: without_http_def)
qed

lemma without_http_request:
  assumes "without_http dm lib pem addr err m a" "request_step dm (gm_plane m) p"
  shows "\<exists>b. without_http dm lib pem addr err (m\<lparr>gm_plane := p\<rparr>) b"
  using assms(2)
proof (cases rule: request_step.cases)
  case (select name sel s')
  then show ?thesis using without_http_select [OF assms] by (simp add: in_flight_def)
next
  case (acquire c)
  have "in_flight p = in_flight (gm_plane m)"
    using size_Suc_Diff1 [OF acquire(2)] by (simp add: acquire(1) in_flight_def)
  then have "app_step dm lib pem addr a (a\<lparr>ap_manager := m\<lparr>gm_plane := p\<rparr>\<rparr>)"
    using request_goes_on [of a dm p] assms by (auto simp: without_http_def)
  with assms(1) show ?thesis by (blast intro: without_http_manager)
next
  case (release c)
  then show ?thesis using without_http_release [OF assms] size_Suc_Diff1 [OF release(2)] by (simp add: in_flight_def)
qed

text \<open>
  C28: a listener that cannot bind its port goes unnoticed.  Whatever the error, every state
  of the manager and its requests that is reachable before a shutdown is also reachable
  with the HTTP listener gone and the main task still waiting for a signal: nothing stops
  the process, and readiness does not depend on the listener.
\<close>

theorem bind_failure_unnoticed:
  assumes "manager_reachable dm lib pem controller_addr m" and "\<not> gm_cancelled m"
  shows "\<exists>a. app_reachable dm lib pem controller_addr a \<and> ap_manager a = m \<and> ap_main a = Waiting
    \<and> sv_phase (ap_servers a False) = Returned (Some err)"
proof -
  have "\<exists>a. without_http dm lib pem controller_addr err m a"
    using assms
  proof (induction rule: manager_reachable.induct)
    case start
    show ?case by (rule without_http_start)
  next
    case (run m n)
    from run.hyps(2) show ?case
    proof (cases rule: manager_step.cases)
      case stream_task
      then obtain a where a: "without_http dm lib pem controller_addr err m a"
        using run stream_frame by blast
      then have "app_step dm lib pem controller_addr a (a\<lparr>ap_manager := n\<rparr>)"
        using stream_task by (intro manager_stream) (simp_all add: without_http_def)
      with a show ?thesis by (blast intro: without_http_manager)
    next
      case watcher_task
      then obtain a where a: "without_http dm lib pem controller_addr err m a"
        using run watcher_cancelled by blast
      then have "app_step dm lib pem controller_addr a (a\<lparr>ap_manager := n\<rparr>)"
        using watcher_task by (intro manager_watcher) (simp_all add: without_http_def)
      with a show ?thesis by (blast intro: without_http_manager)
    next
      case (request_task p)
      then show ?thesis using run without_http_request by auto
    next
      case shutdown
      with run.prems show ?thesis by (simp add: cancel_def)
    qed
  qed
  then show ?thesis by (auto simp: without_http_def)
qed

theorem bind_failure_unnoticed_witness:
  "\<exists>a. demo_process a \<and> ap_main a = Waiting
    \<and> sv_phase (ap_servers a False) = Returned (Some ''address in use'')
    \<and> rs_status (echo demo_lib readyz (gm_ready (ap_manager a))) = OK"
proof -
  have "\<not> gm_cancelled demo_open" by (simp add: demo_simps)
  from bind_failure_unnoticed [OF demo_open_reachable this, of "''address in use''"] obtain a where
    a: "demo_process a" "ap_manager a = demo_open"
    "ap_main a = Waiting" "sv_phase (ap_servers a False) = Returned (Some ''address in use'')" by blast
  moreover have "rs_status (echo demo_lib readyz (gm_ready demo_open)) = OK"
    by (simp add: echo_def Let_def readyz_def demo_request_def demo_lib_def parts_lib_def response_new_def demo_open_def)
  ultimately show ?thesis by auto
qed

end
