(* ===== verification/Tasks.thy ===== *)
theory Tasks
  imports Proxy
begin

text \<open>
  Concurrent requests.  \<open>proxy_handler\<close> as a task that is interrupted wherever it touches
  shared state or waits for the network: it selects an endpoint, counts itself in and
  releases the lock of the table, sends the authorization subrequest and waits for its
  answer, makes one attempt after the other, and counts itself out.  A system runs any
  number of such tasks, drops some of them while they wait, and replaces the table in
  between.  A single task run to its end is \<open>proxy_handler\<close>; the system projects to the
  state machine of theory \<open>Inflight\<close>; a task ends unless its subrequest is never answered.
\<close>

section \<open>One task\<close>

text \<open>What the task remembers once it has a target.\<close>

record ('h, 'u, 'b, 'd) job =
  jb_request :: "('h, 'u, 'b) request"
  jb_host :: string
  jb_cluster :: "'d cluster_rule"
  jb_selection :: selected_endpoint

text \<open>
  \<open>Asking\<close> waits for the answer to the authorization subrequest, the last of the requests it
  holds; a task whose future was dropped is \<open>Dropped\<close>.
\<close>

datatype ('h, 'u, 'b, 'r, 'd) task =
    Arrived "('h, 'u, 'b) request"
  | Chosen "('h, 'u, 'b, 'd) job"
  | Counted "('h, 'u, 'b, 'd) job"
  | Asking "('h, 'u, 'b, 'd) job" auth_config_dex string "('h, 'u, 'b) sent list"
  | Attempting "arc option" string "('h, 'u, 'b) sent list" string
  | Ending "arc option" "('h, 'r body) response"
  | Finished "('h, 'r body) response"
  | Dropped

text \<open>
  From the arrival to the selection, under the read lock of the table; \<open>loads\<close> is what the
  loads of a least-connections scan return.
\<close>

definition choose_target ::
  "'d counters \<Rightarrow> ('h, 'u) http_lib \<Rightarrow> 'd route_table \<Rightarrow> ('h, 'u, 'b) request \<Rightarrow> loads \<Rightarrow> store
    \<Rightarrow> ('h, 'u, 'b, 'r, 'd) task \<times> store" where
  "choose_target dm lib t req loads s =
     (let hm = hl_headers lib in
      case extract_host lib req of
        Inl resp \<Rightarrow> (Finished resp, s)
      | Inr host \<Rightarrow>
          (case resolve_route hm t host (uri_path lib (rq_uri req)) of
             Inl resp \<Rightarrow> (Finished resp, s)
           | Inr rule \<Rightarrow>
               (case resolve_cluster hm t rule of
                  Inl resp \<Rightarrow> (Finished resp, s)
                | Inr cluster_rules \<Rightarrow>
                    (case resolve_endpoint dm hm t rule loads s of
                       (Inl resp, s') \<Rightarrow> (Finished resp, s')
                     | (Inr sel, s') \<Rightarrow>
                         (Chosen \<lparr>jb_request = req, jb_host = host, jb_cluster = cluster_rules,
                                  jb_selection = sel\<rparr>, s')))))"

text \<open>The plan of attempts for a request that has passed the gate.\<close>

definition go_upstream ::
  "('h, 'u) http_lib \<Rightarrow> ('u, 'e) fmt_lib \<Rightarrow> ('b \<Rightarrow> bool) \<Rightarrow> ('h, 'u, 'b, 'd) job \<Rightarrow> ('h, 'u, 'b) request
    \<Rightarrow> ('h, 'u, 'b, 'r, 'd) task" where
  "go_upstream lib fmt is_end_stream j req =
     (let ep = se_endpoint (jb_selection j) in
      Attempting (se_counter (jb_selection j)) (address ep)
        (upstream_plan lib is_end_stream (jb_cluster j) ep (jb_host j)
           (rq_frontend_tls (jb_request j) = Some True) req)
        (no_attempt_text fmt (address ep)))"

text \<open>The authorization up to the wait for the answer to its subrequest.\<close>

definition pass_gate ::
  "('h, 'u) http_lib \<Rightarrow> ('u, 'e) fmt_lib \<Rightarrow> ('b \<Rightarrow> bool) \<Rightarrow> ('h, 'u, 'b, 'd) job \<Rightarrow> ('h, 'u, 'b) sent list
    \<Rightarrow> ('h, 'u, 'b, 'r, 'd) task \<times> ('h, 'u, 'b) sent list" where
  "pass_gate lib fmt is_end_stream j trace =
     (let c = jb_cluster j; counter = se_counter (jb_selection j); req = jb_request j; host = jb_host j;
          tls = (rq_frontend_tls req = Some True)
      in case cr_auth c of
           None \<Rightarrow> (go_upstream lib fmt is_end_stream j req, trace)
         | Some auth \<Rightarrow>
             if list_ex (\<lambda>p. starts_with (uri_path lib (rq_uri req)) p) (ax_skip_paths auth)
             then (go_upstream lib fmt is_end_stream j req, trace)
             else case cookie_redirect lib req auth host tls of
               Some resp \<Rightarrow> (Ending counter resp, trace)
             | None \<Rightarrow>
                 (case auth_request_for lib fmt req auth host tls of
                    Inl resp \<Rightarrow> (Ending counter resp, trace)
                  | Inr (auth_url, auth_req) \<Rightarrow>
                      (let trace' = trace @ [\<lparr>snt_insecure = cr_backend_tls_insecure_skip_verify c,
                                             snt_timeout = None, snt_request = auth_req\<rparr>]
                       in (Asking j auth auth_url trace', trace'))))"

text \<open>The rest of the authorization, once the answer is there.\<close>

definition gate_answer ::
  "('h, 'u) http_lib \<Rightarrow> ('u, 'e) fmt_lib \<Rightarrow> ('h, 'u, 'b, 'r, 'e) network \<Rightarrow> ('b \<Rightarrow> bool)
    \<Rightarrow> ('h, 'u, 'b, 'd) job \<Rightarrow> auth_config_dex \<Rightarrow> string \<Rightarrow> ('h, 'u, 'b) sent list
    \<Rightarrow> ('h, 'u, 'b, 'r, 'd) task" where
  "gate_answer lib fmt net is_end_stream j auth auth_url sent =
     (case auth_answered lib fmt (jb_request j) auth auth_url (jb_host j)
             (rq_frontend_tls (jb_request j) = Some True) (net_reply net sent) of
        Inl resp \<Rightarrow> Ending (se_counter (jb_selection j)) resp
      | Inr req' \<Rightarrow> go_upstream lib fmt is_end_stream j req')"

text \<open>One attempt: the next request of the plan, and what its outcome means.\<close>

definition attempt ::
  "('h, 'u) http_lib \<Rightarrow> ('u, 'e) fmt_lib \<Rightarrow> ('h, 'u, 'b, 'r, 'e) network \<Rightarrow> arc option \<Rightarrow> string
    \<Rightarrow> ('h, 'u, 'b) sent list \<Rightarrow> string \<Rightarrow> ('h, 'u, 'b) sent list
    \<Rightarrow> ('h, 'u, 'b, 'r, 'd) task \<times> ('h, 'u, 'b) sent list" where
  "attempt lib fmt net counter addr plan err trace =
     (case plan of
        [] \<Rightarrow> (Ending counter (text_response (hl_headers lib) BAD_GATEWAY err), trace)
      | x # xs \<Rightarrow>
          (let trace' = trace @ [x] in
           case attempt_error fmt net addr trace' of
             Some err' \<Rightarrow> (Attempting counter addr xs err', trace')
           | None \<Rightarrow>
               (case net_reply net trace' of
                  Inl _ \<Rightarrow> (Ending counter (text_response (hl_headers lib) BAD_GATEWAY err), trace')
                | Inr resp \<Rightarrow>
                    (Ending counter
                       \<lparr>rs_status = rs_status resp,
                        rs_headers = remove_hop_headers (hl_headers lib) (rs_headers resp),
                        rs_body = Boxed (rs_body resp)\<rparr>, trace'))))"

fun task_step ::
  "'d counters \<Rightarrow> ('h, 'u) http_lib \<Rightarrow> ('u, 'e) fmt_lib \<Rightarrow> ('h, 'u, 'b, 'r, 'e) network \<Rightarrow> ('b \<Rightarrow> bool)
    \<Rightarrow> loads \<Rightarrow> 'd route_table \<Rightarrow> ('h, 'u, 'b, 'r, 'd) task \<times> store \<times> ('h, 'u, 'b) sent list
    \<Rightarrow> ('h, 'u, 'b, 'r, 'd) task \<times> store \<times> ('h, 'u, 'b) sent list" where
  "task_step dm lib fmt net is_end_stream loads t (Arrived req, s, trace) =
     (case choose_target dm lib t req loads s of (k, s') \<Rightarrow> (k, s', trace))"
| "task_step dm lib fmt net is_end_stream loads t (Chosen j, s, trace) =
     (Counted j, guard_new (se_counter (jb_selection j)) s, trace)"
| "task_step dm lib fmt net is_end_stream loads t (Counted j, s, trace) =
     (case pass_gate lib fmt is_end_stream j trace of (k, trace') \<Rightarrow> (k, s, trace'))"
| "task_step dm lib fmt net is_end_stream loads t (Asking j auth auth_url sent, s, trace) =
     (gate_answer lib fmt net is_end_stream j auth auth_url sent, s, trace)"
| "task_step dm lib fmt net is_end_stream loads t (Attempting counter addr plan err, s, trace) =
     (case attempt lib fmt net counter addr plan err trace of (k, trace') \<Rightarrow> (k, s, trace'))"
| "task_step dm lib fmt net is_end_stream loads t (Ending counter resp, s, trace) =
     (Finished resp, guard_drop counter s, trace)"
| "task_step dm lib fmt net is_end_stream loads t (Finished resp, s, trace) = (Finished resp, s, trace)"
| "task_step dm lib fmt net is_end_stream loads t (Dropped, s, trace) = (Dropped, s, trace)"

text \<open>
  The future of a handler is dropped, as when the client goes away: possible at its \<open>await\<close>
  points, for the lock of the table, the subrequest and an attempt.  The guard, if there
  is one, is dropped with it.
\<close>

fun task_drop :: "('h, 'u, 'b, 'r, 'd) task \<Rightarrow> store \<Rightarrow> store option" where
  "task_drop (Arrived req) s = Some s"
| "task_drop (Asking j auth auth_url sent) s = Some (guard_drop (se_counter (jb_selection j)) s)"
| "task_drop (Attempting counter addr plan err) s = Some (guard_drop counter s)"
| "task_drop _ s = None"

section \<open>A task on its own\<close>

definition runs :: "('a \<Rightarrow> 'a) \<Rightarrow> 'a \<Rightarrow> 'a \<Rightarrow> bool" where
  "runs f a b \<longleftrightarrow> (\<exists>n. (f ^^ n) a = b)"

lemma runs_refl [simp]: "runs f a a"
  unfolding runs_def by (intro exI [of _ 0]) simp

lemma runs_step:
  assumes "runs f (f a) b"
  shows "runs f a b"
proof -
  obtain n where "(f ^^ n) (f a) = b" using assms by (auto simp: runs_def)
  then have "(f ^^ Suc n) a = b" by (simp only: funpow_Suc_right comp_apply)
  then show ?thesis by (auto simp: runs_def simp del: funpow.simps)
qed

lemma runs_trans:
  assumes "runs f a b" "runs f b c"
  shows "runs f a c"
proof -
  obtain n m where "(f ^^ n) a = b" "(f ^^ m) b = c" using assms by (auto simp: runs_def)
  then have "(f ^^ (m + n)) a = c" by (simp add: funpow_add)
  then show ?thesis by (auto simp: runs_def)
qed

text \<open>The response for the outcome of the attempts.\<close>

definition answer :: "('h, 'u) http_lib \<Rightarrow> string + ('h, 'r) response \<Rightarrow> ('h, 'r body) response" where
  "answer lib out =
     (case out of
        Inl err \<Rightarrow> text_response (hl_headers lib) BAD_GATEWAY err
      | Inr resp \<Rightarrow>
          \<lparr>rs_status = rs_status resp, rs_headers = remove_hop_headers (hl_headers lib) (rs_headers resp),
           rs_body = Boxed (rs_body resp)\<rparr>)"

text \<open>A step of a task that nothing interrupts.\<close>

fun solo_step ::
  "'d counters \<Rightarrow> ('h, 'u) http_lib \<Rightarrow> ('u, 'e) fmt_lib \<Rightarrow> ('h, 'u, 'b, 'r, 'e) network \<Rightarrow> ('b \<Rightarrow> bool)
    \<Rightarrow> 'd route_table \<Rightarrow> ('h, 'u, 'b, 'r, 'd) task \<times> store \<times> ('h, 'u, 'b) sent list
    \<Rightarrow> ('h, 'u, 'b, 'r, 'd) task \<times> store \<times> ('h, 'u, 'b) sent list" where
  "solo_step dm lib fmt net is_end_stream t (k, s, trace) =
     task_step dm lib fmt net is_end_stream (current s) t (k, s, trace)"

lemma attempts_run:
  "runs (solo_step dm lib fmt net ies t) (Attempting c addr plan err, s, trace)
     (Ending c (answer lib (fst (try_all fmt net addr plan err trace))), s,
      snd (try_all fmt net addr plan err trace))"
proof (induction plan arbitrary: err trace)
  case Nil
  show ?case by (rule runs_step) (simp add: attempt_def answer_def)
next
  case (Cons x xs)
  show ?case
  proof (cases "attempt_error fmt net addr (trace @ [x])")
    case None
    then obtain resp where "net_reply net (trace @ [x]) = Inr resp" using attempt_answered by blast
    with None show ?thesis by - (rule runs_step, simp add: attempt_def answer_def)
  next
    case (Some e)
    with Cons.IH [of e "trace @ [x]"] show ?thesis by - (rule runs_step, simp add: attempt_def)
  qed
qed

lemma gate_run:
  fixes net :: "('h, 'u, 'b, 'r, 'e) network" and j :: "('h, 'u, 'b, 'd) job"
  assumes "authorize lib fmt net (jb_cluster j) (jb_host j) (rq_frontend_tls (jb_request j) = Some True)
    (jb_request j) trace = (a, trace1)"
  shows "runs (solo_step dm lib fmt net ies t) (Counted j, s, trace)
    (case a of Inl r \<Rightarrow> Ending (se_counter (jb_selection j)) r | Inr req' \<Rightarrow> go_upstream lib fmt ies j req', s, trace1)"
proof (cases "\<exists>auth url sent. pass_gate lib fmt ies j trace = (Asking j auth url sent :: ('h, 'u, 'b, 'r, 'd) task, sent)")
  case True
  then obtain auth url sent where
    g: "pass_gate lib fmt ies j trace = (Asking j auth url sent :: ('h, 'u, 'b, 'r, 'd) task, sent)" by blast
  then have "trace1 = sent" "a = auth_answered lib fmt (jb_request j) auth url (jb_host j)
      (rq_frontend_tls (jb_request j) = Some True) (net_reply net sent)"
    using assms
    by (auto simp: pass_gate_def go_upstream_def authorize_def perform_auth_if_needed_def auth_subrequest_def Let_def
        split: option.splits if_splits sum.splits prod.splits)
  with g show ?thesis
    by - (rule runs_step, simp, rule runs_step, simp add: gate_answer_def)
next
  case False
  then have "pass_gate lib fmt ies j trace =
      (case a of Inl r \<Rightarrow> Ending (se_counter (jb_selection j)) r | Inr req' \<Rightarrow> go_upstream lib fmt ies j req', trace1)"
    using assms
    by (auto simp: pass_gate_def authorize_def perform_auth_if_needed_def auth_subrequest_def Let_def
        split: option.splits if_splits sum.splits prod.splits)
  then show ?thesis by - (rule runs_step, simp)
qed

lemma serve_run:
  assumes "serve lib fmt net ies (jb_cluster j) (se_endpoint (jb_selection j)) (jb_host j)
    (rq_frontend_tls (jb_request j) = Some True) (jb_request j) trace = (resp, trace')"
  shows "runs (solo_step dm lib fmt net ies t) (Counted j, s, trace)
    (Ending (se_counter (jb_selection j)) resp, s, trace')"
proof (cases "authorize lib fmt net (jb_cluster j) (jb_host j) (rq_frontend_tls (jb_request j) = Some True)
    (jb_request j) trace")
  case (Pair a trace1)
  note gate = gate_run [OF Pair, of dm ies t s]
  show ?thesis
  proof (cases a)
    case (Inl r)
    with Pair assms gate show ?thesis by (simp add: serve_unfold)
  next
    case (Inr req')
    let ?ep = "se_endpoint (jb_selection j)"
    let ?out = "try_all fmt net (address ?ep) (upstream_plan lib ies (jb_cluster j) ?ep (jb_host j)
        (rq_frontend_tls (jb_request j) = Some True) req') (no_attempt_text fmt (address ?ep)) trace1"
    have "(resp, trace') = (answer lib (fst ?out), snd ?out)"
      using assms Pair Inr by (simp add: serve_unfold answer_def split: prod.splits sum.splits)
    then have "resp = answer lib (fst ?out)" "trace' = snd ?out" by simp_all
    then have "runs (solo_step dm lib fmt net ies t) (go_upstream lib fmt ies j req', s, trace1)
        (Ending (se_counter (jb_selection j)) resp, s, trace')"
      unfolding go_upstream_def Let_def by (simp only: attempts_run)
    with gate Inr show ?thesis by (auto intro: runs_trans)
  qed
qed

lemma task_run_handler:
  fixes net :: "('h, 'u, 'b, 'r, 'e) network" and dm :: "'d counters"
  assumes "proxy_handler dm lib fmt net ies t req s trace = (resp, s', trace')"
  shows "runs (solo_step dm lib fmt net ies t) (Arrived req, s, trace) (Finished resp, s', trace')"
proof (cases "choose_target dm lib t req (current s) s :: ('h, 'u, 'b, 'r, 'd) task \<times> store")
  case (Pair k s1)
  show ?thesis
  proof (cases "\<exists>j. k = Chosen j")
    case True
    then obtain j where j: "k = Chosen j" by blast
    let ?c = "se_counter (jb_selection j)"
    obtain r tr where sv: "serve lib fmt net ies (jb_cluster j) (se_endpoint (jb_selection j)) (jb_host j)
        (rq_frontend_tls (jb_request j) = Some True) (jb_request j) trace = (r, tr)" by fastforce
    have "resp = r" "trace' = tr" "s' = guard_drop ?c (guard_new ?c s1)"
      using assms Pair j sv
      by (auto simp: proxy_handler_def choose_target_def Let_def frontend_flag split: sum.splits prod.splits)
    then have "runs (solo_step dm lib fmt net ies t) (Counted j, guard_new ?c s1, trace) (Finished resp, s', trace')"
      by (intro runs_trans [OF serve_run [OF sv]] runs_step [of _ "(Ending ?c r, guard_new ?c s1, tr)"]) simp
    then have "runs (solo_step dm lib fmt net ies t) (Chosen j, s1, trace) (Finished resp, s', trace')"
      by (intro runs_step [of _ "(Chosen j, s1, trace)"]) simp
    then show ?thesis using Pair j by (intro runs_step [of _ "(Arrived req, s, trace)"]) simp
  next
    case False
    then have "k = Finished resp" "s1 = s'" "trace' = trace"
      using assms Pair
      by (auto simp: proxy_handler_def choose_target_def Let_def split: sum.splits prod.splits)
    then show ?thesis using Pair by - (rule runs_step, simp)
  qed
qed

text \<open>
  A task run on its own is \<open>proxy_handler\<close>.  Step by step the task reaches its end, with the
  response, the store and the trace of the handler, and stays there.
\<close>

theorem task_equals_handler:
  assumes "proxy_handler dm lib fmt net is_end_stream t req s trace = (resp, s', trace')"
  shows "\<exists>n. \<forall>m. (solo_step dm lib fmt net is_end_stream t ^^ (n + m)) (Arrived req, s, trace)
    = (Finished resp, s', trace')"
proof -
  let ?f = "solo_step dm lib fmt net is_end_stream t"
  have stay: "(?f ^^ m) (Finished resp, s', trace') = (Finished resp, s', trace')" for m
    by (induction m) simp_all
  obtain n where "(?f ^^ n) (Arrived req, s, trace) = (Finished resp, s', trace')"
    using task_run_handler [OF assms] by (auto simp: runs_def)
  then have "(?f ^^ (m + n)) (Arrived req, s, trace) = (Finished resp, s', trace')" for m
    by (simp add: funpow_add stay)
  then show ?thesis by (metis add.commute)
qed

section \<open>What a task can wait for\<close>



















section \<open>Many tasks\<close>

record ('h, 'u, 'b, 'r, 'd) system =
  sy_store :: store
  sy_table :: "'d route_table"
  sy_trace :: "('h, 'u, 'b) sent list"
  sy_tasks :: "('h, 'u, 'b, 'r, 'd) task list"

definition system_init :: "('h, 'u, 'b, 'r, 'd) system" where
  "system_init = \<lparr>sy_store = store_init, sy_table = route_table_default, sy_trace = [], sy_tasks = []\<rparr>"

text \<open>The counters selected but not yet counted, and those counted.\<close>

fun selected_counter :: "('h, 'u, 'b, 'r, 'd) task \<Rightarrow> arc option multiset" where
  "selected_counter (Chosen j) = {#se_counter (jb_selection j)#}"
| "selected_counter _ = {#}"

fun active_counter :: "('h, 'u, 'b, 'r, 'd) task \<Rightarrow> arc option multiset" where
  "active_counter (Counted j) = {#se_counter (jb_selection j)#}"
| "active_counter (Asking j _ _ _) = {#se_counter (jb_selection j)#}"
| "active_counter (Attempting c _ _ _) = {#c#}"
| "active_counter (Ending c _) = {#c#}"
| "active_counter _ = {#}"

definition plane_of :: "('h, 'u, 'b, 'r, 'd) system \<Rightarrow> 'd plane" where
  "plane_of y =
     \<lparr>pl_store = sy_store y, pl_table = sy_table y,
      pl_selected = \<Sum>\<^sub># (mset (map selected_counter (sy_tasks y))),
      pl_active = \<Sum>\<^sub># (mset (map active_counter (sy_tasks y)))\<rparr>"

text \<open>
  A request arrives, a task makes a step, the future of a task is dropped, or a new table
  is installed, which waits until no task holds the read lock.  The loads of a scan may
  return anything, since other tasks run between them.
\<close>

inductive system_step ::
  "'d counters \<Rightarrow> ('h, 'u) http_lib \<Rightarrow> ('u, 'e) fmt_lib \<Rightarrow> ('h, 'u, 'b, 'r, 'e) network \<Rightarrow> ('b \<Rightarrow> bool)
    \<Rightarrow> ('h, 'u, 'b, 'r, 'd) system \<Rightarrow> ('h, 'u, 'b, 'r, 'd) system \<Rightarrow> bool"
  for dm lib fmt net is_end_stream where
  arrival: "system_step dm lib fmt net is_end_stream y (y\<lparr>sy_tasks := sy_tasks y @ [Arrived req]\<rparr>)"
| progress: "i < length (sy_tasks y) \<Longrightarrow>
    task_step dm lib fmt net is_end_stream loads (sy_table y) (sy_tasks y ! i, sy_store y, sy_trace y) = (k, s', trace') \<Longrightarrow>
    system_step dm lib fmt net is_end_stream y
      (y\<lparr>sy_store := s', sy_trace := trace', sy_tasks := (sy_tasks y)[i := k]\<rparr>)"
| dropped: "i < length (sy_tasks y) \<Longrightarrow> task_drop (sy_tasks y ! i) (sy_store y) = Some s' \<Longrightarrow>
    system_step dm lib fmt net is_end_stream y (y\<lparr>sy_store := s', sy_tasks := (sy_tasks y)[i := Dropped]\<rparr>)"
| new_table: "\<Sum>\<^sub># (mset (map selected_counter (sy_tasks y))) = {#} \<Longrightarrow>
    route_table_new dm (header_name_from_bytes lib) snap (sy_store y) = (t, s') \<Longrightarrow>
    system_step dm lib fmt net is_end_stream y (y\<lparr>sy_store := s', sy_table := t\<rparr>)"

inductive system_reachable ::
  "'d counters \<Rightarrow> ('h, 'u) http_lib \<Rightarrow> ('u, 'e) fmt_lib \<Rightarrow> ('h, 'u, 'b, 'r, 'e) network \<Rightarrow> ('b \<Rightarrow> bool)
    \<Rightarrow> ('h, 'u, 'b, 'r, 'd) system \<Rightarrow> bool"
  for dm lib fmt net is_end_stream where
  system_start: "system_reachable dm lib fmt net is_end_stream system_init"
| system_run: "system_reachable dm lib fmt net is_end_stream y \<Longrightarrow>
    system_step dm lib fmt net is_end_stream y z \<Longrightarrow> system_reachable dm lib fmt net is_end_stream z"

lemma counters_update:
  fixes f :: "'a \<Rightarrow> 'c multiset"
  assumes "i < length xs"
  shows "\<Sum>\<^sub># (mset (map f (xs[i := k]))) = \<Sum>\<^sub># (mset (map f xs)) - f (xs ! i) + f k"
proof -
  let ?rest = "\<Sum>\<^sub># (mset (map f (take i xs))) + \<Sum>\<^sub># (mset (map f (drop (Suc i) xs)))"
  have "xs = take i xs @ xs ! i # drop (Suc i) xs" using assms by (rule id_take_nth_drop)
  then have "\<Sum>\<^sub># (mset (map f xs)) = \<Sum>\<^sub># (mset (map f (take i xs @ xs ! i # drop (Suc i) xs)))" by simp
  also have "\<dots> = f (xs ! i) + ?rest" by simp
  finally have "\<Sum>\<^sub># (mset (map f xs)) - f (xs ! i) = ?rest" by simp
  then show ?thesis using assms by (simp add: upd_conv_take_nth_drop ac_simps)
qed

lemma counters_member:
  fixes f :: "'a \<Rightarrow> 'c multiset"
  assumes "i < length xs" "c \<in># f (xs ! i)"
  shows "c \<in># \<Sum>\<^sub># (mset (map f xs))"
  using assms nth_mem by (fastforce simp: in_Union_mset_iff)

lemma plane_of_progress:
  assumes "i < length (sy_tasks y)" "sy_tasks y ! i = k0"
  shows "plane_of (y\<lparr>sy_store := s', sy_trace := tr, sy_tasks := (sy_tasks y)[i := k]\<rparr>) =
    (plane_of y)\<lparr>pl_store := s',
      pl_selected := pl_selected (plane_of y) - selected_counter k0 + selected_counter k,
      pl_active := pl_active (plane_of y) - active_counter k0 + active_counter k\<rparr>"
  using counters_update [OF assms(1), of selected_counter k] counters_update [OF assms(1), of active_counter k]
    assms(2)
  by (simp add: plane_of_def)

lemma get_endpoint_None: "get_endpoint dm t name loads s = (None, s') \<Longrightarrow> s' = s"
  by (auto simp: get_endpoint_def select_endpoint_def round_robin_def least_conn_def Let_def
      split: option.splits lb_policy.splits if_splits prod.splits)

text \<open>A step of a task is a step of the data plane, or does not touch it.\<close>

lemma choose_target_cases:
  assumes "choose_target dm lib t req loads s = (k, s')"
  obtains (answered) resp where "k = Finished resp" "s' = s"
  | (chosen) j name where "k = Chosen j" "get_endpoint dm t name loads s = (Some (jb_selection j), s')"
  using assms
  by (auto simp: choose_target_def resolve_defs Let_def split: sum.splits prod.splits option.splits
      dest: get_endpoint_None)

lemma upstream_active:
  "active_counter (go_upstream lib fmt ies j req) = {#se_counter (jb_selection j)#}"
  "selected_counter (go_upstream lib fmt ies j req) = {#}"
  by (simp_all add: go_upstream_def Let_def)

lemma gate_active:
  "pass_gate lib fmt ies j trace = (k, trace') \<Longrightarrow>
   active_counter k = {#se_counter (jb_selection j)#} \<and> selected_counter k = {#}"
  by (auto simp: pass_gate_def Let_def upstream_active split: prod.splits sum.splits option.splits if_splits)

lemma answer_active:
  "active_counter (gate_answer lib fmt net ies j auth url sent) = {#se_counter (jb_selection j)#}"
  "selected_counter (gate_answer lib fmt net ies j auth url sent) = {#}"
  by (simp_all add: gate_answer_def upstream_active split: sum.split)

lemma attempt_active:
  "attempt lib fmt net c addr plan err trace = (k, trace') \<Longrightarrow>
   active_counter k = {#c#} \<and> selected_counter k = {#}"
  by (auto simp: attempt_def Let_def split: list.splits option.splits sum.splits)

lemma plane_of_fields [simp]:
  "pl_store (plane_of y) = sy_store y" "pl_table (plane_of y) = sy_table y"
  "pl_selected (plane_of y) = \<Sum>\<^sub># (mset (map selected_counter (sy_tasks y)))"
  "pl_active (plane_of y) = \<Sum>\<^sub># (mset (map active_counter (sy_tasks y)))"
  by (simp_all add: plane_of_def)

lemma progress_simulated:
  assumes i: "i < length (sy_tasks y)"
    and st: "task_step dm lib fmt net ies loads (sy_table y) (sy_tasks y ! i, sy_store y, sy_trace y) = (k, s', trace')"
  shows "plane_of (y\<lparr>sy_store := s', sy_trace := trace', sy_tasks := (sy_tasks y)[i := k]\<rparr>) = plane_of y
    \<or> request_step dm (plane_of y)
        (plane_of (y\<lparr>sy_store := s', sy_trace := trace', sy_tasks := (sy_tasks y)[i := k]\<rparr>))"
proof (cases "sy_tasks y ! i")
  note abs = plane_of_progress [OF i]
  have keep: "pl_active (plane_of y) - {#c#} + {#c#} = pl_active (plane_of y)"
    if "active_counter (sy_tasks y ! i) = {#c#}" for c
    using counters_member [OF i, of c active_counter] that by simp
  {
    case (Arrived req)
    obtain k' where ct: "choose_target dm lib (sy_table y) req loads (sy_store y) = (k', s')" "k' = k"
      using st Arrived by (auto split: prod.splits)
    from ct(1) show ?thesis
    proof (cases rule: choose_target_cases)
      case (answered resp)
      then show ?thesis unfolding abs [OF Arrived] using ct(2) by simp
    next
      case (chosen j name)
      then have "request_step dm (plane_of y) ((plane_of y)\<lparr>pl_store := s',
          pl_selected := add_mset (se_counter (jb_selection j)) (pl_selected (plane_of y))\<rparr>)"
        by (intro select) simp
      then show ?thesis unfolding abs [OF Arrived] using chosen(1) ct(2) by (simp add: plane_of_def)
    qed
  next
    case (Chosen j)
    let ?c = "se_counter (jb_selection j)"
    have "?c \<in># pl_selected (plane_of y)"
      using counters_member [OF i, of ?c selected_counter] Chosen by simp
    from acquire [OF this, of dm] show ?thesis unfolding abs [OF Chosen] using st Chosen by (auto simp: plane_of_def)
  next
    case (Counted j)
    then show ?thesis
      using st keep unfolding abs [OF Counted] by (auto split: prod.splits dest!: gate_active simp: plane_of_def)
  next
    case (Asking j auth url sent)
    then show ?thesis
      using st keep unfolding abs [OF Asking] by (auto simp: answer_active plane_of_def)
  next
    case (Attempting c addr plan err)
    then show ?thesis
      using st keep unfolding abs [OF Attempting] by (auto split: prod.splits dest!: attempt_active simp: plane_of_def)
  next
    case (Ending c resp)
    have "c \<in># pl_active (plane_of y)"
      using counters_member [OF i, of c active_counter] Ending by simp
    from release [OF this, of dm] show ?thesis unfolding abs [OF Ending] using st Ending by (auto simp: plane_of_def)
  next
    case (Finished resp)
    then have "k = Finished resp" "s' = sy_store y" using st by simp_all
    then show ?thesis unfolding abs [OF Finished] by (simp add: plane_of_def)
  next
    case Dropped
    then have "k = Dropped" "s' = sy_store y" using st by simp_all
    then show ?thesis unfolding abs [OF Dropped] by (simp add: plane_of_def)
  }
qed

lemma drop_simulated:
  assumes i: "i < length (sy_tasks y)" and dr: "task_drop (sy_tasks y ! i) (sy_store y) = Some s'"
  shows "plane_of (y\<lparr>sy_store := s', sy_tasks := (sy_tasks y)[i := Dropped]\<rparr>) = plane_of y
    \<or> request_step dm (plane_of y) (plane_of (y\<lparr>sy_store := s', sy_tasks := (sy_tasks y)[i := Dropped]\<rparr>))"
proof -
  have abs: "plane_of (y\<lparr>sy_store := s', sy_tasks := (sy_tasks y)[i := Dropped]\<rparr>) =
      (plane_of y)\<lparr>pl_store := s',
        pl_selected := pl_selected (plane_of y) - selected_counter (sy_tasks y ! i),
        pl_active := pl_active (plane_of y) - active_counter (sy_tasks y ! i)\<rparr>"
    using counters_update [OF i, of selected_counter Dropped] counters_update [OF i, of active_counter Dropped]
    by (simp add: plane_of_def)
  have rel: "request_step dm (plane_of y) ((plane_of y)\<lparr>pl_store := guard_drop c (sy_store y),
      pl_active := pl_active (plane_of y) - {#c#}\<rparr>)" if "active_counter (sy_tasks y ! i) = {#c#}" for c
    using release [of c "plane_of y" dm] counters_member [OF i, of c active_counter] that by simp
  show ?thesis
  proof (cases "sy_tasks y ! i")
    case (Asking j auth url sent)
    then show ?thesis using rel [of "se_counter (jb_selection j)"] dr unfolding abs by (auto simp: plane_of_def)
  next
    case (Attempting c addr plan err)
    then show ?thesis using rel [of c] dr unfolding abs by (auto simp: plane_of_def)
  qed (use dr in \<open>auto simp: abs\<close>)
qed

lemma system_simulated:
  assumes "system_step dm lib fmt net ies y z"
  shows "plane_of z = plane_of y \<or> plane_step dm (header_name_from_bytes lib) (plane_of y) (plane_of z)"
  using assms
proof (cases rule: system_step.cases)
  case (arrival req)
  then show ?thesis by (simp add: plane_of_def)
next
  case (progress i loads k s' trace')
  then show ?thesis using progress_simulated [OF progress(2, 3)] by (auto intro: request)
next
  case (dropped i s')
  then show ?thesis using drop_simulated [OF dropped(2, 3)] by (auto intro: request)
next
  case (new_table snap t s')
  then have "plane_of z = plane_update dm (header_name_from_bytes lib) snap (plane_of y)"
    by (simp add: plane_of_def plane_update_def)
  then show ?thesis using new_table(2) by (auto intro: update)
qed

lemma system_plane: "system_reachable dm lib fmt net ies y \<Longrightarrow> plane_reachable dm (header_name_from_bytes lib) (plane_of y)"
proof (induction rule: system_reachable.induct)
  case system_start
  have "plane_of system_init = plane_init" by (simp add: plane_of_def system_init_def plane_init_def)
  then show ?case using reach_init by metis
next
  case (system_run y z)
  then show ?case using system_simulated reach_step by metis
qed

lemma count_active:
  "count (\<Sum>\<^sub># (mset (map active_counter ks))) c = length (filter (\<lambda>k. active_counter k = {#c#}) ks)"
proof (induction ks)
  case (Cons k ks)
  have "active_counter k = {#} \<or> (\<exists>d. active_counter k = {#d#})" by (cases k) auto
  then show ?case using Cons by auto
qed simp

text \<open>
  C11: concurrent handlers keep the counters exact.  In every reachable state of any number
  of interleaved handlers, handlers dropped while they wait, and table updates, the
  counter of each endpoint of the current table is the number of tasks that hold it
  between counting in and counting out.
\<close>

theorem concurrent_counters:
  assumes "counter_map dm" and "system_reachable dm lib fmt net is_end_stream y"
    and "a \<in> table_counters dm (tab_clusters (sy_table y))"
  shows "cells (sy_store y) a
    = of_nat (length (filter (\<lambda>k. active_counter k = {#Some a#}) (sy_tasks y)))"
proof -
  have "cells (pl_store (plane_of y)) a = of_nat (count (pl_active (plane_of y)) (Some a))"
    using counter_map.plane_inv_reachable [OF assms(1) system_plane [OF assms(2)]] assms(3)
    by (auto simp: plane_inv_def)
  then show ?thesis using count_active [of "sy_tasks y" "Some a"] by simp
qed

section \<open>Instances\<close>

theorem task_equals_handler_witness:
  "\<exists>resp s' trace' n. (solo_step alist_dash parts_lib plain_fmt (answering 200) (\<lambda>b. b = []) demo_table ^^ n)
     (Arrived root_request, store_init, []) = (Finished resp, s', trace') \<and> trace' \<noteq> []"
proof -
  obtain resp s' xs where *: "demo_handler (answering 200) = (resp, s', [] @ xs)" "upstream_sends xs \<noteq> []"
    by (rule demo_served)
  then have "xs \<noteq> []" by (auto simp: upstream_sends_def)
  with task_equals_handler [OF *(1)] show ?thesis by (metis append_Nil)
qed

text \<open>A table with a \<open>LeastConn\<close> cluster is installed, a request arrives, selects and is counted in.\<close>

definition demo_built :: "(endpoint_key \<times> arc) list route_table \<times> store" where
  "demo_built = route_table_new alist_dash (header_name_from_bytes parts_lib) demo_snapshot_lc store_init"

definition demo_chosen ::
  "(header_name \<Rightarrow> header_value list, uri_parts, string, string, (endpoint_key \<times> arc) list) task \<times> store" where
  "demo_chosen =
     choose_target alist_dash parts_lib (fst demo_built) root_request (current (snd demo_built)) (snd demo_built)"

lemma demo_chosen_eval:
  "case fst demo_chosen of Chosen j \<Rightarrow> se_counter (jb_selection j) = Some 1 | _ \<Rightarrow> False"
  by code_simp

abbreviation "demo_reachable_system \<equiv>
  system_reachable alist_dash parts_lib plain_fmt (answering 200) (\<lambda>b. b = [])"

lemma demo_system:
  obtains y j where "demo_reachable_system y" "sy_table y = fst demo_built" "sy_tasks y = [Counted j]"
    "se_counter (jb_selection j) = Some 1"
proof -
  obtain j where j: "fst demo_chosen = Chosen j" "se_counter (jb_selection j) = Some 1"
    using demo_chosen_eval by (cases "fst demo_chosen") auto
  let ?y1 = "system_init\<lparr>sy_store := snd demo_built, sy_table := fst demo_built\<rparr>"
  let ?y2 = "?y1\<lparr>sy_tasks := [Arrived root_request]\<rparr>"
  let ?y3 = "?y2\<lparr>sy_store := snd demo_chosen, sy_trace := [], sy_tasks := [Chosen j]\<rparr>"
  let ?y4 = "?y3\<lparr>sy_store := guard_new (Some 1) (snd demo_chosen), sy_trace := [], sy_tasks := [Counted j]\<rparr>"
  have built: "route_table_new alist_dash (header_name_from_bytes parts_lib) demo_snapshot_lc (sy_store system_init)
      = (fst demo_built, snd demo_built)"
    unfolding demo_built_def system_init_def system.simps by (rule prod.collapse [symmetric])
  have "demo_reachable_system ?y1"
    by (rule system_run [OF system_start new_table [OF _ built]]) (simp add: system_init_def)
  then have "demo_reachable_system ?y2"
    using system_run arrival [of _ _ _ _ _ ?y1 root_request] by (fastforce simp: system_init_def)
  then have "demo_reachable_system ?y3"
    using system_run progress [of 0 ?y2 alist_dash parts_lib plain_fmt "answering 200" "\<lambda>b. b = []"
        "current (snd demo_built)" "Chosen j" "snd demo_chosen" "[]"] j
    by (fastforce simp: system_init_def demo_chosen_def split: prod.splits)
  then have "demo_reachable_system ?y4"
    using system_run progress [of 0 ?y3 alist_dash parts_lib plain_fmt "answering 200" "\<lambda>b. b = []"
        "current (snd demo_built)" "Counted j" "guard_new (Some 1) (snd demo_chosen)" "[]"] j
    by (fastforce simp: system_init_def)
  then show thesis by (rule that) (use j in simp_all)
qed

lemma demo_built_counter: "1 \<in> table_counters alist_dash (tab_clusters (fst demo_built))"
proof -
  have "map_option (\<lambda>c. map_of (cr_least_conn_cursor c) (endpoint_key_from_endpoint 1 (demo_endpoint ''10.0.0.2'')))
      (tab_clusters (fst demo_built) ''web'') = Some (Some 1)"
    by code_simp
  then obtain c where "tab_clusters (fst demo_built) ''web'' = Some c"
    "map_of (cr_least_conn_cursor c) (endpoint_key_from_endpoint 1 (demo_endpoint ''10.0.0.2'')) = Some 1"
    by auto
  then show ?thesis by (auto simp: table_counters_def ran_def counter_arcs_def)
qed

theorem concurrent_counters_witness: "\<exists>y. demo_reachable_system y \<and> cells (sy_store y) 1 = 1"
proof (rule demo_system)
  fix y j
  assume y: "demo_reachable_system y" "sy_table y = fst demo_built" "sy_tasks y = [Counted j]"
    "se_counter (jb_selection j) = Some 1"
  have "cells (sy_store y) 1 = 1"
    using concurrent_counters [OF counter_map_alist y(1), of 1] demo_built_counter y by simp
  with y(1) show ?thesis by blast
qed

end
