(* ===== verification/Config_Rpc.thy ===== *)
theory Config_Rpc
  imports Config Upstream_Request
begin

text \<open>
  The client and the server that the protocol compiler generates into \<open>argon.config.rs\<close>.
  The client asks its transport whether it is ready and makes one streaming call; the
  server dispatches a request on its path.  The gRPC library underneath is third-party
  code: its operations are a record of parameters (\<open>tonic\<close>), the message encodings are
  left out.  The lemmas show that client and server agree on the path of the call, and
  that a request for anything else is answered without reaching the service.
\<close>

section \<open>The gRPC library\<close>

datatype status_code = Unknown | Unimplemented | Other_Code i32

record status =
  st_code :: status_code
  st_message :: string

text \<open>
  \<open>'g\<close> is the library's client, \<open>'t\<close> a transport, \<open>'z\<close> a set of enabled encodings, \<open>'e\<close> an
  encoding, \<open>'s\<close> a stream of snapshots, \<open>'i\<close> an interceptor.
\<close>

record ('g, 't, 'u, 'z, 'e, 's, 'i) tonic =
  grpc_new :: "'t \<Rightarrow> 'g"
  grpc_with_origin :: "'t \<Rightarrow> 'u \<Rightarrow> 'g"
  grpc_send_compressed :: "'g \<Rightarrow> 'e \<Rightarrow> 'g"
  grpc_accept_compressed :: "'g \<Rightarrow> 'e \<Rightarrow> 'g"
  grpc_max_decoding :: "'g \<Rightarrow> usize \<Rightarrow> 'g"
  grpc_max_encoding :: "'g \<Rightarrow> usize \<Rightarrow> 'g"
  grpc_ready :: "'g \<Rightarrow> string + unit"
  grpc_server_streaming :: "'g \<Rightarrow> watch_request \<Rightarrow> string \<Rightarrow> status + 's"
  intercepted :: "'t \<Rightarrow> 'i \<Rightarrow> 't"
  endpoint_connect :: "string \<Rightarrow> string + 't"
  encodings_none :: 'z
  encodings_enable :: "'z \<Rightarrow> 'e \<Rightarrow> 'z"

section \<open>The client\<close>

record 'g config_discovery_client =
  cc_inner :: 'g

definition client_new :: "('g, 't, 'u, 'z, 'e, 's, 'i) tonic \<Rightarrow> 't \<Rightarrow> 'g config_discovery_client" where
  "client_new ton inner = \<lparr>cc_inner = grpc_new ton inner\<rparr>"

definition client_connect ::
  "('g, 't, 'u, 'z, 'e, 's, 'i) tonic \<Rightarrow> string \<Rightarrow> string + 'g config_discovery_client" where
  "client_connect ton dst =
     (case endpoint_connect ton dst of Inl err \<Rightarrow> Inl err | Inr conn \<Rightarrow> Inr (client_new ton conn))"

definition client_with_origin ::
  "('g, 't, 'u, 'z, 'e, 's, 'i) tonic \<Rightarrow> 't \<Rightarrow> 'u \<Rightarrow> 'g config_discovery_client" where
  "client_with_origin ton inner origin = \<lparr>cc_inner = grpc_with_origin ton inner origin\<rparr>"

definition client_with_interceptor ::
  "('g, 't, 'u, 'z, 'e, 's, 'i) tonic \<Rightarrow> 't \<Rightarrow> 'i \<Rightarrow> 'g config_discovery_client" where
  "client_with_interceptor ton inner interceptor = client_new ton (intercepted ton inner interceptor)"

definition client_send_compressed ::
  "('g, 't, 'u, 'z, 'e, 's, 'i) tonic \<Rightarrow> 'e \<Rightarrow> 'g config_discovery_client \<Rightarrow> 'g config_discovery_client" where
  "client_send_compressed ton encoding c = c\<lparr>cc_inner := grpc_send_compressed ton (cc_inner c) encoding\<rparr>"

definition client_accept_compressed ::
  "('g, 't, 'u, 'z, 'e, 's, 'i) tonic \<Rightarrow> 'e \<Rightarrow> 'g config_discovery_client \<Rightarrow> 'g config_discovery_client" where
  "client_accept_compressed ton encoding c = c\<lparr>cc_inner := grpc_accept_compressed ton (cc_inner c) encoding\<rparr>"

definition client_max_decoding_message_size ::
  "('g, 't, 'u, 'z, 'e, 's, 'i) tonic \<Rightarrow> usize \<Rightarrow> 'g config_discovery_client \<Rightarrow> 'g config_discovery_client" where
  "client_max_decoding_message_size ton limit c = c\<lparr>cc_inner := grpc_max_decoding ton (cc_inner c) limit\<rparr>"

definition client_max_encoding_message_size ::
  "('g, 't, 'u, 'z, 'e, 's, 'i) tonic \<Rightarrow> usize \<Rightarrow> 'g config_discovery_client \<Rightarrow> 'g config_discovery_client" where
  "client_max_encoding_message_size ton limit c = c\<lparr>cc_inner := grpc_max_encoding ton (cc_inner c) limit\<rparr>"

definition client_watch ::
  "('g, 't, 'u, 'z, 'e, 's, 'i) tonic \<Rightarrow> 'g config_discovery_client \<Rightarrow> watch_request \<Rightarrow> status + 's" where
  "client_watch ton c request =
     (case grpc_ready ton (cc_inner c) of
        Inl e \<Rightarrow> Inl \<lparr>st_code = Unknown, st_message = ''Service was not ready: '' @ e\<rparr>
      | Inr _ \<Rightarrow> grpc_server_streaming ton (cc_inner c) request ''/argon.config.ConfigDiscovery/Watch'')"

section \<open>The server\<close>

text \<open>
  \<open>'a\<close> is the service, shared through an \<open>Arc\<close>.  What the library makes of a dispatched
  request is a parameter of \<open>server_call\<close>: given the settings and the method, it answers
  the request.
\<close>

record ('a, 'z) config_discovery_server =
  cs_inner :: 'a
  cs_accept_compression_encodings :: 'z
  cs_send_compression_encodings :: 'z
  cs_max_decoding_message_size :: "usize option"
  cs_max_encoding_message_size :: "usize option"

definition server_from_arc :: "('g, 't, 'u, 'z, 'e, 's, 'i) tonic \<Rightarrow> 'a \<Rightarrow> ('a, 'z) config_discovery_server" where
  "server_from_arc ton inner =
     \<lparr>cs_inner = inner, cs_accept_compression_encodings = encodings_none ton,
      cs_send_compression_encodings = encodings_none ton,
      cs_max_decoding_message_size = None, cs_max_encoding_message_size = None\<rparr>"

definition server_new :: "('g, 't, 'u, 'z, 'e, 's, 'i) tonic \<Rightarrow> 'a \<Rightarrow> ('a, 'z) config_discovery_server" where
  "server_new ton inner = server_from_arc ton inner"

text \<open>\<open>wrap\<close> is \<open>InterceptedService::new\<close>.\<close>

definition server_with_interceptor ::
  "('g, 't, 'u, 'z, 'e, 's, 'i) tonic \<Rightarrow> (('a, 'z) config_discovery_server \<Rightarrow> 'i \<Rightarrow> 'w) \<Rightarrow> 'a \<Rightarrow> 'i \<Rightarrow> 'w" where
  "server_with_interceptor ton wrap inner interceptor = wrap (server_new ton inner) interceptor"

datatype 'r poll = Pending | Ready 'r

text \<open>\<open>'n\<close> is \<open>Infallible\<close>.\<close>

definition server_poll_ready :: "('a, 'z) config_discovery_server \<Rightarrow> ('n + unit) poll" where
  "server_poll_ready v = Ready (Inr ())"

definition server_accept_compressed ::
  "('g, 't, 'u, 'z, 'e, 's, 'i) tonic \<Rightarrow> 'e \<Rightarrow> ('a, 'z) config_discovery_server \<Rightarrow> ('a, 'z) config_discovery_server" where
  "server_accept_compressed ton encoding v =
     v\<lparr>cs_accept_compression_encodings := encodings_enable ton (cs_accept_compression_encodings v) encoding\<rparr>"

definition server_send_compressed ::
  "('g, 't, 'u, 'z, 'e, 's, 'i) tonic \<Rightarrow> 'e \<Rightarrow> ('a, 'z) config_discovery_server \<Rightarrow> ('a, 'z) config_discovery_server" where
  "server_send_compressed ton encoding v =
     v\<lparr>cs_send_compression_encodings := encodings_enable ton (cs_send_compression_encodings v) encoding\<rparr>"

definition server_max_decoding_message_size ::
  "usize \<Rightarrow> ('a, 'z) config_discovery_server \<Rightarrow> ('a, 'z) config_discovery_server" where
  "server_max_decoding_message_size limit v = v\<lparr>cs_max_decoding_message_size := Some limit\<rparr>"

definition server_max_encoding_message_size ::
  "usize \<Rightarrow> ('a, 'z) config_discovery_server \<Rightarrow> ('a, 'z) config_discovery_server" where
  "server_max_encoding_message_size limit v = v\<lparr>cs_max_encoding_message_size := Some limit\<rparr>"

definition server_clone :: "('a, 'z) config_discovery_server \<Rightarrow> ('a, 'z) config_discovery_server" where
  "server_clone v =
     \<lparr>cs_inner = cs_inner v, cs_accept_compression_encodings = cs_accept_compression_encodings v,
      cs_send_compression_encodings = cs_send_compression_encodings v,
      cs_max_decoding_message_size = cs_max_decoding_message_size v,
      cs_max_encoding_message_size = cs_max_encoding_message_size v\<rparr>"

definition SERVICE_NAME :: string where
  "SERVICE_NAME = ''argon.config.ConfigDiscovery''"

text \<open>\<open>empty_reply\<close> is \<open>http::Response::new(empty_body())\<close>.\<close>

definition empty_reply :: "'h header_ops \<Rightarrow> ('h, 'b body) response" where
  "empty_reply hm = \<lparr>rs_status = OK, rs_headers = hm_new hm, rs_body = Full []\<rparr>"

definition server_call ::
  "('h, 'u) http_lib \<Rightarrow> (('a, 'z) config_discovery_server \<Rightarrow> ('h, 'u, 'q) request \<Rightarrow> ('h, 'b body) response)
    \<Rightarrow> ('a, 'z) config_discovery_server \<Rightarrow> ('h, 'u, 'q) request \<Rightarrow> ('h, 'b body) response" where
  "server_call lib server_streaming v req =
     (if uri_path lib (rq_uri req) = ''/argon.config.ConfigDiscovery/Watch'' then server_streaming (server_clone v) req
      else
        let response = empty_reply (hl_headers lib);
            headers = hm_insert (hl_headers lib) ''grpc-status'' (show_int 12) (rs_headers response);
            headers = hm_insert (hl_headers lib) ''content-type'' ''application/grpc'' headers
        in response\<lparr>rs_headers := headers\<rparr>)"

section \<open>Client and server agree\<close>

text \<open>
  The client's call reaches the service.  Let the transport of the client carry a call
  to the server, as a request for the path of the call, and let the library decode what it
  encodes.  If the transport is ready, the client's watch is the service's watch; if it is
  not, the client reports why.  A request for any other path is answered with the gRPC
  status \<open>Unimplemented\<close>, whatever the service.
\<close>

theorem watch_reaches_service:
  fixes encode :: "string \<Rightarrow> watch_request \<Rightarrow> ('h, 'u, 'q) request"
    and decode :: "('h, 'b body) response \<Rightarrow> status + 's"
  assumes "header_map (hl_headers lib)"
    and path: "\<And>r. uri_path lib (rq_uri (encode (''/'' @ SERVICE_NAME @ ''/Watch'') r)) = ''/'' @ SERVICE_NAME @ ''/Watch''"
    and carried: "\<And>r p. grpc_server_streaming ton (cc_inner c) r p = decode (server_call lib server_streaming v (encode p r))"
    and decoded: "\<And>r p. decode (server_streaming v (encode p r)) = cs_inner v r"
  shows "(grpc_ready ton (cc_inner c) = Inr () \<longrightarrow> client_watch ton c r = cs_inner v r)
    \<and> (grpc_ready ton (cc_inner c) = Inl e \<longrightarrow>
        client_watch ton c r = Inl \<lparr>st_code = Unknown, st_message = ''Service was not ready: '' @ e\<rparr>)
    \<and> (uri_path lib (rq_uri req) \<noteq> ''/'' @ SERVICE_NAME @ ''/Watch'' \<longrightarrow>
        hm_get_all (hl_headers lib) (rs_headers (server_call lib server_streaming v req)) ''grpc-status'' = [''12''])"
proof -
  have name: "''/'' @ SERVICE_NAME @ ''/Watch'' = ''/argon.config.ConfigDiscovery/Watch''"
    by (simp add: SERVICE_NAME_def)
  have "server_clone v = v" by (simp add: server_clone_def)
  then have "grpc_ready ton (cc_inner c) = Inr () \<longrightarrow> client_watch ton c r = cs_inner v r"
    by (simp add: client_watch_def carried server_call_def path [unfolded name] decoded)
  moreover have "uri_path lib (rq_uri req) \<noteq> ''/'' @ SERVICE_NAME @ ''/Watch'' \<longrightarrow>
      hm_get_all (hl_headers lib) (rs_headers (server_call lib server_streaming v req)) ''grpc-status'' = [''12'']"
    unfolding name
    by (simp add: server_call_def Let_def header_map.get_all_insert [OF assms(1)] show_int_def show_nat.simps str_simps)
  ultimately show ?thesis by (simp add: client_watch_def)
qed

text \<open>A service that answers with the name of the node, behind a transport that is always ready.\<close>

definition demo_service :: "watch_request \<Rightarrow> status + string" where
  "demo_service r = Inr (wr_node_id r)"

definition demo_encode ::
  "string \<Rightarrow> watch_request \<Rightarrow> (header_name \<Rightarrow> header_value list, uri_parts, watch_request) request" where
  "demo_encode p r =
     \<lparr>rq_method = ''POST'', rq_uri = \<lparr>up_scheme = None, up_authority = None, up_path_and_query = Some p\<rparr>,
      rq_version = HTTP_2, rq_headers = (\<lambda>_. []), rq_frontend_tls = None, rq_body = r\<rparr>"

definition demo_streaming ::
  "(watch_request \<Rightarrow> status + string, unit) config_discovery_server
    \<Rightarrow> (header_name \<Rightarrow> header_value list, uri_parts, watch_request) request
    \<Rightarrow> (header_name \<Rightarrow> header_value list, string body) response" where
  "demo_streaming v req =
     (empty_reply multimap_headers)\<lparr>rs_body := Full (case cs_inner v (rq_body req) of Inr s \<Rightarrow> s | Inl st \<Rightarrow> st_message st)\<rparr>"

definition demo_decode :: "(header_name \<Rightarrow> header_value list, string body) response \<Rightarrow> status + string" where
  "demo_decode resp = (case rs_body resp of Full s \<Rightarrow> Inr s | _ \<Rightarrow> Inr [])"

definition demo_tonic :: "(unit, unit, unit, unit, unit, string, unit) tonic" where
  "demo_tonic =
     \<lparr>grpc_new = id, grpc_with_origin = (\<lambda>_ _. ()), grpc_send_compressed = (\<lambda>_ _. ()),
      grpc_accept_compressed = (\<lambda>_ _. ()), grpc_max_decoding = (\<lambda>_ _. ()), grpc_max_encoding = (\<lambda>_ _. ()),
      grpc_ready = (\<lambda>_. Inr ()),
      grpc_server_streaming = (\<lambda>_ r p. demo_decode (server_call parts_lib demo_streaming
         \<lparr>cs_inner = demo_service, cs_accept_compression_encodings = (), cs_send_compression_encodings = (),
          cs_max_decoding_message_size = None, cs_max_encoding_message_size = None\<rparr> (demo_encode p r))),
      intercepted = (\<lambda>_ _. ()), endpoint_connect = (\<lambda>_. Inr ()), encodings_none = (), encodings_enable = (\<lambda>_ _. ())\<rparr>"

theorem watch_reaches_service_witness:
  "client_watch demo_tonic (client_new demo_tonic ()) \<lparr>wr_node_id = ''dp-axum''\<rparr> = Inr ''dp-axum''"
proof -
  let ?v = "server_new demo_tonic demo_service"
  have "uri_path parts_lib (rq_uri (demo_encode (''/'' @ SERVICE_NAME @ ''/Watch'') r)) = ''/'' @ SERVICE_NAME @ ''/Watch''" for r
  proof -
    have "uri_path parts_lib \<lparr>up_scheme = None, up_authority = None, up_path_and_query = Some (''/'' @ SERVICE_NAME @ ''/Watch'')\<rparr>
        = ''/'' @ SERVICE_NAME @ ''/Watch''" by code_simp
    then show ?thesis by (simp add: demo_encode_def)
  qed
  moreover have "grpc_server_streaming demo_tonic (cc_inner (client_new demo_tonic ())) r p
      = demo_decode (server_call parts_lib demo_streaming ?v (demo_encode p r))" for r p
    by (simp add: demo_tonic_def server_new_def server_from_arc_def)
  moreover have "demo_decode (demo_streaming ?v (demo_encode p r)) = cs_inner ?v r" for r p
    by (simp add: demo_decode_def demo_streaming_def demo_encode_def server_new_def server_from_arc_def demo_service_def)
  ultimately show ?thesis
    using watch_reaches_service [OF header_map_parts_lib, of demo_encode demo_tonic "client_new demo_tonic ()"
        demo_decode demo_streaming ?v "\<lparr>wr_node_id = ''dp-axum''\<rparr>"]
    by (simp add: demo_tonic_def server_new_def server_from_arc_def demo_service_def)
qed

end
