(* ===== verification/Control_Model.thy ===== *)
theory Control_Model
  imports Config Ordering "HOL-Library.Char_ord" "HOL-Library.List_Lexorder" "HOL-Library.Product_Lexorder"
begin

text \<open>
  The model package of the control plane (\<open>controlplane/internal/model\<close>, Go): the snapshot
  with its routes, clusters and certificates, the priority of a route, and \<open>Snapshot.Sort\<close>.
  Go strings are byte lists ordered byte by byte.  \<open>sort.Slice\<close> is not stable: it is a
  parameter with the law \<open>slice_sort\<close>.  A pointer is an address with the value behind it,
  because \<open>Sort\<close> compares pointers and the version of a snapshot prints them.
\<close>

section \<open>Data\<close>

type_synonym 'a pointer = "nat \<times> 'a"

record model_route =
  mr_host :: string
  mr_path :: string
  mr_path_type :: "string pointer"
  mr_cluster :: string
  mr_priority :: int

record model_endpoint =
  me_address :: string
  me_port :: i32
  me_weight :: i32
  me_zone :: string
  me_region :: string

record rewrite_headers =
  rw_name :: string
  rw_mode :: string
  rw_value :: string

record model_auth =
  ma_url :: string
  ma_signin :: string
  ma_response_headers :: "string list"
  ma_skip_paths :: "string list"
  ma_cookie_name :: string

record model_cluster =
  mc_name :: string
  mc_lb_policy :: string
  mc_endpoints :: "model_endpoint list"
  mc_timeout_ms :: i32
  mc_retries :: i32
  mc_backend_protocol :: string
  mc_rewrite_headers :: "rewrite_headers list"
  mc_auth :: "model_auth pointer option"

text \<open>The expiry is kept as Unix seconds.\<close>

record tls_secret =
  ts_name :: string
  ts_sni :: "string list"
  ts_cert_pem :: string
  ts_key_pem :: string
  ts_not_after :: i64
  ts_version :: string

definition no_secret :: tls_secret where
  "no_secret = \<lparr>ts_name = [], ts_sni = [], ts_cert_pem = [], ts_key_pem = [], ts_not_after = 0, ts_version = []\<rparr>"

record model_snapshot =
  ms_version :: string
  ms_controller_id :: string
  ms_ingress_class_name :: string
  ms_generated_at_unix_sec :: i64
  ms_resource_versions :: "string \<rightharpoonup> string"
  ms_routes :: "model_route list"
  ms_clusters :: "model_cluster list"
  ms_tls :: "tls_secret list"

section \<open>Priorities\<close>

definition path_type_rank :: "string \<Rightarrow> int" where
  "path_type_rank pt =
     (if pt = ''Exact'' then 3 else if pt = ''Prefix'' then 2
      else if pt = ''ImplementationSpecific'' then 1 else 0)"

definition route_priority :: "string \<Rightarrow> string \<Rightarrow> int" where
  "route_priority path pt = path_type_rank pt * 1000000 + int (length path)"

section \<open>Sorting\<close>

definition route_less :: "model_route \<Rightarrow> model_route \<Rightarrow> bool" where
  "route_less ri rj =
     (if mr_priority ri \<noteq> mr_priority rj then mr_priority rj < mr_priority ri
      else if mr_host ri \<noteq> mr_host rj then mr_host ri < mr_host rj
      else if mr_path ri \<noteq> mr_path rj then mr_path ri < mr_path rj
      else if fst (mr_path_type ri) \<noteq> fst (mr_path_type rj) then
        path_type_rank (snd (mr_path_type rj)) < path_type_rank (snd (mr_path_type ri))
      else mr_cluster ri < mr_cluster rj)"

definition cluster_less :: "model_cluster \<Rightarrow> model_cluster \<Rightarrow> bool" where
  "cluster_less ci cj \<longleftrightarrow> mc_name ci < mc_name cj"

definition tls_less :: "tls_secret \<Rightarrow> tls_secret \<Rightarrow> bool" where
  "tls_less ti tj \<longleftrightarrow> ts_name ti < ts_name tj"

text \<open>\<open>sort.Slice\<close> at the three element types.\<close>

record sorters =
  sort_routes :: "(model_route \<Rightarrow> model_route \<Rightarrow> bool) \<Rightarrow> model_route list \<Rightarrow> model_route list"
  sort_clusters :: "(model_cluster \<Rightarrow> model_cluster \<Rightarrow> bool) \<Rightarrow> model_cluster list \<Rightarrow> model_cluster list"
  sort_tls :: "(tls_secret \<Rightarrow> tls_secret \<Rightarrow> bool) \<Rightarrow> tls_secret list \<Rightarrow> tls_secret list"

definition snapshot_sort :: "sorters \<Rightarrow> model_snapshot \<Rightarrow> model_snapshot" where
  "snapshot_sort srt snap = snap
     \<lparr>ms_routes := sort_routes srt route_less (ms_routes snap),
      ms_clusters := sort_clusters srt cluster_less (ms_clusters snap),
      ms_tls := sort_tls srt tls_less (ms_tls snap)\<rparr>"

text \<open>
  What \<open>sort.Slice\<close> promises when the comparison is a strict weak order on the elements: a
  permutation in which no element is less than one before it.  Elements of which neither is
  less may come in any order.
\<close>

definition weak_order_on :: "'a set \<Rightarrow> ('a \<Rightarrow> 'a \<Rightarrow> bool) \<Rightarrow> bool" where
  "weak_order_on A lt \<longleftrightarrow>
     (\<forall>x \<in> A. \<forall>y \<in> A. lt x y \<longrightarrow> \<not> lt y x)
     \<and> (\<forall>x \<in> A. \<forall>y \<in> A. \<forall>z \<in> A. lt x z \<longrightarrow> lt x y \<or> lt y z)"

lemma weak_order_mono: "weak_order_on B lt \<Longrightarrow> A \<subseteq> B \<Longrightarrow> weak_order_on A lt"
  unfolding weak_order_on_def by (meson subsetD)

lemma weak_order_key:
  fixes key :: "'a \<Rightarrow> 'k::linorder"
  assumes "\<And>x y. x \<in> A \<Longrightarrow> y \<in> A \<Longrightarrow> lt x y \<longleftrightarrow> key x < key y"
  shows "weak_order_on A lt"
  using assms by (auto simp: weak_order_on_def)

locale slice_sort =
  fixes sort :: "('a \<Rightarrow> 'a \<Rightarrow> bool) \<Rightarrow> 'a list \<Rightarrow> 'a list"
  assumes sort_mset: "mset (sort lt xs) = mset xs"
    and sort_ordered: "weak_order_on (set xs) lt \<Longrightarrow> sorted_wrt (\<lambda>x y. \<not> lt y x) (sort lt xs)"
begin

lemma sort_set: "set (sort lt xs) = set xs"
  using arg_cong [OF sort_mset [of lt xs], of set_mset] by simp

lemma sort_length: "length (sort lt xs) = length xs"
  using arg_cong [OF sort_mset [of lt xs], of size] by simp

lemma sort_sorted:
  fixes key :: "'a \<Rightarrow> 'k::linorder"
  assumes "\<And>x y. x \<in> set xs \<Longrightarrow> y \<in> set xs \<Longrightarrow> lt x y \<longleftrightarrow> key x < key y"
  shows "sorted (map key (sort lt xs))"
proof -
  have "sorted_wrt (\<lambda>x y. \<not> lt y x) (sort lt xs)"
    using weak_order_key [OF assms] by (rule sort_ordered)
  then show ?thesis
    unfolding sorted_map
    by (rule sorted_wrt_mono_rel [rotated]) (use assms in \<open>auto simp: sort_set not_less\<close>)
qed

text \<open>With distinct keys the result does not depend on the order of the input, nor on the sort used.\<close>

lemma sort_determined:
  fixes key :: "'a \<Rightarrow> 'k::linorder"
  assumes "\<And>x y. x \<in> set xs \<Longrightarrow> y \<in> set xs \<Longrightarrow> lt x y \<longleftrightarrow> key x < key y"
    and "mset xs = mset ys" and "distinct (map key xs)"
  shows "sort lt xs = sort lt ys"
proof (rule map_inj_on)
  have ys: "set ys = set xs" "mset (sort lt xs) = mset (sort lt ys)"
    using mset_eq_setD [OF assms(2)] assms(2) by (simp_all add: sort_mset)
  have "sorted (map key (sort lt xs))" using assms(1) by (rule sort_sorted)
  moreover have "sorted (map key (sort lt ys))" using assms(1) by (intro sort_sorted) (simp add: ys)
  moreover have "mset (map key (sort lt xs)) = mset (map key (sort lt ys))" using ys by simp
  ultimately show "map key (sort lt xs) = map key (sort lt ys)"
    using properties_for_sort [of "map key (sort lt ys)" "map key (sort lt xs)"] sorted_sort_id by fastforce
  show "inj_on key (set (sort lt xs) \<union> set (sort lt ys))"
    using assms(3) by (simp add: sort_set ys distinct_map)
qed

end

text \<open>An insertion sort keeps the promise.\<close>

fun insert_lt :: "('a \<Rightarrow> 'a \<Rightarrow> bool) \<Rightarrow> 'a \<Rightarrow> 'a list \<Rightarrow> 'a list" where
  "insert_lt lt x [] = [x]"
| "insert_lt lt x (y # ys) = (if lt y x then y # insert_lt lt x ys else x # y # ys)"

fun insertion_sort :: "('a \<Rightarrow> 'a \<Rightarrow> bool) \<Rightarrow> 'a list \<Rightarrow> 'a list" where
  "insertion_sort lt [] = []"
| "insertion_sort lt (x # xs) = insert_lt lt x (insertion_sort lt xs)"

lemma mset_insert_lt: "mset (insert_lt lt x ys) = add_mset x (mset ys)"
  by (induction ys) simp_all

lemma mset_insertion_sort: "mset (insertion_sort lt xs) = mset xs"
  by (induction xs) (simp_all add: mset_insert_lt)

lemma sorted_insert_lt:
  assumes "weak_order_on (insert x (set ys)) lt" "sorted_wrt (\<lambda>x y. \<not> lt y x) ys"
  shows "sorted_wrt (\<lambda>x y. \<not> lt y x) (insert_lt lt x ys)"
  using assms
proof (induction ys)
  case (Cons y ys)
  have set: "set (insert_lt lt x ys) = insert x (set ys)"
    using arg_cong [OF mset_insert_lt [of lt x ys], of set_mset] by simp
  have asym: "lt a b \<Longrightarrow> \<not> lt b a" and neg: "lt a c \<Longrightarrow> lt a b \<or> lt b c"
    if "a \<in> insert x (set (y # ys))" "b \<in> insert x (set (y # ys))" "c \<in> insert x (set (y # ys))" for a b c
    using Cons.prems(1) that unfolding weak_order_on_def by blast+
  have ys: "\<forall>z \<in> set ys. \<not> lt z y" "sorted_wrt (\<lambda>x y. \<not> lt y x) ys" using Cons.prems(2) by simp_all
  show ?case
  proof (cases "lt y x")
    case True
    have "weak_order_on (insert x (set ys)) lt"
      using Cons.prems(1) by (rule weak_order_mono) auto
    then have "sorted_wrt (\<lambda>x y. \<not> lt y x) (insert_lt lt x ys)" using Cons.IH ys(2) by simp
    moreover have "\<not> lt x y" using True asym [of y x x] by simp
    ultimately show ?thesis using True ys(1) set by simp
  next
    case False
    have "\<not> lt z x" if "z \<in> set ys" for z
      using neg [of z y x] that ys(1) False by auto
    then show ?thesis using False ys by simp
  qed
qed simp

interpretation isort: slice_sort insertion_sort
proof
  show "mset (insertion_sort lt xs) = mset xs" for lt and xs :: "'a list" by (rule mset_insertion_sort)
  show "weak_order_on (set xs) lt \<Longrightarrow> sorted_wrt (\<lambda>x y. \<not> lt y x) (insertion_sort lt xs)" for lt and xs :: "'a list"
  proof (induction xs)
    case (Cons x xs)
    have set: "set (insertion_sort lt xs) = set xs"
      using arg_cong [OF mset_insertion_sort [of lt xs], of set_mset] by simp
    have "weak_order_on (set xs) lt" using Cons.prems by (rule weak_order_mono) auto
    then show ?case using Cons sorted_insert_lt [of x "insertion_sort lt xs" lt] by (simp add: set)
  qed simp
qed

definition go_sorters :: sorters where
  "go_sorters = \<lparr>sort_routes = insertion_sort, sort_clusters = insertion_sort, sort_tls = insertion_sort\<rparr>"

section \<open>The order of routes\<close>

text \<open>
  The routes of a snapshot carry the priority of their path and the cluster named after
  host and path.  On them the comparison is that of priority, host and path.
\<close>

definition cluster_name :: "string \<Rightarrow> string \<Rightarrow> string" where
  "cluster_name host path = host @ ''|'' @ path"

definition built_route :: "model_route \<Rightarrow> bool" where
  "built_route r \<longleftrightarrow> mr_cluster r = cluster_name (mr_host r) (mr_path r)
     \<and> mr_priority r = route_priority (mr_path r) (snd (mr_path_type r))"

definition order_key :: "model_route \<Rightarrow> int \<times> string \<times> string" where
  "order_key r = (- mr_priority r, mr_host r, mr_path r)"

lemma same_priority_same_rank:
  assumes "built_route r" "built_route q" "mr_priority r = mr_priority q" "mr_path r = mr_path q"
  shows "path_type_rank (snd (mr_path_type r)) = path_type_rank (snd (mr_path_type q))"
  using assms by (simp add: built_route_def route_priority_def)

lemma route_less_key:
  assumes "built_route r" "built_route q"
  shows "route_less r q \<longleftrightarrow> order_key r < order_key q"
proof (cases "mr_priority r = mr_priority q \<and> mr_host r = mr_host q \<and> mr_path r = mr_path q")
  case True
  then have "mr_cluster r = mr_cluster q" using assms by (simp add: built_route_def)
  with True same_priority_same_rank [OF assms] show ?thesis by (simp add: route_less_def order_key_def)
next
  case False
  then show ?thesis by (auto simp: route_less_def order_key_def)
qed

end
