(* ===== verification/Control_Annotations.thy ===== *)
theory Control_Annotations
  imports Control_Model Clusters
begin

text \<open>
  The annotations of an Ingress (\<open>controlplane/internal/controller/utils.go\<close>):
  \<open>parseAnnotations\<close> with its helpers \<open>getRequestHeaders\<close> and \<open>parseCSVList\<close>, and what they
  use of Go's standard library.  The YAML decoder is a parameter.  \<open>strings.TrimSpace\<close>
  removes the same characters as \<open>trim\<close>.
\<close>

section \<open>The standard library\<close>

text \<open>\<open>strings.Split\<close> at a one-byte separator.\<close>

fun str_split :: "char \<Rightarrow> string \<Rightarrow> string list" where
  "str_split c [] = [[]]"
| "str_split c (x # xs) =
     (if x = c then [] # str_split c xs
      else case str_split c xs of [] \<Rightarrow> [[x]] | p # ps \<Rightarrow> (x # p) # ps)"

text \<open>
  \<open>strings.EqualFold\<close> against an ASCII text: ASCII letters up to case, and the two letters
  outside ASCII that fold to one, U+017F to s and U+212A to k, in their UTF-8 encodings.
\<close>

fun fold_case :: "string \<Rightarrow> string" where
  "fold_case [] = []"
| "fold_case (x # xs) =
     (if x = CHR 0xC5 \<and> xs \<noteq> [] \<and> hd xs = CHR 0xBF then CHR ''s'' # fold_case (tl xs)
      else if x = CHR 0xE2 \<and> length xs \<ge> 2 \<and> take 2 xs = [CHR 0x84, CHR 0xAA] then CHR ''k'' # fold_case (drop 2 xs)
      else ascii_lower x # fold_case xs)"

definition equal_fold :: "string \<Rightarrow> string \<Rightarrow> bool" where
  "equal_fold s t \<longleftrightarrow> fold_case s = to_ascii_lowercase t"

text \<open>
  \<open>strconv.Atoi\<close> on 64-bit integers: the value and whether there was no error.  A text that
  is no number gives zero, one that is too large the nearest integer.
\<close>

fun uint_loop :: "nat \<Rightarrow> string \<Rightarrow> nat option" where
  "uint_loop acc [] = Some acc"
| "uint_loop acc (c # cs) =
     (if \<not> is_digit c then None
      else let v = 10 * acc + (of_char c - 48) in
        if v < 2 ^ 64 then uint_loop v cs else Some (2 ^ 64 - 1))"

definition atoi :: "string \<Rightarrow> int \<times> bool" where
  "atoi s =
     (let neg = (s \<noteq> [] \<and> hd s = CHR ''-'');
          ds = (if s \<noteq> [] \<and> hd s \<in> {CHR ''+'', CHR ''-''} then tl s else s)
      in if ds = [] then (0, False)
         else case uint_loop 0 ds of
           None \<Rightarrow> (0, False)
         | Some un \<Rightarrow>
             if \<not> neg \<and> 2 ^ 63 \<le> un then (2 ^ 63 - 1, False)
             else if neg \<and> 2 ^ 63 < un then (- (2 ^ 63), False)
             else (if neg then - int un else int un, True))"

section \<open>Lists and header rules\<close>

fun csv_loop :: "string list \<Rightarrow> string list \<Rightarrow> string list" where
  "csv_loop out [] = out"
| "csv_loop out (p # parts) =
     (let v = trim p in
      if v = [] then csv_loop out parts
      else if v \<in> set out then csv_loop out parts
      else csv_loop (out @ [v]) parts)"

definition parse_csv_list :: "string \<Rightarrow> string list" where
  "parse_csv_list s = csv_loop [] (str_split CHR '','' s)"

text \<open>The loop of \<open>getRequestHeaders\<close>; \<open>None\<close> is its error.\<close>

fun normalize_modes :: "rewrite_headers list \<Rightarrow> rewrite_headers list option" where
  "normalize_modes [] = Some []"
| "normalize_modes (h # hs) =
     (let mode = trim (rw_mode h);
          known = (if equal_fold mode ''Set'' then Some ''Set''
                   else if equal_fold mode ''Append'' then Some ''Append''
                   else if equal_fold mode ''Remove'' then Some ''Remove''
                   else None)
      in case known of
           None \<Rightarrow> None
         | Some m \<Rightarrow> map_option (\<lambda>rest. h\<lparr>rw_mode := m\<rparr> # rest) (normalize_modes hs))"

definition get_request_headers ::
  "(string \<Rightarrow> rewrite_headers list option) \<Rightarrow> string \<Rightarrow> rewrite_headers list option" where
  "get_request_headers unmarshal raw = Option.bind (unmarshal raw) normalize_modes"

section \<open>Annotations\<close>

record target_endpoint =
  te_port :: i32
  te_protocol :: string
  te_backend_protocol :: string
  te_addresses :: "string list"
  te_path_type :: "string pointer option"
  te_retries :: i32
  te_timeout_ms :: i32
  te_lb_algorithm :: string
  te_rewrite_headers :: "rewrite_headers list"
  te_auth :: "model_auth pointer option"

definition clamp_retries :: "int \<Rightarrow> int" where
  "clamp_retries v = (if v < 1 then 1 else if 10 < v then 10 else v)"

text \<open>An annotation that is present and not blank.\<close>

definition annotated :: "(string \<rightharpoonup> string) \<Rightarrow> string \<Rightarrow> string option" where
  "annotated annotations name =
     (case annotations name of
        None \<Rightarrow> None
      | Some raw \<Rightarrow> if trim raw = [] then None else Some raw)"

definition text_of :: "string option \<Rightarrow> string" where
  "text_of a = (case a of None \<Rightarrow> [] | Some raw \<Rightarrow> trim raw)"

definition csv_of :: "string option \<Rightarrow> string list" where
  "csv_of a = (case a of None \<Rightarrow> [] | Some raw \<Rightarrow> parse_csv_list raw)"

text \<open>The authorization settings, allocated at \<open>addr\<close> when any annotation asks for them.\<close>

definition parse_auth :: "nat \<Rightarrow> (string \<rightharpoonup> string) \<Rightarrow> model_auth pointer option" where
  "parse_auth addr annotations =
     (let url = annotated annotations ''argon.github.io/auth-url'';
          signin = annotated annotations ''argon.github.io/auth-signin'';
          resp = annotated annotations ''argon.github.io/auth-response-headers'';
          skip = annotated annotations ''argon.github.io/auth-skip-paths'';
          cookie = annotated annotations ''argon.github.io/auth-cookie-name''
      in if url = None \<and> signin = None \<and> resp = None \<and> skip = None \<and> cookie = None then None
         else Some (addr, \<lparr>ma_url = text_of url, ma_signin = text_of signin, ma_response_headers = csv_of resp,
                           ma_skip_paths = csv_of skip, ma_cookie_name = text_of cookie\<rparr>))"

definition parse_annotations ::
  "(string \<Rightarrow> rewrite_headers list option) \<Rightarrow> nat \<Rightarrow> (string \<rightharpoonup> string) \<Rightarrow> target_endpoint" where
  "parse_annotations unmarshal addr annotations =
     (let backend_protocol =
            (case annotations ''argon.github.io/backend-protocol'' of None \<Rightarrow> ''h1'' | Some v \<Rightarrow> v);
          backend_timeout =
            (case annotations ''argon.github.io/backend-timeout'' of None \<Rightarrow> 3000 | Some raw \<Rightarrow> fst (atoi raw));
          backend_retries =
            (case annotations ''argon.github.io/backend-retries'' of
               None \<Rightarrow> 1
             | Some raw \<Rightarrow> (case atoi raw of (v, ok) \<Rightarrow> if ok then v else 1));
          reqheaders =
            (case annotations ''argon.github.io/request-headers'' of
               None \<Rightarrow> []
             | Some raw \<Rightarrow> (case get_request_headers unmarshal raw of Some parsed \<Rightarrow> parsed | None \<Rightarrow> []));
          lb_algorithm =
            (case annotations ''argon.github.io/lb-algorithm'' of
               None \<Rightarrow> ''RoundRobin''
             | Some alg \<Rightarrow> if alg = ''LeastConn'' then ''LeastConn'' else ''RoundRobin'')
      in \<lparr>te_port = 0, te_protocol = [], te_backend_protocol = backend_protocol, te_addresses = [],
          te_path_type = None, te_retries = word_of_int (clamp_retries backend_retries),
          te_timeout_ms = word_of_int backend_timeout, te_lb_algorithm = lb_algorithm,
          te_rewrite_headers = reqheaders, te_auth = parse_auth addr annotations\<rparr>)"

section \<open>What comes out\<close>

lemma str_split_parts: "concat (map (\<lambda>p. c # p) (str_split c s)) = c # s"
  and str_split_no_sep: "p \<in> set (str_split c s) \<Longrightarrow> c \<notin> set p"
proof (induction s arbitrary: p)
  case (Cons x xs)
  { case 1 show ?case using Cons(1) by (cases "str_split c xs") auto
  next case 2 then show ?case using Cons(2) by (cases "str_split c xs") (auto split: if_splits) }
qed simp_all

definition csv_step :: "string list \<Rightarrow> string \<Rightarrow> string list" where
  "csv_step out p = (let v = trim p in if v = [] \<or> v \<in> set out then out else out @ [v])"

lemma csv_loop_foldl: "csv_loop out parts = foldl csv_step out parts"
  by (induction parts arbitrary: out) (simp_all add: csv_step_def Let_def)

lemma parse_csv_list_eq:
  "parse_csv_list s = rev (remdups (rev (filter (\<lambda>v. v \<noteq> []) (map trim (str_split CHR '','' s)))))"
proof -
  have "foldl csv_step [] parts = rev (remdups (rev (filter (\<lambda>v. v \<noteq> []) (map trim parts))))" for parts
    by (induction parts rule: rev_induct) (auto simp: csv_step_def Let_def)
  then show ?thesis by (simp add: parse_csv_list_def csv_loop_foldl)
qed

text \<open>
  Lists in annotations.  \<open>parseCSVList\<close> splits the text at its commas, which it does
  completely, and keeps the trimmed entries that are not blank, each at its first
  occurrence.
\<close>

theorem parse_csv_list_correct:
  "parse_csv_list s = rev (remdups (rev (filter (\<lambda>v. v \<noteq> []) (map trim (str_split CHR '','' s)))))
   \<and> concat (map (\<lambda>p. CHR '','' # p) (str_split CHR '','' s)) = CHR '','' # s
   \<and> CHR '','' \<notin> \<Union> (set ` set (str_split CHR '','' s))"
  using str_split_no_sep by (auto simp: parse_csv_list_eq str_split_parts)

lemma csv_wf: "distinct (parse_csv_list s) \<and> (\<forall>v \<in> set (parse_csv_list s). trim v = v \<and> v \<noteq> [])"
  unfolding parse_csv_list_eq by auto

lemma normalize_modes_known:
  "normalize_modes hs = Some out \<Longrightarrow> h \<in> set out \<Longrightarrow> rw_mode h \<in> {''Set'', ''Append'', ''Remove''}"
  by (induction hs arbitrary: out) (auto simp: Let_def split: if_splits)

lemma request_headers_known:
  "get_request_headers unmarshal raw = Some out \<Longrightarrow> h \<in> set out \<Longrightarrow> rw_mode h \<in> {''Set'', ''Append'', ''Remove''}"
  by (auto simp: get_request_headers_def bind_eq_Some_conv dest: normalize_modes_known)

lemma clamp_retries_range: "1 \<le> clamp_retries v \<and> clamp_retries v \<le> 10"
  by (simp add: clamp_retries_def)

lemma sint_small: "1 \<le> v \<Longrightarrow> v \<le> 10 \<Longrightarrow> sint (word_of_int v :: i32) = v"
  by (subst signed_of_int) (simp add: signed_take_bit_int_eq_self)

lemma csv_of_wf: "distinct (csv_of a) \<and> (\<forall>v \<in> set (csv_of a). trim v = v \<and> v \<noteq> [])"
  using csv_wf by (cases a) (auto simp: csv_of_def)

lemma parse_auth_wf:
  assumes "parse_auth addr annotations = Some (a, au)"
  shows "distinct (ma_response_headers au) \<and> distinct (ma_skip_paths au)
    \<and> (\<forall>v \<in> set (ma_response_headers au) \<union> set (ma_skip_paths au). trim v = v \<and> v \<noteq> [])"
proof -
  have alloc: "(if c then None else Some (addr, x)) = Some (a, au) \<Longrightarrow> au = x" for c x
    by (simp split: if_splits)
  have "ma_response_headers au = csv_of (annotated annotations ''argon.github.io/auth-response-headers'')"
    "ma_skip_paths au = csv_of (annotated annotations ''argon.github.io/auth-skip-paths'')"
    using alloc [OF assms [unfolded parse_auth_def Let_def]] by simp_all
  then show ?thesis using csv_of_wf by auto
qed

lemma parse_annotations_retries: "sint (te_retries (parse_annotations unmarshal addr annotations)) \<in> {1..10}"
proof -
  obtain v where "te_retries (parse_annotations unmarshal addr annotations) = word_of_int (clamp_retries v)"
    by (simp add: parse_annotations_def Let_def)
  then show ?thesis using clamp_retries_range [of v] by (simp add: sint_small)
qed

lemma parse_annotations_lb: "lb_policy_parse (te_lb_algorithm (parse_annotations unmarshal addr annotations)) \<noteq> None"
  by (simp add: parse_annotations_def Let_def lb_policy_parse_def split: option.split)

text \<open>
  C17: annotations are made sane.  Whatever an Ingress says, the template parsed from its
  annotations asks for one to ten attempts, balances by one of the two algorithms the data
  plane knows, has header rules of the three modes only, and lists for the authorization
  that have no blank and no repeated entries.
\<close>

theorem parse_annotations_sane:
  "1 \<le> sint (te_retries (parse_annotations unmarshal addr annotations))
   \<and> sint (te_retries (parse_annotations unmarshal addr annotations)) \<le> 10
   \<and> lb_policy_parse (te_lb_algorithm (parse_annotations unmarshal addr annotations)) \<noteq> None
   \<and> rw_mode ` set (te_rewrite_headers (parse_annotations unmarshal addr annotations))
        \<subseteq> {''Set'', ''Append'', ''Remove''}
   \<and> (case te_auth (parse_annotations unmarshal addr annotations) of
        None \<Rightarrow> annotated annotations ''argon.github.io/auth-url'' = None
      | Some (_, au) \<Rightarrow> distinct (ma_response_headers au) \<and> distinct (ma_skip_paths au)
          \<and> [] \<notin> set (ma_response_headers au @ ma_skip_paths au))"
proof -
  let ?t = "parse_annotations unmarshal addr annotations"
  have "rw_mode ` set (te_rewrite_headers ?t) \<subseteq> {''Set'', ''Append'', ''Remove''}"
  proof -
    have "te_rewrite_headers ?t = [] \<or> (\<exists>raw. get_request_headers unmarshal raw = Some (te_rewrite_headers ?t))"
      by (auto simp: parse_annotations_def Let_def split: option.splits)
    then show ?thesis using request_headers_known by fastforce
  qed
  moreover have "case te_auth ?t of None \<Rightarrow> annotated annotations ''argon.github.io/auth-url'' = None
      | Some (_, au) \<Rightarrow> distinct (ma_response_headers au) \<and> distinct (ma_skip_paths au)
          \<and> [] \<notin> set (ma_response_headers au @ ma_skip_paths au)"
  proof (cases "te_auth ?t")
    case None
    then have "parse_auth addr annotations = None" by (simp add: parse_annotations_def Let_def)
    then show ?thesis using None by (simp add: parse_auth_def Let_def split: if_splits)
  next
    case (Some p)
    then have "parse_auth addr annotations = Some (fst p, snd p)" by (simp add: parse_annotations_def Let_def)
    from parse_auth_wf [OF this] Some show ?thesis by (auto split: prod.splits)
  qed
  ultimately show ?thesis using parse_annotations_retries [of unmarshal addr annotations] parse_annotations_lb by auto
qed

end
