(* ===== verification/Control_Hub.thy ===== *)
theory Control_Hub
  imports Control_Model
begin

text \<open>
  The delivery of snapshots by the control plane (\<open>controlplane/internal/grpc\<close>): the
  \<open>StreamHub\<close>, which hands a snapshot to every connected data plane through a channel with
  one place, the loop of \<open>Watch\<close>, which sends them, and the translation into messages.
  \<open>Broadcast\<close> takes the list of channels under the lock and offers the snapshot to each
  afterwards, without waiting; both halves interleave with connecting, receiving and
  disconnecting.  The lemmas show that a stream never goes back in time, when it is up to
  date, and that a slow stream can miss the last snapshot for good.
\<close>

section \<open>Messages\<close>

definition to_pb_endpoint :: "model_endpoint \<Rightarrow> endpoint" where
  "to_pb_endpoint e =
     \<lparr>ep_address = me_address e, ep_port = me_port e, ep_weight = me_weight e, ep_zone = me_zone e,
      ep_region = me_region e\<rparr>"

definition to_pb_rewrite :: "rewrite_headers \<Rightarrow> header_rewrite" where
  "to_pb_rewrite rw = \<lparr>hr_name = rw_name rw, hr_mode = rw_mode rw, hr_value = rw_value rw\<rparr>"

definition to_pb_auth :: "model_auth \<Rightarrow> auth_config" where
  "to_pb_auth a =
     \<lparr>ac_url = ma_url a, ac_signin = ma_signin a, ac_response_headers = ma_response_headers a,
      ac_skip_paths = ma_skip_paths a, ac_cookie_name = ma_cookie_name a\<rparr>"

text \<open>The field \<open>backend_tls_insecure_skip_verify\<close> is not set and keeps its default.\<close>

definition to_pb_cluster :: "model_cluster \<Rightarrow> cluster" where
  "to_pb_cluster c =
     \<lparr>cl_name = mc_name c, cl_lb_policy = mc_lb_policy c, cl_endpoints = map to_pb_endpoint (mc_endpoints c),
      cl_timeout_ms = mc_timeout_ms c, cl_retries = mc_retries c, cl_backend_protocol = mc_backend_protocol c,
      cl_request_headers = map to_pb_rewrite (mc_rewrite_headers c),
      cl_backend_tls_insecure_skip_verify = False,
      cl_auth = map_option (\<lambda>(_, a). to_pb_auth a) (mc_auth c)\<rparr>"

definition to_pb_route :: "model_route \<Rightarrow> route" where
  "to_pb_route r =
     \<lparr>rt_host = mr_host r, rt_path = mr_path r, rt_path_type = snd (mr_path_type r), rt_cluster = mr_cluster r,
      rt_priority = word_of_int (mr_priority r)\<rparr>"

definition to_pb_tls :: "tls_secret \<Rightarrow> server_tls_bundle" where
  "to_pb_tls t =
     \<lparr>tb_name = ts_name t, tb_sni = ts_sni t, tb_cert_pem = ts_cert_pem t, tb_key_pem = ts_key_pem t,
      tb_not_after_unix = ts_not_after t, tb_version = ts_version t\<rparr>"

definition to_pb_snapshot :: "model_snapshot \<Rightarrow> snapshot" where
  "to_pb_snapshot s =
     \<lparr>sn_version = ms_version s, sn_controller_id = ms_controller_id s,
      sn_ingress_class_name = ms_ingress_class_name s, sn_generated_at_unix_sec = ms_generated_at_unix_sec s,
      sn_resource_versions = ms_resource_versions s, sn_routes = map to_pb_route (ms_routes s),
      sn_clusters = map to_pb_cluster (ms_clusters s), sn_server_tls = map to_pb_tls (ms_tls s)\<rparr>"

section \<open>The hub\<close>

definition empty_snapshot :: model_snapshot where
  "empty_snapshot =
     \<lparr>ms_version = [], ms_controller_id = [], ms_ingress_class_name = [], ms_generated_at_unix_sec = 0,
      ms_resource_versions = Map.empty, ms_routes = [], ms_clusters = [], ms_tls = []\<rparr>"

text \<open>A channel with one place is empty or holds a snapshot.\<close>

record hub =
  hb_next :: nat
  hb_cons :: "nat \<rightharpoonup> model_snapshot option"
  hb_last :: model_snapshot

definition new_stream_hub :: hub where
  "new_stream_hub = \<lparr>hb_next = 0, hb_cons = Map.empty, hb_last = empty_snapshot\<rparr>"

definition hub_add :: "hub \<Rightarrow> nat \<times> model_snapshot \<times> hub" where
  "hub_add h = (hb_next h, hb_last h, h\<lparr>hb_next := Suc (hb_next h), hb_cons := (hb_cons h)(hb_next h \<mapsto> None)\<rparr>)"

definition hub_remove :: "nat \<Rightarrow> hub \<Rightarrow> hub" where
  "hub_remove i h = h\<lparr>hb_cons := (hb_cons h)(i := None)\<rparr>"

text \<open>The half of \<open>Broadcast\<close> under the lock; the channels taken are those of \<open>hb_cons\<close>.\<close>

definition hub_begin :: "model_snapshot \<Rightarrow> hub \<Rightarrow> hub" where
  "hub_begin s h = h\<lparr>hb_last := s\<rparr>"

text \<open>One offer, to a channel that is still connected: the snapshot is dropped if the channel is full.\<close>

definition hub_offer :: "model_snapshot \<Rightarrow> nat \<Rightarrow> hub \<Rightarrow> hub" where
  "hub_offer s i h =
     (case hb_cons h i of
        Some None \<Rightarrow> h\<lparr>hb_cons := (hb_cons h)(i \<mapsto> Some s)\<rparr>
      | _ \<Rightarrow> h)"

section \<open>Streams\<close>

text \<open>
  A connected \<open>Watch\<close>: the snapshot it got from \<open>Add\<close> and has not sent yet, what it has sent,
  and, as history, whether the last offer to it was dropped.
\<close>

record watch =
  wa_initial :: "model_snapshot option"
  wa_sent :: "model_snapshot list"
  wa_dropped :: bool

record plane_control =
  pc_hub :: hub
  pc_offers :: "(model_snapshot \<times> nat set) option"
  pc_watches :: "nat \<rightharpoonup> watch"
  pc_history :: "model_snapshot list"

definition control_init :: plane_control where
  "control_init = \<lparr>pc_hub = new_stream_hub, pc_offers = None, pc_watches = Map.empty, pc_history = []\<rparr>"

text \<open>
  The steps: a data plane connects; it is sent the last snapshot if there is one; a
  broadcast begins, offers to one channel after the other in any order, and ends; a stream
  takes a snapshot from its channel and sends it; a stream ends.  Snapshots are broadcast
  one at a time, with a version that is not empty.
\<close>

inductive control_step :: "plane_control \<Rightarrow> plane_control \<Rightarrow> bool" where
  connect: "hub_add (pc_hub p) = (i, lst, h) \<Longrightarrow>
    control_step p (p\<lparr>pc_hub := h,
      pc_watches := (pc_watches p)(i \<mapsto> \<lparr>wa_initial = Some lst, wa_sent = [], wa_dropped = False\<rparr>)\<rparr>)"
| send_initial: "pc_watches p i = Some w \<Longrightarrow> wa_initial w = Some lst \<Longrightarrow>
    control_step p (p\<lparr>pc_watches := (pc_watches p)
      (i \<mapsto> w\<lparr>wa_initial := None, wa_sent := wa_sent w @ (if ms_version lst \<noteq> [] then [lst] else [])\<rparr>)\<rparr>)"
| broadcast: "pc_offers p = None \<Longrightarrow> ms_version s \<noteq> [] \<Longrightarrow>
    control_step p (p\<lparr>pc_hub := hub_begin s (pc_hub p), pc_offers := Some (s, dom (hb_cons (pc_hub p))),
      pc_history := pc_history p @ [s]\<rparr>)"
| offer: "pc_offers p = Some (s, is) \<Longrightarrow> i \<in> is \<Longrightarrow>
    control_step p (p\<lparr>pc_hub := hub_offer s i (pc_hub p), pc_offers := Some (s, is - {i}),
      pc_watches := (pc_watches p)(i := map_option
        (\<lambda>w. w\<lparr>wa_dropped := (\<exists>x. hb_cons (pc_hub p) i = Some (Some x))\<rparr>) (pc_watches p i))\<rparr>)"
| broadcast_done: "pc_offers p = Some (s, {}) \<Longrightarrow> control_step p (p\<lparr>pc_offers := None\<rparr>)"
| receive: "pc_watches p i = Some w \<Longrightarrow> wa_initial w = None \<Longrightarrow> hb_cons (pc_hub p) i = Some (Some s) \<Longrightarrow>
    control_step p (p\<lparr>pc_hub := (pc_hub p)\<lparr>hb_cons := (hb_cons (pc_hub p))(i \<mapsto> None)\<rparr>,
      pc_watches := (pc_watches p)(i \<mapsto> w\<lparr>wa_sent := wa_sent w @ [s]\<rparr>)\<rparr>)"
| stream_ends: "control_step p (p\<lparr>pc_hub := hub_remove i (pc_hub p), pc_watches := (pc_watches p)(i := None)\<rparr>)"

inductive control_reachable :: "plane_control \<Rightarrow> bool" where
  control_start: "control_reachable control_init"
| control_run: "control_reachable p \<Longrightarrow> control_step p q \<Longrightarrow> control_reachable q"

section \<open>What a stream carries\<close>

text \<open>
  Everything a stream has sent and is bound to send, in order: what it sent, the snapshot of
  \<open>Add\<close>, the channel, the offer still to come.
\<close>

definition versioned :: "model_snapshot option \<Rightarrow> model_snapshot list" where
  "versioned x = (case x of Some s \<Rightarrow> if ms_version s \<noteq> [] then [s] else [] | None \<Rightarrow> [])"

definition upcoming :: "plane_control \<Rightarrow> nat \<Rightarrow> model_snapshot list" where
  "upcoming p i =
     (case hb_cons (pc_hub p) i of Some (Some s) \<Rightarrow> [s] | _ \<Rightarrow> [])
     @ (case pc_offers p of Some (s, is) \<Rightarrow> if i \<in> is then [s] else [] | None \<Rightarrow> [])"

definition stream_of :: "plane_control \<Rightarrow> nat \<Rightarrow> watch \<Rightarrow> model_snapshot list" where
  "stream_of p i w = wa_sent w @ versioned (wa_initial w) @ upcoming p i"

definition awaits :: "plane_control \<Rightarrow> nat \<Rightarrow> bool" where
  "awaits p i \<longleftrightarrow> (\<exists>s is. pc_offers p = Some (s, is) \<and> i \<in> is)"

text \<open>A stream is a part of the history, and ends where the history ends unless the last offer was dropped.\<close>

definition stream_ok :: "plane_control \<Rightarrow> nat \<Rightarrow> watch \<Rightarrow> bool" where
  "stream_ok p i w \<longleftrightarrow> subseq (stream_of p i w) (pc_history p)
     \<and> (pc_history p = [] \<or> stream_of p i w \<noteq> [] \<and> last (stream_of p i w) = last (pc_history p)
        \<or> wa_dropped w \<and> \<not> awaits p i)"

definition hub_ok :: "plane_control \<Rightarrow> bool" where
  "hub_ok p \<longleftrightarrow>
     hb_last (pc_hub p) = last (empty_snapshot # pc_history p)
     \<and> (\<forall>s \<in> set (pc_history p). ms_version s \<noteq> [])
     \<and> (\<forall>i. hb_next (pc_hub p) \<le> i \<longrightarrow> hb_cons (pc_hub p) i = None)
     \<and> dom (pc_watches p) = dom (hb_cons (pc_hub p))
     \<and> (\<forall>s is. pc_offers p = Some (s, is) \<longrightarrow> is \<subseteq> {..<hb_next (pc_hub p)})"

definition control_inv :: "plane_control \<Rightarrow> bool" where
  "control_inv p \<longleftrightarrow> hub_ok p \<and> (\<forall>i w. pc_watches p i = Some w \<longrightarrow> stream_ok p i w)"

lemma versioned_simps [simp]:
  "versioned None = []" "versioned (Some s) = (if ms_version s \<noteq> [] then [s] else [])"
  by (simp_all add: versioned_def)

lemma last_versioned:
  assumes "hub_ok p"
  shows "versioned (Some (hb_last (pc_hub p))) = (if pc_history p = [] then [] else [last (pc_history p)])"
proof (cases "pc_history p = []")
  case True
  then show ?thesis using assms by (simp add: hub_ok_def empty_snapshot_def)
next
  case False
  then have "hb_last (pc_hub p) = last (pc_history p)" "ms_version (last (pc_history p)) \<noteq> []"
    using assms by (simp_all add: hub_ok_def)
  with False show ?thesis by simp
qed

lemma hub_offer_cons:
  "hb_cons (hub_offer s i h) = (hb_cons h)(i := map_option (\<lambda>c. case c of None \<Rightarrow> Some s | Some x \<Rightarrow> Some x) (hb_cons h i))"
  "hb_last (hub_offer s i h) = hb_last h" "hb_next (hub_offer s i h) = hb_next h"
  by (auto simp: hub_offer_def split: option.splits)

lemma hub_ok_step:
  assumes "control_step p q" "hub_ok p"
  shows "hub_ok q"
  using assms(1)
proof (cases rule: control_step.cases)
  case (connect i lst h)
  have "is \<subseteq> {..<Suc (hb_next (pc_hub p))}" if "pc_offers p = Some (s, is)" for s "is"
    using that assms(2) by (fastforce simp: hub_ok_def)
  with connect assms(2) show ?thesis by (auto simp: hub_ok_def hub_add_def)
next
  case (send_initial i w lst)
  have "i \<in> dom (pc_watches p)" using send_initial(2) by blast
  with send_initial(1) assms(2) show ?thesis by (auto simp: hub_ok_def)
next
  case (broadcast s)
  have "dom (hb_cons (pc_hub p)) \<subseteq> {..<hb_next (pc_hub p)}"
  proof (rule subsetI, rule ccontr)
    fix x assume "x \<in> dom (hb_cons (pc_hub p))" "x \<notin> {..<hb_next (pc_hub p)}"
    then show False using assms(2) by (auto simp: hub_ok_def)
  qed
  with broadcast assms(2) show ?thesis by (simp add: hub_ok_def hub_begin_def)
next
  case (offer s "is" i)
  have "dom ((pc_watches p)(i := map_option f (pc_watches p i))) = dom (pc_watches p)"
    "dom ((hb_cons (pc_hub p))(i := map_option g (hb_cons (pc_hub p) i))) = dom (hb_cons (pc_hub p))" for f g
    by (auto split: if_splits)
  with offer assms(2) show ?thesis by (simp add: hub_ok_def hub_offer_cons) blast
next
  case (broadcast_done s)
  with assms(2) show ?thesis by (simp add: hub_ok_def)
next
  case (receive i w s)
  have "i \<in> dom (pc_watches p)" "i \<in> dom (hb_cons (pc_hub p))" "\<not> hb_next (pc_hub p) \<le> i"
    using receive(2,4) assms(2) by (auto simp: hub_ok_def)
  with receive(1) assms(2) show ?thesis by (auto simp: hub_ok_def)
next
  case (stream_ends i)
  with assms(2) show ?thesis by (simp add: hub_ok_def hub_remove_def)
qed

lemma stream_ok_cong:
  assumes "stream_of q i v = stream_of p i w" "pc_history q = pc_history p" "wa_dropped v = wa_dropped w"
    "awaits q i = awaits p i"
  shows "stream_ok q i v = stream_ok p i w"
  using assms by (simp add: stream_ok_def)

lemma stream_ok_same:
  assumes "hb_cons (pc_hub q) i = hb_cons (pc_hub p) i" "pc_history q = pc_history p" "awaits q i = awaits p i"
    "awaits p i \<Longrightarrow> map_option fst (pc_offers q) = map_option fst (pc_offers p)"
  shows "stream_ok q i w = stream_ok p i w"
proof -
  have "upcoming q i = upcoming p i"
    using assms(1,3,4) by (auto simp: upcoming_def awaits_def split: option.splits)
  then show ?thesis using assms(2,3) by (intro stream_ok_cong) (simp_all add: stream_of_def)
qed

lemma stream_of_connect:
  assumes "hub_ok p" "hub_add (pc_hub p) = (i, lst, h)"
  shows "stream_of (p\<lparr>pc_hub := h, pc_watches := ws\<rparr>) i \<lparr>wa_initial = Some lst, wa_sent = [], wa_dropped = False\<rparr>
    = (if pc_history p = [] then [] else [last (pc_history p)])"
proof -
  have "\<not> awaits p (hb_next (pc_hub p))" using assms(1) by (auto simp: hub_ok_def awaits_def)
  then have "upcoming (p\<lparr>pc_hub := h, pc_watches := ws\<rparr>) i = []"
    using assms(2) by (auto simp: upcoming_def awaits_def hub_add_def split: option.splits)
  then show ?thesis
    using assms(2) last_versioned [OF assms(1)] by (simp add: stream_of_def hub_add_def del: versioned_simps)
qed

lemma stream_ok_connect:
  assumes "hub_ok p" "hub_add (pc_hub p) = (i, lst, h)"
  shows "stream_ok (p\<lparr>pc_hub := h, pc_watches := ws\<rparr>) i \<lparr>wa_initial = Some lst, wa_sent = [], wa_dropped = False\<rparr>"
proof -
  have "hist \<noteq> [] \<Longrightarrow> subseq [last hist] hist" for hist :: "model_snapshot list"
    by (simp add: subseq_singleton_left)
  then show ?thesis by (auto simp: stream_ok_def stream_of_connect [OF assms])
qed

lemma stream_ok_broadcast:
  assumes "pc_offers p = None" "i \<in> dom (hb_cons (pc_hub p))" "stream_ok p i w"
  shows "stream_ok (p\<lparr>pc_hub := hub_begin s (pc_hub p), pc_offers := Some (s, dom (hb_cons (pc_hub p))),
      pc_history := pc_history p @ [s]\<rparr>) i w" (is "stream_ok ?q i w")
proof -
  have "upcoming ?q i = upcoming p i @ [s]"
    using assms(1,2) by (auto simp: upcoming_def hub_begin_def split: option.splits)
  then have "stream_of ?q i w = stream_of p i w @ [s]" by (simp add: stream_of_def)
  moreover have "subseq (stream_of p i w @ [s]) (pc_history p @ [s])"
    using assms(3) by (simp add: stream_ok_def)
  ultimately show ?thesis by (simp add: stream_ok_def)
qed

lemma stream_ok_offer:
  assumes "pc_offers p = Some (s, is)" "i \<in> is" "i \<in> dom (hb_cons (pc_hub p))" "stream_ok p i w"
  shows "stream_ok (p\<lparr>pc_hub := hub_offer s i (pc_hub p), pc_offers := Some (s, is - {i}), pc_watches := ws\<rparr>) i
    (w\<lparr>wa_dropped := (\<exists>x. hb_cons (pc_hub p) i = Some (Some x))\<rparr>)" (is "stream_ok ?q i ?w")
proof (cases "\<exists>x. hb_cons (pc_hub p) i = Some (Some x)")
  case True
  then obtain x where x: "hb_cons (pc_hub p) i = Some (Some x)" by blast
  have "stream_of p i w = stream_of ?q i ?w @ [s]"
    using x assms(1,2) by (simp add: stream_of_def upcoming_def hub_offer_cons)
  moreover have "subseq (stream_of p i w) (pc_history p)" using assms(4) by (simp add: stream_ok_def)
  moreover have "subseq (stream_of ?q i ?w) (stream_of ?q i ?w @ [s])" by (simp add: prefix_imp_subseq)
  ultimately have "subseq (stream_of ?q i ?w) (pc_history p)" using subseq_order.trans by metis
  then show ?thesis using True by (simp add: stream_ok_def awaits_def)
next
  case False
  then have x: "hb_cons (pc_hub p) i = Some None" using assms(3) by auto
  have "stream_of ?q i ?w = stream_of p i w"
    using x assms(1,2) by (simp add: stream_of_def upcoming_def hub_offer_cons)
  moreover have "awaits p i" using assms(1,2) by (simp add: awaits_def)
  ultimately show ?thesis using assms(4) by (auto simp: stream_ok_def)
qed

lemma control_inv_step:
  assumes "control_step p q" "control_inv p"
  shows "control_inv q"
proof -
  have hub: "hub_ok p" and ok: "\<And>i w. pc_watches p i = Some w \<Longrightarrow> stream_ok p i w"
    using assms(2) by (simp_all add: control_inv_def)
  have member: "j \<in> dom (hb_cons (pc_hub p))" if "pc_watches p j = Some w" for j w
    using hub that by (auto simp: hub_ok_def)
  have "stream_ok q j v" if v: "pc_watches q j = Some v" for j v
    using assms(1)
  proof (cases rule: control_step.cases)
    case (connect i lst h)
    show ?thesis
    proof (cases "j = i")
      case True
      then show ?thesis using connect v stream_ok_connect [OF hub connect(2)] by simp
    next
      case False
      then have "pc_watches p j = Some v" using connect(1) v by simp
      moreover have "stream_ok q j v = stream_ok p j v"
        using False connect by (intro stream_ok_same) (auto simp: hub_add_def awaits_def)
      ultimately show ?thesis using ok by simp
    qed
  next
    case (send_initial i w lst)
    then obtain u where u: "pc_watches p j = Some u" "wa_dropped v = wa_dropped u"
      "wa_sent v @ versioned (wa_initial v) = wa_sent u @ versioned (wa_initial u)"
      using v by (cases "j = i") auto
    moreover have "upcoming q j = upcoming p j" using send_initial(1) by (simp add: upcoming_def)
    moreover have "awaits q j = awaits p j" "pc_history q = pc_history p" using send_initial(1) by (simp_all add: awaits_def)
    ultimately have "stream_ok q j v = stream_ok p j u"
      by (intro stream_ok_cong) (simp_all add: stream_of_def)
    then show ?thesis using ok [OF u(1)] by simp
  next
    case (broadcast s)
    then have p: "pc_watches p j = Some v" using v by simp
    show ?thesis unfolding broadcast(1) using broadcast(2) member [OF p] ok [OF p] by (rule stream_ok_broadcast)
  next
    case (offer s "is" i)
    show ?thesis
    proof (cases "j = i")
      case True
      then obtain u where u: "pc_watches p i = Some u" "v = u\<lparr>wa_dropped := (\<exists>x. hb_cons (pc_hub p) i = Some (Some x))\<rparr>"
        using v offer(1) by auto
      show ?thesis unfolding offer(1) True u(2)
        using offer(2,3) member [OF u(1)] ok [OF u(1)] by (rule stream_ok_offer)
    next
      case False
      then have "pc_watches p j = Some v" using offer(1) v by simp
      moreover have "stream_ok q j v = stream_ok p j v"
        using False offer by (intro stream_ok_same) (auto simp: hub_offer_cons awaits_def)
      ultimately show ?thesis using ok by simp
    qed
  next
    case (broadcast_done s)
    then have "pc_watches p j = Some v" using v by simp
    moreover have "stream_ok q j v = stream_ok p j v"
      using broadcast_done by (intro stream_ok_same) (auto simp: awaits_def)
    ultimately show ?thesis using ok by simp
  next
    case (receive i w s)
    then obtain u where u: "pc_watches p j = Some u" "wa_dropped v = wa_dropped u" "stream_of q j v = stream_of p j u"
      using v by (cases "j = i") (auto simp: stream_of_def upcoming_def)
    moreover have "awaits q j = awaits p j" "pc_history q = pc_history p" using receive(1) by (simp_all add: awaits_def)
    ultimately have "stream_ok q j v = stream_ok p j u" by (intro stream_ok_cong)
    then show ?thesis using ok [OF u(1)] by simp
  next
    case (stream_ends i)
    then have "pc_watches p j = Some v" "j \<noteq> i" using v by (auto split: if_splits)
    moreover from this have "stream_ok q j v = stream_ok p j v"
      using stream_ends by (intro stream_ok_same) (auto simp: hub_remove_def awaits_def)
    ultimately show ?thesis using ok by simp
  qed
  then show ?thesis using hub_ok_step [OF assms(1) hub] by (simp add: control_inv_def)
qed

text \<open>
  How a step changes a stream: not at all, by the new snapshot, or by losing the offer at its
  end; what was sent stays sent.
\<close>

definition stream_moved :: "plane_control \<Rightarrow> watch \<Rightarrow> plane_control \<Rightarrow> watch \<Rightarrow> nat \<Rightarrow> bool" where
  "stream_moved p w q v i \<longleftrightarrow> prefix (wa_sent w) (wa_sent v) \<and>
     (stream_of q i v = stream_of p i w \<and> pc_history q = pc_history p
      \<or> (\<exists>s. stream_of q i v = stream_of p i w @ [s] \<and> pc_history q = pc_history p @ [s])
      \<or> (\<exists>s. stream_of p i w = stream_of q i v @ [s] \<and> pc_history q = pc_history p))"

lemma stream_moved_same:
  assumes "hb_cons (pc_hub q) i = hb_cons (pc_hub p) i" "pc_history q = pc_history p" "awaits q i = awaits p i"
    "awaits p i \<Longrightarrow> map_option fst (pc_offers q) = map_option fst (pc_offers p)"
  shows "stream_moved p w q w i"
proof -
  have "upcoming q i = upcoming p i"
    using assms(1,3,4) by (auto simp: upcoming_def awaits_def split: option.splits)
  then show ?thesis using assms(2) by (simp add: stream_moved_def stream_of_def)
qed

lemma watch_id:
  assumes "hub_ok p" "pc_watches p j = Some w"
  shows "j < hb_next (pc_hub p)" "j \<in> dom (hb_cons (pc_hub p))"
proof -
  have "dom (pc_watches p) = dom (hb_cons (pc_hub p))" using assms(1) by (simp add: hub_ok_def)
  with assms(2) show j: "j \<in> dom (hb_cons (pc_hub p))" by blast
  show "j < hb_next (pc_hub p)"
  proof (rule ccontr)
    assume "\<not> j < hb_next (pc_hub p)"
    then have "hb_cons (pc_hub p) j = None" using assms(1) by (simp add: hub_ok_def)
    with j show False by auto
  qed
qed

lemma control_step_stream:
  assumes "control_step p q" "hub_ok p" "pc_watches p j = Some w" "pc_watches q j = Some v"
  shows "stream_moved p w q v j"
  using assms(1)
proof (cases rule: control_step.cases)
  case (connect i lst h)
  have "j \<noteq> i" using connect(2) watch_id(1) [OF assms(2,3)] by (auto simp: hub_add_def)
  with connect assms(3,4) have "v = w" by simp
  with \<open>j \<noteq> i\<close> connect show ?thesis by (auto simp: hub_add_def awaits_def intro!: stream_moved_same)
next
  case (send_initial i u lst)
  then show ?thesis using assms(3,4)
    by (cases "j = i") (auto simp: stream_moved_def stream_of_def upcoming_def)
next
  case (broadcast s)
  have "j \<in> dom (hb_cons (pc_hub p))" using assms(2,3) by (rule watch_id)
  then have "upcoming q j = upcoming p j @ [s]"
    using broadcast by (auto simp: upcoming_def hub_begin_def split: option.splits)
  then show ?thesis using broadcast(1) assms(3,4) by (simp add: stream_moved_def stream_of_def)
next
  case (offer s "is" i)
  show ?thesis
  proof (cases "j = i")
    case True
    have "j \<in> dom (hb_cons (pc_hub p))" using assms(2,3) by (rule watch_id)
    then obtain c where c: "hb_cons (pc_hub p) j = Some c" by blast
    have "upcoming q j = upcoming p j \<or> upcoming p j = upcoming q j @ [s]"
      using True offer c by (cases c) (simp_all add: upcoming_def hub_offer_cons)
    moreover have "wa_sent v = wa_sent w" "wa_initial v = wa_initial w" "pc_history q = pc_history p"
      using True offer(1) assms(3,4) by auto
    ultimately show ?thesis by (auto simp: stream_moved_def stream_of_def)
  next
    case False
    then have "v = w" using offer(1) assms(3,4) by simp
    with False offer show ?thesis by (auto simp: hub_offer_cons awaits_def intro!: stream_moved_same)
  qed
next
  case (broadcast_done s)
  then have "v = w" using assms(3,4) by simp
  with broadcast_done show ?thesis by (auto simp: awaits_def intro!: stream_moved_same)
next
  case (receive i u s)
  then show ?thesis using assms(3,4)
    by (cases "j = i") (auto simp: stream_moved_def stream_of_def upcoming_def)
next
  case (stream_ends i)
  then have "j \<noteq> i" "v = w" using assms(3,4) by (auto split: if_splits)
  with stream_ends show ?thesis by (auto simp: hub_remove_def awaits_def intro!: stream_moved_same)
qed

lemma control_step_history:
  "control_step p q \<Longrightarrow> (pc_history q = pc_history p \<or> (\<exists>s. pc_history q = pc_history p @ [s]))
     \<and> hb_next (pc_hub p) \<le> hb_next (pc_hub q)"
  by (erule control_step.cases) (auto simp: hub_add_def hub_begin_def hub_offer_cons hub_remove_def)

text \<open>An identifier is not given out twice.\<close>

lemma control_step_gone:
  "control_step p q \<Longrightarrow> i < hb_next (pc_hub p) \<Longrightarrow> pc_watches p i = None \<Longrightarrow> pc_watches q i = None"
  by (erule control_step.cases) (auto simp: hub_add_def)

lemma control_inv_reachable: "control_reachable p \<Longrightarrow> control_inv p"
proof (induction rule: control_reachable.induct)
  case control_start
  show ?case by (simp add: control_inv_def hub_ok_def control_init_def new_stream_hub_def)
next
  case (control_run p q)
  then show ?case by (blast intro: control_inv_step)
qed

text \<open>
  A stream follows the history.  What a data plane has been sent is a part of the
  broadcast snapshots in their order, so it never goes back in time; and once nothing is
  on its way to it, it has the last snapshot unless the last offer to it was dropped.
\<close>

theorem stream_follows_history:
  assumes "control_reachable p" and "pc_watches p i = Some w"
  shows "subseq (wa_sent w) (pc_history p)
    \<and> (\<not> wa_dropped w \<longrightarrow> wa_initial w = None \<longrightarrow> upcoming p i = [] \<longrightarrow> pc_history p \<noteq> [] \<longrightarrow>
        wa_sent w \<noteq> [] \<and> last (wa_sent w) = hb_last (pc_hub p))"
proof -
  have ok: "stream_ok p i w" and hub: "hub_ok p"
    using control_inv_reachable [OF assms(1)] assms(2) by (auto simp: control_inv_def)
  have "subseq (wa_sent w) (stream_of p i w)" by (simp add: stream_of_def prefix_imp_subseq)
  then have "subseq (wa_sent w) (pc_history p)"
    using ok subseq_order.trans unfolding stream_ok_def by blast
  moreover have "pc_history p \<noteq> [] \<Longrightarrow> hb_last (pc_hub p) = last (pc_history p)"
    using hub by (simp add: hub_ok_def)
  ultimately show ?thesis using ok by (auto simp: stream_ok_def stream_of_def)
qed

section \<open>A lost update\<close>

definition version :: "string \<Rightarrow> model_snapshot" where
  "version v = empty_snapshot\<lparr>ms_version := v\<rparr>"

text \<open>
  A data plane connects, a snapshot is broadcast, and before the stream has taken it from
  the channel a second one.
\<close>

definition one_watch :: "model_snapshot option \<Rightarrow> model_snapshot \<Rightarrow> (model_snapshot \<times> nat set) option
    \<Rightarrow> model_snapshot option \<Rightarrow> model_snapshot list \<Rightarrow> bool \<Rightarrow> model_snapshot list \<Rightarrow> plane_control" where
  "one_watch channel lst offers initial sent dropped history =
     \<lparr>pc_hub = \<lparr>hb_next = 1, hb_cons = [0 \<mapsto> channel], hb_last = lst\<rparr>, pc_offers = offers,
      pc_watches = [0 \<mapsto> \<lparr>wa_initial = initial, wa_sent = sent, wa_dropped = dropped\<rparr>], pc_history = history\<rparr>"

lemma one_watch_add:
  "hub_add (pc_hub control_init) = (0, empty_snapshot, \<lparr>hb_next = 1, hb_cons = [0 \<mapsto> None], hb_last = empty_snapshot\<rparr>)"
  by (simp add: control_init_def new_stream_hub_def hub_add_def)

lemma one_watch_connect:
  "control_step control_init (one_watch None empty_snapshot None (Some empty_snapshot) [] False [])"
  using connect [OF one_watch_add] by (simp add: control_init_def one_watch_def)

lemma one_watch_initial:
  "control_step (one_watch c l off (Some empty_snapshot) [] d hist) (one_watch c l off None [] d hist)"
  using send_initial [of "one_watch c l off (Some empty_snapshot) [] d hist" 0
    "\<lparr>wa_initial = Some empty_snapshot, wa_sent = [], wa_dropped = d\<rparr>" empty_snapshot]
  by (simp add: one_watch_def) (simp add: empty_snapshot_def)

lemma one_watch_broadcast:
  "ms_version s \<noteq> [] \<Longrightarrow>
   control_step (one_watch c l None ini sent d hist) (one_watch c s (Some (s, {0})) ini sent d (hist @ [s]))"
  using broadcast [of "one_watch c l None ini sent d hist" s] by (simp add: one_watch_def hub_begin_def)

lemma one_watch_offer:
  "control_step (one_watch c l (Some (s, {0})) ini sent d hist)
     (one_watch (case c of None \<Rightarrow> Some s | Some x \<Rightarrow> Some x) l (Some (s, {})) ini sent (c \<noteq> None) hist)"
  using offer [of "one_watch c l (Some (s, {0})) ini sent d hist" s "{0}" 0]
  by (cases c) (simp_all add: one_watch_def hub_offer_def)

lemma one_watch_done:
  "control_step (one_watch c l (Some (s, {})) ini sent d hist) (one_watch c l None ini sent d hist)"
  using broadcast_done [of "one_watch c l (Some (s, {})) ini sent d hist" s] by (simp add: one_watch_def)

lemma one_watch_receive:
  "control_step (one_watch (Some s) l off None sent d hist) (one_watch None l off None (sent @ [s]) d hist)"
  using receive [of "one_watch (Some s) l off None sent d hist" 0 "\<lparr>wa_initial = None, wa_sent = sent, wa_dropped = d\<rparr>" s]
  by (simp add: one_watch_def)

lemmas one_watch_steps = one_watch_initial one_watch_broadcast one_watch_offer one_watch_done one_watch_receive

lemma lost_run:
  assumes "ms_version s1 \<noteq> []" "ms_version s2 \<noteq> []"
  shows "control_reachable (one_watch None s2 None None [s1] True [s1, s2])"
proof -
  have "control_reachable (one_watch None empty_snapshot None None [] False [])"
    by (rule control_run [OF control_run [OF control_start one_watch_connect] one_watch_initial])
  then have "control_reachable (one_watch (Some s1) s1 (Some (s1, {})) None [] False [s1])"
    using control_run [OF control_run [OF _ one_watch_broadcast [OF assms(1)]] one_watch_offer] by fastforce
  then have "control_reachable (one_watch (Some s1) s2 (Some (s2, {})) None [] True [s1, s2])"
    using control_run [OF control_run [OF control_run [OF _ one_watch_done] one_watch_broadcast [OF assms(2)]] one_watch_offer]
    by fastforce
  then show ?thesis using control_run [OF control_run [OF _ one_watch_done] one_watch_receive] by fastforce
qed

text \<open>
  C22: an update can be lost.  For any two snapshots a state is reachable in which the second
  one has been broadcast, nothing is on its way, and a connected data plane has only ever
  been sent the first: it stays behind until something else is broadcast.
\<close>

theorem update_can_be_lost:
  assumes "ms_version s1 \<noteq> []" and "ms_version s2 \<noteq> []"
  shows "\<exists>p w. control_reachable p \<and> pc_offers p = None \<and> hb_last (pc_hub p) = s2
    \<and> pc_watches p 0 = Some w \<and> wa_initial w = None \<and> upcoming p 0 = [] \<and> wa_sent w = [s1]"
  using lost_run [OF assms] by (intro exI conjI) (auto simp: one_watch_def upcoming_def)

theorem update_can_be_lost_witness:
  "\<exists>p w. control_reachable p \<and> pc_watches p 0 = Some w \<and> hb_last (pc_hub p) = version ''2''
    \<and> wa_sent w = [version ''1'']"
proof -
  have "ms_version (version ''1'') \<noteq> []" "ms_version (version ''2'') \<noteq> []" by (simp_all add: version_def)
  from update_can_be_lost [OF this] show ?thesis by blast
qed

lemma caught_up_run:
  assumes "ms_version s \<noteq> []"
  shows "control_reachable (one_watch None s None None [s] False [s])"
proof -
  have "control_reachable (one_watch None empty_snapshot None None [] False [])"
    by (rule control_run [OF control_run [OF control_start one_watch_connect] one_watch_initial])
  then have "control_reachable (one_watch (Some s) s (Some (s, {})) None [] False [s])"
    using control_run [OF control_run [OF _ one_watch_broadcast [OF assms]] one_watch_offer] by fastforce
  then show ?thesis using control_run [OF control_run [OF _ one_watch_done] one_watch_receive] by fastforce
qed

theorem stream_follows_history_witness:
  "\<exists>p w. control_reachable p \<and> pc_watches p 0 = Some w \<and> subseq (wa_sent w) (pc_history p)
    \<and> wa_sent w \<noteq> [] \<and> last (wa_sent w) = version ''1''"
proof -
  let ?p = "one_watch None (version ''1'') None None [version ''1''] False [version ''1'']"
  have run: "control_reachable ?p" by (rule caught_up_run) (simp add: version_def)
  have w: "pc_watches ?p 0 = Some \<lparr>wa_initial = None, wa_sent = [version ''1''], wa_dropped = False\<rparr>"
    by (simp add: one_watch_def)
  have "pc_history ?p \<noteq> []" "upcoming ?p 0 = []" "hb_last (pc_hub ?p) = version ''1''"
    by (simp_all add: one_watch_def upcoming_def)
  with stream_follows_history [OF run w] run w show ?thesis by (intro exI [of _ ?p]) auto
qed

end
