(* ===== verification/Control_Ingress.thy ===== *)
theory Control_Ingress
  imports Control_Annotations Control_Hub
begin

text \<open>
  The Ingress controller (\<open>controlplane/internal/controller\<close>): from the Ingresses, Services,
  EndpointSlices and Secrets of the cluster to a snapshot.  \<open>buildTargetFromRule\<close> collects
  the ready addresses behind a rule, \<open>buildTLSBundle\<close> its certificate, \<open>ToSnapshot\<close> routes and
  clusters, \<open>Reconcile\<close> broadcasts what has changed.  The Kubernetes API, the certificate
  parser and the hash are parameters.  The range over a Go map visits it in any order, which
  is a parameter too; the lemmas show that the snapshot does not depend on it.
\<close>

section \<open>Kubernetes objects\<close>

record service_ref =
  sr_name :: string
  sr_port_name :: string
  sr_port_number :: i32

record http_path =
  hp_path :: string
  hp_path_type :: "string pointer option"
  hp_service :: "service_ref option"

record ingress_rule =
  ir_host :: string
  ir_http :: "http_path list option"

record ingress_tls =
  it_secret_name :: string
  it_hosts :: "string list"

record ingress =
  ig_namespace :: string
  ig_annotations :: "string \<rightharpoonup> string"
  ig_tls :: "ingress_tls list"
  ig_rules :: "ingress_rule list"

record slice_port =
  sp_name :: "string option"
  sp_port :: "i32 option"
  sp_protocol :: "string option"

record slice_endpoint =
  sl_addresses :: "string list"
  sl_ready :: "bool option"

record endpoint_slice =
  es_ports :: "slice_port list"
  es_endpoints :: "slice_endpoint list"

record service_port =
  sv_port_name :: string
  sv_port_number :: i32

text \<open>The API client; \<open>None\<close> is an error.\<close>

record kube =
  k_service :: "string \<Rightarrow> string \<Rightarrow> service_port list option"
  k_slices :: "string \<Rightarrow> string \<Rightarrow> endpoint_slice list option"
  k_secret :: "string \<Rightarrow> string \<Rightarrow> (string \<rightharpoonup> string) option"
  k_ingresses :: "string \<Rightarrow> ingress list option"

text \<open>
  \<open>pem.Decode\<close>, \<open>x509.ParseCertificates\<close> (the expiry of each certificate), the hash of a
  secret, and that of a snapshot, which prints routes, clusters and certificates with the
  addresses of the pointers in them; the current time.
\<close>

record crypto =
  x_pem_decode :: "string \<Rightarrow> string option"
  x_parse :: "string \<Rightarrow> i64 list option"
  x_sha256 :: "string \<Rightarrow> string"
  x_digest :: "model_route list \<Rightarrow> model_cluster list \<Rightarrow> tls_secret list \<Rightarrow> string"

section \<open>Endpoints\<close>

fun port_protocol :: "slice_port list \<Rightarrow> i32 option \<Rightarrow> string" where
  "port_protocol [] matched = ''TCP''"
| "port_protocol (sp # ports) matched =
     (if sp_port sp = None \<or> matched = None \<or> sp_port sp \<noteq> matched then port_protocol ports matched
      else case sp_protocol sp of Some p \<Rightarrow> p | None \<Rightarrow> port_protocol ports matched)"

fun append_unique :: "string list \<Rightarrow> string list \<Rightarrow> string list" where
  "append_unique dst [] = dst"
| "append_unique dst (addr # src) =
     (if addr \<in> set dst then append_unique dst src else append_unique (dst @ [addr]) src)"

text \<open>The result is the port name; an error gives the empty name as well, and the caller ignores it.\<close>

definition resolve_service_port_name :: "kube \<Rightarrow> string \<Rightarrow> service_ref \<Rightarrow> string" where
  "resolve_service_port_name k ns be =
     (case k_service k ns (sr_name be) of
        None \<Rightarrow> []
      | Some ports \<Rightarrow>
          if sr_port_name be \<noteq> [] then sr_port_name be
          else if sr_port_number be \<noteq> 0 then
            (case find (\<lambda>p. sv_port_number p = sr_port_number be) ports of Some p \<Rightarrow> sv_port_name p | None \<Rightarrow> [])
          else [])"

fun match_slice_port_by_name :: "slice_port list \<Rightarrow> string \<Rightarrow> i32 option" where
  "match_slice_port_by_name [] port_name = None"
| "match_slice_port_by_name (sp # ports) port_name =
     (case sp_port sp of
        None \<Rightarrow> match_slice_port_by_name ports port_name
      | Some port \<Rightarrow>
          if port_name = [] then Some port
          else if sp_name sp = Some port_name then Some port
          else match_slice_port_by_name ports port_name)"

text \<open>The loop over the endpoints of a slice: those explicitly not ready are skipped.\<close>

fun collect_addresses :: "string list \<Rightarrow> slice_endpoint list \<Rightarrow> string list" where
  "collect_addresses addrs [] = addrs"
| "collect_addresses addrs (ep # eps) =
     (if sl_ready ep = Some False then collect_addresses addrs eps
      else collect_addresses (append_unique addrs (sl_addresses ep)) eps)"

text \<open>The loop over the slices: the port of the first match, its protocol, the addresses so far.\<close>

fun collect_slices ::
  "string \<Rightarrow> i32 option \<Rightarrow> string \<Rightarrow> string list \<Rightarrow> endpoint_slice list \<Rightarrow> i32 option \<times> string \<times> string list" where
  "collect_slices port_name chosen proto addrs [] = (chosen, proto, addrs)"
| "collect_slices port_name chosen proto addrs (sl # slices) =
     (case match_slice_port_by_name (es_ports sl) port_name of
        None \<Rightarrow> collect_slices port_name chosen proto addrs slices
      | Some matched \<Rightarrow>
          (let (chosen', proto') =
             (case chosen of
                None \<Rightarrow> (matched, port_protocol (es_ports sl) (Some matched))
              | Some c \<Rightarrow> (c, proto))
           in if matched \<noteq> chosen' then collect_slices port_name (Some chosen') proto' addrs slices
              else collect_slices port_name (Some chosen') proto' (collect_addresses addrs (es_endpoints sl)) slices))"

section \<open>Targets\<close>

text \<open>A Go map from paths to endpoints, as a list with one entry for each path.\<close>

record target_proxy =
  tp_host :: string
  tp_path :: "(string \<times> target_endpoint) list"
  tp_sni :: tls_secret

definition path_put :: "string \<Rightarrow> target_endpoint \<Rightarrow> (string \<times> target_endpoint) list \<Rightarrow> (string \<times> target_endpoint) list" where
  "path_put path te m = filter (\<lambda>(p, _). p \<noteq> path) m @ [(path, te)]"

text \<open>One path of a rule; \<open>sort.Strings\<close> on the addresses.\<close>

definition add_path :: "kube \<Rightarrow> string \<Rightarrow> target_endpoint \<Rightarrow> http_path
    \<Rightarrow> (string \<times> target_endpoint) list \<Rightarrow> (string \<times> target_endpoint) list" where
  "add_path k ns base p m =
     (case hp_service p of
        None \<Rightarrow> m
      | Some be \<Rightarrow>
          (case k_slices k ns (sr_name be) of
             None \<Rightarrow> m
           | Some slices \<Rightarrow>
               (case collect_slices (resolve_service_port_name k ns be) None ''TCP'' [] slices of
                  (None, _, _) \<Rightarrow> m
                | (Some port, proto, addrs) \<Rightarrow>
                    if addrs = [] then m
                    else path_put (hp_path p)
                      \<lparr>te_port = port, te_protocol = proto, te_backend_protocol = te_backend_protocol base,
                       te_addresses = sort addrs, te_path_type = hp_path_type p, te_retries = te_retries base,
                       te_timeout_ms = te_timeout_ms base, te_lb_algorithm = te_lb_algorithm base,
                       te_rewrite_headers = te_rewrite_headers base, te_auth = te_auth base\<rparr> m)))"

definition build_target_from_rule ::
  "kube \<Rightarrow> string \<Rightarrow> ingress_rule \<Rightarrow> target_endpoint \<Rightarrow> tls_secret \<Rightarrow> target_proxy" where
  "build_target_from_rule k ns rule base bundle =
     \<lparr>tp_host = ir_host rule,
      tp_path = (case ir_http rule of None \<Rightarrow> [] | Some paths \<Rightarrow> fold (add_path k ns base) paths []),
      tp_sni = bundle\<rparr>"

text \<open>One entry of \<open>spec.tls\<close>; where the source \<open>continue\<close>s the bundle so far is kept.\<close>

definition add_bundle :: "kube \<Rightarrow> crypto \<Rightarrow> string \<Rightarrow> ingress_tls \<Rightarrow> tls_secret \<Rightarrow> tls_secret" where
  "add_bundle k x ns tls bundle =
     (if it_secret_name tls = [] \<or> it_hosts tls = [] then bundle
      else case k_secret k ns (it_secret_name tls) of
        None \<Rightarrow> bundle
      | Some data \<Rightarrow>
          (let crt = (case data ''tls.crt'' of Some v \<Rightarrow> v | None \<Rightarrow> []);
               key = (case data ''tls.key'' of Some v \<Rightarrow> v | None \<Rightarrow> [])
           in if crt = [] \<or> key = [] then bundle
              else case x_pem_decode x crt of
                None \<Rightarrow> bundle
              | Some block \<Rightarrow>
                  (case x_parse x block of
                     None \<Rightarrow> bundle
                   | Some [] \<Rightarrow> bundle
                   | Some (not_after # _) \<Rightarrow>
                       \<lparr>ts_name = ns @ ''/'' @ it_secret_name tls, ts_sni = it_hosts tls, ts_cert_pem = crt,
                        ts_key_pem = key, ts_not_after = not_after, ts_version = x_sha256 x (crt @ key)\<rparr>)))"

definition build_tls_bundle :: "kube \<Rightarrow> crypto \<Rightarrow> ingress \<Rightarrow> tls_secret" where
  "build_tls_bundle k x ing = fold (add_bundle k x (ig_namespace ing)) (ig_tls ing) no_secret"

text \<open>\<open>addr\<close> gives the address at which the authorization settings of an Ingress are allocated.\<close>

definition ingress_targets ::
  "kube \<Rightarrow> crypto \<Rightarrow> (string \<Rightarrow> rewrite_headers list option) \<Rightarrow> nat \<Rightarrow> ingress \<Rightarrow> target_proxy list" where
  "ingress_targets k x unmarshal addr ing =
     (let base = parse_annotations unmarshal addr (ig_annotations ing);
          bundle = build_tls_bundle k x ing
      in filter (\<lambda>t. tp_path t \<noteq> [])
           (map (\<lambda>rule. build_target_from_rule k (ig_namespace ing) rule base bundle) (ig_rules ing)))"

definition parse_endpoints ::
  "kube \<Rightarrow> crypto \<Rightarrow> (string \<Rightarrow> rewrite_headers list option) \<Rightarrow> (nat \<Rightarrow> nat) \<Rightarrow> ingress list \<Rightarrow> target_proxy list" where
  "parse_endpoints k x unmarshal addr ings =
     concat (map (\<lambda>(i, ing). ingress_targets k x unmarshal (addr i) ing) (enumerate 0 ings))"

section \<open>The snapshot\<close>

text \<open>The route and the cluster of a path; \<open>None\<close> is the panic on a missing path type.\<close>

definition route_of :: "string \<Rightarrow> string \<times> target_endpoint \<Rightarrow> model_route option" where
  "route_of host entry =
     (case te_path_type (snd entry) of
        None \<Rightarrow> None
      | Some pt \<Rightarrow>
          Some \<lparr>mr_host = host, mr_path = fst entry, mr_path_type = pt,
                mr_cluster = cluster_name host (fst entry),
                mr_priority = route_priority (fst entry) (snd pt)\<rparr>)"

definition cluster_of :: "string \<Rightarrow> string \<times> target_endpoint \<Rightarrow> model_cluster" where
  "cluster_of host entry =
     (let te = snd entry in
      \<lparr>mc_name = cluster_name host (fst entry), mc_lb_policy = te_lb_algorithm te,
       mc_endpoints = map (\<lambda>a. \<lparr>me_address = a, me_port = te_port te, me_weight = 1, me_zone = [], me_region = []\<rparr>)
         (te_addresses te),
       mc_timeout_ms = te_timeout_ms te, mc_retries = te_retries te, mc_backend_protocol = te_backend_protocol te,
       mc_rewrite_headers = te_rewrite_headers te, mc_auth = te_auth te\<rparr>)"

text \<open>All paths with their hosts, in the order the range over each map visits them.\<close>

definition entries ::
  "((string \<times> target_endpoint) list \<Rightarrow> (string \<times> target_endpoint) list) \<Rightarrow> target_proxy list
    \<Rightarrow> (string \<times> string \<times> target_endpoint) list" where
  "entries range_map targets = concat (map (\<lambda>tp. map (Pair (tp_host tp)) (range_map (tp_path tp))) targets)"

fun sequence :: "'a option list \<Rightarrow> 'a list option" where
  "sequence [] = Some []"
| "sequence (None # xs) = None"
| "sequence (Some x # xs) = map_option (Cons x) (sequence xs)"

definition to_snapshot ::
  "sorters \<Rightarrow> ((string \<times> target_endpoint) list \<Rightarrow> (string \<times> target_endpoint) list) \<Rightarrow> crypto \<Rightarrow> i64 \<Rightarrow> string
    \<Rightarrow> target_proxy list \<Rightarrow> model_snapshot option" where
  "to_snapshot srt range_map x now ingress_class targets =
     (case sequence (map (\<lambda>(h, e). route_of h e) (entries range_map targets)) of
        None \<Rightarrow> None
      | Some routes \<Rightarrow>
          (let snap = snapshot_sort srt
             \<lparr>ms_version = [], ms_controller_id = ''argon.github.io/ingress'', ms_ingress_class_name = ingress_class,
              ms_generated_at_unix_sec = now, ms_resource_versions = Map.empty, ms_routes = routes,
              ms_clusters = map (\<lambda>(h, e). cluster_of h e) (entries range_map targets),
              ms_tls = filter (\<lambda>t. ts_name t \<noteq> []) (map tp_sni targets)\<rparr>
           in Some (snap\<lparr>ms_version := x_digest x (ms_routes snap) (ms_clusters snap) (ms_tls snap)\<rparr>)))"

section \<open>Reconciling\<close>

record reconciler =
  rc_ingress_class :: string
  rc_last_version :: string
  rc_current_snapshot :: model_snapshot

datatype reconciled = Api_Error | Panicked | Unchanged | Broadcast model_snapshot

definition reconcile ::
  "sorters \<Rightarrow> ((string \<times> target_endpoint) list \<Rightarrow> (string \<times> target_endpoint) list) \<Rightarrow> kube \<Rightarrow> crypto
    \<Rightarrow> (string \<Rightarrow> rewrite_headers list option) \<Rightarrow> (nat \<Rightarrow> nat) \<Rightarrow> i64 \<Rightarrow> reconciler \<Rightarrow> reconciled \<times> reconciler" where
  "reconcile srt range_map k x unmarshal addr now r =
     (case k_ingresses k (rc_ingress_class r) of
        None \<Rightarrow> (Api_Error, r)
      | Some ings \<Rightarrow>
          (case to_snapshot srt range_map x now (rc_ingress_class r) (parse_endpoints k x unmarshal addr ings) of
             None \<Rightarrow> (Panicked, r)
           | Some snap \<Rightarrow>
               if ms_version snap = rc_last_version r then (Unchanged, r)
               else (Broadcast snap, r\<lparr>rc_last_version := ms_version snap, rc_current_snapshot := snap\<rparr>)))"

section \<open>Which endpoints are served\<close>

lemma append_unique_spec:
  "set (append_unique dst src) = set dst \<union> set src"
  "distinct dst \<Longrightarrow> distinct (append_unique dst src)"
  by (induction src arbitrary: dst) auto

definition serving :: "slice_endpoint list \<Rightarrow> string set" where
  "serving eps = (\<Union>ep \<in> {ep \<in> set eps. sl_ready ep \<noteq> Some False}. set (sl_addresses ep))"

lemma serving_simps [simp]:
  "serving [] = {}"
  "serving (ep # eps) = (if sl_ready ep = Some False then {} else set (sl_addresses ep)) \<union> serving eps"
  by (auto simp: serving_def)

lemma collect_addresses_spec:
  "set (collect_addresses addrs eps) = set addrs \<union> serving eps"
  "distinct addrs \<Longrightarrow> distinct (collect_addresses addrs eps)"
  by (induction eps arbitrary: addrs) (auto simp: append_unique_spec)

text \<open>The addresses behind a port: those of the slices in which the port name stands for it.\<close>

definition behind :: "string \<Rightarrow> i32 \<Rightarrow> endpoint_slice list \<Rightarrow> string set" where
  "behind port_name port slices =
     (\<Union>sl \<in> {sl \<in> set slices. match_slice_port_by_name (es_ports sl) port_name = Some port}. serving (es_endpoints sl))"

lemma behind_simps [simp]:
  "behind n port [] = {}"
  "behind n port (sl # slices) =
     (if match_slice_port_by_name (es_ports sl) n = Some port then serving (es_endpoints sl) else {}) \<union> behind n port slices"
  by (auto simp: behind_def)

lemma collect_slices_chosen:
  "collect_slices n (Some c) proto addrs slices = (chosen, proto', addrs') \<Longrightarrow>
   chosen = Some c \<and> set addrs' = set addrs \<union> behind n c slices \<and> (distinct addrs \<longrightarrow> distinct addrs')"
proof (induction slices arbitrary: addrs proto)
  case (Cons sl slices)
  show ?case
  proof (cases "match_slice_port_by_name (es_ports sl) n = Some c")
    case True
    with Cons.prems Cons.IH [of proto "collect_addresses addrs (es_endpoints sl)"] show ?thesis
      by (auto simp: collect_addresses_spec)
  next
    case False
    with Cons.prems Cons.IH [of proto addrs] show ?thesis by (simp split: option.splits)
  qed
qed simp

text \<open>The port of the first slice in which the port name stands for one.\<close>

definition first_port :: "string \<Rightarrow> endpoint_slice list \<Rightarrow> i32 option" where
  "first_port port_name slices =
     (case find (\<lambda>sl. match_slice_port_by_name (es_ports sl) port_name \<noteq> None) slices of
        None \<Rightarrow> None
      | Some sl \<Rightarrow> match_slice_port_by_name (es_ports sl) port_name)"

lemma collect_slices_port:
  "collect_slices n None proto [] slices = (chosen, proto', addrs) \<Longrightarrow> chosen = first_port n slices"
proof (induction slices)
  case (Cons sl slices)
  then show ?case
    using collect_slices_chosen [of n _ _ "collect_addresses [] (es_endpoints sl)" slices chosen proto' addrs]
    by (cases "match_slice_port_by_name (es_ports sl) n") (auto simp: first_port_def)
qed (simp add: first_port_def)

lemma collect_slices_spec:
  "collect_slices n None proto [] slices = (Some c, proto', addrs) \<Longrightarrow> set addrs = behind n c slices \<and> distinct addrs"
proof (induction slices)
  case (Cons sl slices)
  show ?case
  proof (cases "match_slice_port_by_name (es_ports sl) n")
    case None
    with Cons show ?thesis by simp
  next
    case (Some m)
    then have "collect_slices n (Some m) (port_protocol (es_ports sl) (Some m))
        (collect_addresses [] (es_endpoints sl)) slices = (Some c, proto', addrs)"
      using Cons.prems by simp
    from collect_slices_chosen [OF this] Some show ?thesis by (simp add: collect_addresses_spec)
  qed
qed simp

text \<open>What \<open>add_path\<close> puts into the map.\<close>

definition path_served :: "kube \<Rightarrow> string \<Rightarrow> target_endpoint \<Rightarrow> http_path list \<Rightarrow> string \<times> target_endpoint \<Rightarrow> bool" where
  "path_served k ns base paths entry \<longleftrightarrow>
     (\<exists>p \<in> set paths. \<exists>be slices. fst entry = hp_path p \<and> te_path_type (snd entry) = hp_path_type p
        \<and> hp_service p = Some be \<and> k_slices k ns (sr_name be) = Some slices
        \<and> set (te_addresses (snd entry)) = behind (resolve_service_port_name k ns be) (te_port (snd entry)) slices
        \<and> sorted (te_addresses (snd entry)) \<and> distinct (te_addresses (snd entry)) \<and> te_addresses (snd entry) \<noteq> []
        \<and> te_retries (snd entry) = te_retries base \<and> te_timeout_ms (snd entry) = te_timeout_ms base
        \<and> te_lb_algorithm (snd entry) = te_lb_algorithm base \<and> te_auth (snd entry) = te_auth base
        \<and> te_rewrite_headers (snd entry) = te_rewrite_headers base
        \<and> te_backend_protocol (snd entry) = te_backend_protocol base)"

lemma add_path_cases:
  assumes "entry \<in> set (add_path k ns base p m)"
  shows "entry \<in> set m \<or> path_served k ns base [p] entry"
proof (cases "add_path k ns base p m = m")
  case False
  then obtain be slices port proto addrs where p: "hp_service p = Some be" "k_slices k ns (sr_name be) = Some slices"
    "collect_slices (resolve_service_port_name k ns be) None ''TCP'' [] slices = (Some port, proto, addrs)" "addrs \<noteq> []"
    by (auto simp: add_path_def split: option.splits prod.splits if_splits)
  have "sort addrs \<noteq> []" using p(4) by (metis length_0_conv length_sort)
  with collect_slices_spec [OF p(3)] p assms show ?thesis
    by (auto simp: add_path_def path_put_def path_served_def)
qed (use assms in simp)

lemma path_served_mono: "path_served k ns base ps entry \<Longrightarrow> set ps \<subseteq> set qs \<Longrightarrow> path_served k ns base qs entry"
  unfolding path_served_def by blast

lemma fold_add_path:
  "entry \<in> set (fold (add_path k ns base) paths m) \<Longrightarrow> entry \<in> set m \<or> path_served k ns base paths entry"
proof (induction paths arbitrary: m)
  case (Cons p paths)
  from Cons.IH [of "add_path k ns base p m"] Cons.prems
  have "entry \<in> set (add_path k ns base p m) \<or> path_served k ns base paths entry" by simp
  then show ?case
    using add_path_cases [of entry k ns base p m] path_served_mono [of k ns base "[p]" entry "p # paths"]
      path_served_mono [of k ns base paths entry "p # paths"] by auto
qed simp

text \<open>Which paths are put there: those with a service, a port and an address behind it.\<close>

definition reachable_path :: "kube \<Rightarrow> string \<Rightarrow> http_path \<Rightarrow> bool" where
  "reachable_path k ns p \<longleftrightarrow>
     (case hp_service p of
        None \<Rightarrow> False
      | Some be \<Rightarrow>
          (case k_slices k ns (sr_name be) of
             None \<Rightarrow> False
           | Some slices \<Rightarrow>
               (case first_port (resolve_service_port_name k ns be) slices of
                  None \<Rightarrow> False
                | Some port \<Rightarrow> behind (resolve_service_port_name k ns be) port slices \<noteq> {})))"

lemma add_path_unreachable:
  assumes "\<not> reachable_path k ns p"
  shows "add_path k ns base p m = m"
proof (cases "hp_service p")
  case (Some be)
  show ?thesis
  proof (cases "k_slices k ns (sr_name be)")
    case (Some slices)
    obtain chosen proto addrs
      where c: "collect_slices (resolve_service_port_name k ns be) None ''TCP'' [] slices = (chosen, proto, addrs)"
      using prod_cases3 by blast
    note chosen = collect_slices_port [OF c]
    show ?thesis
    proof (cases chosen)
      case (Some port)
      with chosen have "first_port (resolve_service_port_name k ns be) slices = Some port" by simp
      with assms \<open>hp_service p = Some be\<close> \<open>k_slices k ns (sr_name be) = Some slices\<close>
      have "behind (resolve_service_port_name k ns be) port slices = {}"
        by (simp add: reachable_path_def)
      with collect_slices_spec [OF c [unfolded Some]] have "addrs = []" by simp
      with c \<open>hp_service p = Some be\<close> \<open>k_slices k ns (sr_name be) = Some slices\<close> Some show ?thesis
        by (simp add: add_path_def)
    qed (use c Some \<open>hp_service p = Some be\<close> in \<open>simp add: add_path_def\<close>)
  qed (simp add: add_path_def Some)
qed (simp add: add_path_def)

lemma add_path_reachable:
  assumes "reachable_path k ns p"
  obtains te where "add_path k ns base p m = path_put (hp_path p) te m"
proof -
  from assms obtain be slices port where p: "hp_service p = Some be" "k_slices k ns (sr_name be) = Some slices"
    "first_port (resolve_service_port_name k ns be) slices = Some port"
    "behind (resolve_service_port_name k ns be) port slices \<noteq> {}"
    by (auto simp: reachable_path_def split: option.splits)
  obtain chosen proto addrs
    where c: "collect_slices (resolve_service_port_name k ns be) None ''TCP'' [] slices = (chosen, proto, addrs)"
    using prod_cases3 by blast
  with collect_slices_port [OF c] p(3) have c': "chosen = Some port" by simp
  with collect_slices_spec c p(4) have "addrs \<noteq> []" by fastforce
  with that p(1,2) c c' show thesis by (simp add: add_path_def)
qed

lemma fst_path_put: "fst ` set (path_put path te m) = insert path (fst ` set m)"
  by (force simp: path_put_def)

lemma fold_add_path_keys:
  "fst ` set (fold (add_path k ns base) paths m) = fst ` set m \<union> hp_path ` {p \<in> set paths. reachable_path k ns p}"
proof (induction paths arbitrary: m)
  case (Cons p paths)
  have "fst ` set (add_path k ns base p m) = fst ` set m \<union> (if reachable_path k ns p then {hp_path p} else {})"
  proof (cases "reachable_path k ns p")
    case True
    then obtain te where "add_path k ns base p m = path_put (hp_path p) te m" by (rule add_path_reachable)
    with True show ?thesis by (simp add: fst_path_put)
  qed (simp add: add_path_unreachable)
  then show ?case by (auto simp: Cons.IH)
qed simp

lemma path_put_distinct: "distinct (map fst m) \<Longrightarrow> distinct (map fst (path_put path te m))"
  by (auto simp: path_put_def distinct_map_filter split_def)

lemma add_path_distinct: "distinct (map fst m) \<Longrightarrow> distinct (map fst (add_path k ns base p m))"
  by (auto simp: add_path_def path_put_distinct split: option.splits prod.splits)

lemma fold_add_path_distinct: "distinct (map fst m) \<Longrightarrow> distinct (map fst (fold (add_path k ns base) paths m))"
  by (induction paths arbitrary: m) (simp_all add: add_path_distinct)

text \<open>
  C23: a path is served by exactly its ready endpoints.  Every path of a target comes from a
  path of the rule, keeps its type and the settings of the Ingress, and has as addresses,
  sorted and without repetition, exactly those of the endpoints not marked unready in the
  slices of its service where the resolved port name stands for its port.  No path occurs
  twice, and those that occur are the paths of the rule with at least one such address.
\<close>

theorem target_serves_ready:
  "set (tp_path (build_target_from_rule k ns rule base bundle))
      \<subseteq> Collect (path_served k ns base (case ir_http rule of None \<Rightarrow> [] | Some paths \<Rightarrow> paths))
   \<and> distinct (map fst (tp_path (build_target_from_rule k ns rule base bundle)))
   \<and> fst ` set (tp_path (build_target_from_rule k ns rule base bundle))
      = hp_path ` {p \<in> set (case ir_http rule of None \<Rightarrow> [] | Some paths \<Rightarrow> paths). reachable_path k ns p}"
  using fold_add_path [of _ k ns base _ "[]"] fold_add_path_distinct [of "[]" k ns base]
    fold_add_path_keys [of k ns base _ "[]"]
  by (auto simp: build_target_from_rule_def split: option.splits)

section \<open>The snapshot does not depend on the order of a range\<close>

lemma sequence_Some: "sequence xs = Some ys \<longleftrightarrow> None \<notin> set xs \<and> ys = map the xs"
proof (induction xs arbitrary: ys)
  case (Cons x xs)
  then show ?case by (cases x) auto
qed auto

lemma sequence_map: "sequence xs = Some ys \<Longrightarrow> map Some ys = xs"
  by (induction xs arbitrary: ys rule: sequence.induct) auto

lemma sequence_None: "sequence xs = None \<longleftrightarrow> None \<in> set xs"
  using sequence_Some [of xs "map the xs"] by (cases "sequence xs") (auto simp: sequence_Some)

lemma mset_entries:
  assumes "\<And>m. mset (range_map m) = mset m"
  shows "mset (entries range_map targets) = mset (entries id targets)"
  by (induction targets) (simp_all add: entries_def assms)

lemma route_of_built: "route_of h e = Some r \<Longrightarrow> built_route r \<and> mr_host r = h \<and> mr_path r = fst e"
  by (auto simp: route_of_def built_route_def split: option.splits)

lemma cluster_name_inject:
  assumes "CHR ''|'' \<notin> set h" "CHR ''|'' \<notin> set h'" "cluster_name h p = cluster_name h' p'"
  shows "h = h' \<and> p = p'"
proof -
  have "takeWhile (\<lambda>c. c \<noteq> CHR ''|'') (cluster_name g q) = g" if "CHR ''|'' \<notin> set g" for g q
    unfolding cluster_name_def using that by (induction g) auto
  from this [OF assms(1)] this [OF assms(2)] assms(3) have "h = h'" by metis
  with assms(3) show ?thesis by (simp add: cluster_name_def)
qed

text \<open>The pairs of host and path of all entries.\<close>

abbreviation "hosts_paths targets \<equiv> map (\<lambda>(h, e). (h, fst e)) (entries id targets)"

lemma routes_of_entries:
  assumes "sequence (map (\<lambda>(h, e). route_of h e) es) = Some routes"
  shows "map (\<lambda>r. (mr_host r, mr_path r)) routes = map (\<lambda>(h, e). (h, fst e)) es"
    and "\<forall>r \<in> set routes. built_route r"
proof -
  have some: "built_route (the (route_of h e)) \<and> mr_host (the (route_of h e)) = h \<and> mr_path (the (route_of h e)) = fst e"
    if "(h, e) \<in> set es" for h e
  proof -
    have "route_of h e \<noteq> None" using assms that by (force simp: sequence_Some)
    then show ?thesis using route_of_built by fastforce
  qed
  have routes: "routes = map (\<lambda>(h, e). the (route_of h e)) es" using assms by (auto simp: sequence_Some split_def)
  show "map (\<lambda>r. (mr_host r, mr_path r)) routes = map (\<lambda>(h, e). (h, fst e)) es"
    unfolding routes by (simp add: split_def some)
  show "\<forall>r \<in> set routes. built_route r"
    unfolding routes by (auto simp: some)
qed

lemma routes_determined:
  assumes sort: "slice_sort srt" and m: "mset es = mset es'" and d: "distinct (map (\<lambda>(h, e). (h, fst e)) es)"
    and r: "sequence (map (\<lambda>(h, e). route_of h e) es) = Some routes"
    and r': "sequence (map (\<lambda>(h, e). route_of h e) es') = Some routes'"
  shows "srt route_less routes = srt route_less routes'"
proof (rule slice_sort.sort_determined [OF sort])
  show "mset routes = mset routes'"
    using r r' m by (simp add: sequence_Some)
  have "distinct (map (\<lambda>r. (mr_host r, mr_path r)) routes)"
    using routes_of_entries(1) [OF r] d by simp
  then show "distinct (map order_key routes)"
    by (simp add: distinct_map inj_on_def order_key_def)
qed (use routes_of_entries(2) [OF r] in \<open>simp add: route_less_key\<close>)

lemma clusters_determined:
  assumes sort: "slice_sort srt" and m: "mset es = mset es'" and d: "distinct (map (\<lambda>(h, e). (h, fst e)) es)"
    and bar: "\<forall>(h, e) \<in> set es. CHR ''|'' \<notin> set h"
  shows "srt cluster_less (map (\<lambda>(h, e). cluster_of h e) es) = srt cluster_less (map (\<lambda>(h, e). cluster_of h e) es')"
proof (rule slice_sort.sort_determined [OF sort])
  show "mset (map (\<lambda>(h, e). cluster_of h e) es) = mset (map (\<lambda>(h, e). cluster_of h e) es')"
    using m by simp
  have "map mc_name (map (\<lambda>(h, e). cluster_of h e) es)
      = map (\<lambda>(h, p). cluster_name h p) (map (\<lambda>(h, e). (h, fst e)) es)"
    by (simp add: cluster_of_def Let_def split_def)
  moreover have "inj_on (\<lambda>(h, p). cluster_name h p) (set (map (\<lambda>(h, e). (h, fst e)) es))"
    using bar by (auto intro!: inj_onI dest: cluster_name_inject [rotated 2])
  ultimately show "distinct (map mc_name (map (\<lambda>(h, e). cluster_of h e) es))"
    using d by (simp add: distinct_map del: map_map)
qed (simp add: cluster_less_def)

text \<open>
  C27: the snapshot is determined by the targets.  If \<open>sort.Slice\<close> sorts, no two targets
  share a host and a path, and no host contains a bar, then the order in which the ranges
  over the maps visit the paths makes no difference: the snapshots are equal, with their
  versions, and so is the case that building one panics.
\<close>

theorem snapshot_determined:
  assumes "slice_sort (sort_routes srt)" and "slice_sort (sort_clusters srt)"
    and "\<And>m. mset (range_map m) = mset m"
    and "distinct (hosts_paths targets)" and "\<forall>tp \<in> set targets. CHR ''|'' \<notin> set (tp_host tp)"
  shows "to_snapshot srt range_map x now cls targets = to_snapshot srt id x now cls targets"
proof -
  let ?route = "\<lambda>(h, e). route_of h e"
  have m: "mset (entries id targets) = mset (entries range_map targets)"
    using mset_entries [OF assms(3)] by simp
  have "\<forall>(h, e) \<in> set (entries id targets). CHR ''|'' \<notin> set h" using assms(5) by (auto simp: entries_def)
  note clusters = clusters_determined [OF assms(2) m assms(4) this]
  show ?thesis
  proof (cases "sequence (map ?route (entries id targets))")
    case None
    then have "sequence (map ?route (entries range_map targets)) = None"
      using mset_eq_setD [OF m] by (simp add: sequence_None)
    with None show ?thesis by (simp add: to_snapshot_def)
  next
    case (Some routes)
    then have "sequence (map ?route (entries range_map targets)) \<noteq> None"
      using mset_eq_setD [OF m] by (metis option.distinct(1) sequence_None set_map)
    then obtain routes' where r': "sequence (map ?route (entries range_map targets)) = Some routes'" by blast
    from routes_determined [OF assms(1) m assms(4) Some r'] clusters Some r' show ?thesis
      by (simp add: to_snapshot_def snapshot_sort_def Let_def)
  qed
qed

text \<open>Two paths of one host and a constant digest, for closed instances.\<close>

definition demo_target :: target_proxy where
  "demo_target =
     (let te = (parse_annotations Map.empty 0 Map.empty)
            \<lparr>te_port := 8080, te_addresses := [''10.0.0.1''], te_path_type := Some (0, ''Prefix'')\<rparr>
      in \<lparr>tp_host = ''demo.local'', tp_path = [(''/'', te), (''/api'', te\<lparr>te_path_type := Some (1, ''Exact'')\<rparr>)],
          tp_sni = no_secret\<rparr>)"

definition demo_crypto :: crypto where
  "demo_crypto = \<lparr>x_pem_decode = Some, x_parse = (\<lambda>_. None), x_sha256 = id, x_digest = (\<lambda>_ _ _. ''v1'')\<rparr>"

lemma slice_sort_go: "slice_sort (sort_routes go_sorters)" "slice_sort (sort_clusters go_sorters)"
  by (simp_all add: go_sorters_def isort.slice_sort_axioms)

lemma demo_hosts_paths: "hosts_paths [demo_target] = [(''demo.local'', ''/''), (''demo.local'', ''/api'')]"
  by (simp add: entries_def demo_target_def Let_def)

theorem snapshot_determined_witness:
  "to_snapshot go_sorters rev demo_crypto 0 ''argon'' [demo_target] = to_snapshot go_sorters id demo_crypto 0 ''argon'' [demo_target]"
  by (rule snapshot_determined [OF slice_sort_go]) (simp_all add: demo_hosts_paths, simp add: demo_target_def Let_def)

section \<open>Reconciling again\<close>

text \<open>
  Reconciling is idempotent on unchanged objects.  If the API answers as before, with
  the same objects at the same addresses, a second reconciliation, at any later time,
  broadcasts nothing and changes nothing, whatever the first one did.
\<close>

theorem reconcile_idempotent:
  "case reconcile srt range_map k x unmarshal addr now r of
     (Broadcast snap, r') \<Rightarrow> reconcile srt range_map k x unmarshal addr later r' = (Unchanged, r')
        \<and> rc_current_snapshot r' = snap
   | (_, r') \<Rightarrow> r' = r"
  by (auto simp: reconcile_def to_snapshot_def snapshot_sort_def Let_def split: option.splits)

text \<open>
  The version depends on where objects are stored.  The digest prints the pointers to the
  path types: with a digest that tells its inputs apart, the same paths read again at other
  addresses give another version, so the next reconciliation broadcasts again although
  nothing has changed.
\<close>

theorem version_follows_addresses:
  assumes "\<And>r c t r' c' t'. x_digest x r c t = x_digest x r' c' t' \<Longrightarrow> r = r'"
    and "slice_sort (sort_routes srt)"
    and "to_snapshot srt range_map x now cls [\<lparr>tp_host = h, tp_path = [(p, te\<lparr>te_path_type := Some (a, t)\<rparr>)], tp_sni = b\<rparr>] = Some s"
    and "to_snapshot srt range_map x now cls [\<lparr>tp_host = h, tp_path = [(p, te\<lparr>te_path_type := Some (a', t)\<rparr>)], tp_sni = b\<rparr>] = Some s'"
    and "\<And>m. mset (range_map m) = mset m" and "a \<noteq> a'"
  shows "ms_version s \<noteq> ms_version s'"
proof
  assume eq: "ms_version s = ms_version s'"
  have single: "range_map [e] = [e]" for e using assms(5) [of "[e]"] by simp
  have sorted: "sort_routes srt lt [r] = [r]" for lt r using slice_sort.sort_mset [OF assms(2), of lt "[r]"] by simp
  have "ms_version s = x_digest x (ms_routes s) (ms_clusters s) (ms_tls s)"
    "ms_version s' = x_digest x (ms_routes s') (ms_clusters s') (ms_tls s')"
    using assms(3,4) by (auto simp: to_snapshot_def Let_def split: option.splits)
  with eq assms(1) have "ms_routes s = ms_routes s'" by metis
  moreover have "map (fst \<circ> mr_path_type) (ms_routes s) = [a]" "map (fst \<circ> mr_path_type) (ms_routes s') = [a']"
    using assms(3,4)
    by (auto simp: to_snapshot_def snapshot_sort_def Let_def entries_def single route_of_def sorted)
  ultimately show False using assms(6) by simp
qed

end
