(* ===== verification/End_To_End.thy ===== *)
theory End_To_End
  imports Control_Ingress Client_Pool
begin

text \<open>
  From the Ingresses to the handler: the snapshot built by the control plane, translated
  into messages, installed as a table by the data plane and used to route a request.  The
  specification is \<open>ingress_choice\<close>, the precedence of Kubernetes Ingress paths, stated on
  the declared paths alone: an exact path first, then the longest prefix, of the host or
  else of the rules without a host.
\<close>

section \<open>The precedence of declared paths\<close>

text \<open>The paths declared for a host, with their types.\<close>

definition declared :: "target_proxy list \<Rightarrow> string \<Rightarrow> (string \<times> string) list" where
  "declared targets host =
     map (\<lambda>(_, p, te). (p, snd (the (te_path_type te))))
       (filter (\<lambda>(h, _, te). h = host \<and> te_path_type te \<noteq> None) (entries id targets))"

definition path_choice :: "(string \<times> string) list \<Rightarrow> string \<Rightarrow> (string \<times> path_type) option" where
  "path_choice ps path =
     (if (path, ''Exact'') \<in> set ps then Some (path, Exact)
      else case filter (\<lambda>(p, t). t = ''Prefix'' \<and> starts_with path p) ps of
        [] \<Rightarrow> None
      | q # qs \<Rightarrow> Some (take (fold max (map (length \<circ> fst) qs) (length (fst q))) path, Prefix))"

definition ingress_choice :: "target_proxy list \<Rightarrow> string \<Rightarrow> string \<Rightarrow> (string \<times> path_type \<times> string) option" where
  "ingress_choice targets host path =
     (case path_choice (declared targets host) path of
        Some (p, t) \<Rightarrow> Some (p, t, cluster_name host p)
      | None \<Rightarrow>
          (case path_choice (declared targets []) path of
             Some (p, t) \<Rightarrow> Some (p, t, cluster_name [] p)
           | None \<Rightarrow> None))"

lemma fold_max: "fold max (xs :: nat list) a = Max (insert a (set xs))"
  using Max.set_eq_fold [of a xs] by simp

lemma path_choice_Exact: "(path, ''Exact'') \<in> set ps \<Longrightarrow> path_choice ps path = Some (path, Exact)"
  by (simp add: path_choice_def)

lemma path_choice_None:
  "path_choice ps path = None \<longleftrightarrow> (path, ''Exact'') \<notin> set ps \<and> (\<forall>p. (p, ''Prefix'') \<in> set ps \<longrightarrow> \<not> starts_with path p)"
proof -
  have "path_choice ps path = None \<longleftrightarrow>
      (path, ''Exact'') \<notin> set ps \<and> filter (\<lambda>(p, t). t = ''Prefix'' \<and> starts_with path p) ps = []"
    by (simp add: path_choice_def split: list.split)
  then show ?thesis by (auto simp: filter_empty_conv)
qed

lemma path_choice_Prefix:
  assumes "(path, ''Exact'') \<notin> set ps" and "(p, ''Prefix'') \<in> set ps" and "starts_with path p"
    and "\<And>q. (q, ''Prefix'') \<in> set ps \<Longrightarrow> starts_with path q \<Longrightarrow> length q \<le> length p"
  shows "path_choice ps path = Some (p, Prefix)"
proof (cases "filter (\<lambda>(p, t). t = ''Prefix'' \<and> starts_with path p) ps")
  case Nil
  with assms(2,3) show ?thesis by (fastforce simp: filter_empty_conv)
next
  case (Cons q qs)
  let ?L = "insert (length (fst q)) (set (map (length \<circ> fst) qs))"
  have L: "?L = (length \<circ> fst) ` set (filter (\<lambda>(p, t). t = ''Prefix'' \<and> starts_with path p) ps)"
    by (simp add: Cons)
  have "Max ?L = length p"
    unfolding L using assms(2-4) by (intro Max_eqI) (force simp: image_iff)+
  moreover have "take (length p) path = p" using assms(3) by (auto elim: prefixE)
  ultimately show ?thesis using assms(1) Cons by (simp add: path_choice_def fold_max)
qed

section \<open>The rules of a host\<close>

text \<open>What the API server admits: lower-case hosts; and paths shorter than the step between two ranks.\<close>

definition admitted :: "target_proxy list \<Rightarrow> bool" where
  "admitted targets \<longleftrightarrow>
     (\<forall>tp \<in> set targets. to_ascii_lowercase (tp_host tp) = tp_host tp
        \<and> (\<forall>(p, _) \<in> set (tp_path tp). length p < 1000000))"

lemma sint_priority:
  assumes "length p < 1000000"
  shows "sint (word_of_int (route_priority p t) :: i32) = route_priority p t"
proof -
  have "0 \<le> route_priority p t" "route_priority p t < 4000000"
    using assms by (auto simp: route_priority_def path_type_rank_def)
  then show ?thesis by (subst signed_of_int) (simp add: signed_take_bit_int_eq_self)
qed

definition type_name :: "path_type \<Rightarrow> string" where
  "type_name t = (case t of Exact \<Rightarrow> ''Exact'' | Prefix \<Rightarrow> ''Prefix'')"

lemma type_name_simps [simp]: "type_name Exact = ''Exact''" "type_name Prefix = ''Prefix''"
  by (simp_all add: type_name_def)

lemma path_type_parse_name: "path_type_parse s = Some t \<longleftrightarrow> s = type_name t"
  by (cases t) (auto simp: path_type_parse_def)

definition sent_rule :: "string \<Rightarrow> string \<Rightarrow> path_type \<Rightarrow> route_rule" where
  "sent_rule host p t =
     \<lparr>rr_path = p, rr_path_type = t, rr_cluster = cluster_name host p,
      rr_priority = word_of_int (route_priority p (type_name t))\<rparr>"

lemma declared_iff:
  "(p, t) \<in> set (declared targets host) \<longleftrightarrow>
   (\<exists>te a. (host, p, te) \<in> set (entries id targets) \<and> te_path_type te = Some (a, t))"
  by (force simp: declared_def)

lemma entries_admitted:
  assumes "admitted targets" and "(h, p, te) \<in> set (entries id targets)"
  shows "to_ascii_lowercase h = h" "length p < 1000000"
proof -
  from assms(2) obtain tp where "tp \<in> set targets" "h = tp_host tp" "(p, te) \<in> set (tp_path tp)"
    by (auto simp: entries_def)
  with assms(1) show "to_ascii_lowercase h = h" "length p < 1000000" by (auto simp: admitted_def)
qed

lemma declared_admitted:
  "admitted targets \<Longrightarrow> (p, t) \<in> set (declared targets host) \<Longrightarrow> length p < 1000000"
  by (auto simp: declared_iff dest: entries_admitted)

lemma snapshot_routes:
  assumes "slice_sort (sort_routes srt)" and "\<And>m. mset (range_map m) = mset m"
    and "to_snapshot srt range_map x now cls targets = Some snap"
  shows "Some ` set (ms_routes snap) = (\<lambda>(h, e). route_of h e) ` set (entries id targets)"
proof -
  from assms(3) obtain routes where r: "sequence (map (\<lambda>(h, e). route_of h e) (entries range_map targets)) = Some routes"
    "ms_routes snap = sort_routes srt route_less routes"
    by (auto simp: to_snapshot_def snapshot_sort_def Let_def split: option.splits)
  have "set (ms_routes snap) = set routes" using slice_sort.sort_set [OF assms(1)] r(2) by simp
  moreover have "map Some routes = map (\<lambda>(h, e). route_of h e) (entries range_map targets)"
    by (rule sequence_map [OF r(1)])
  then have "Some ` set routes = (\<lambda>(h, e). route_of h e) ` set (entries range_map targets)"
    by (metis set_map)
  ultimately show ?thesis using mset_eq_setD [OF mset_entries [OF assms(2)]] by simp
qed

lemma sent_host_rules:
  assumes sort: "slice_sort (sort_routes srt)" and range: "\<And>m. mset (range_map m) = mset m"
    and snap: "to_snapshot srt range_map x now cls targets = Some snap" and adm: "admitted targets"
  shows "r \<in> set (host_rules (sn_routes (to_pb_snapshot snap)) host) \<longleftrightarrow>
    (\<exists>p t. (p, type_name t) \<in> set (declared targets host) \<and> r = sent_rule host p t)"
    (is "?l \<longleftrightarrow> ?r")
proof
  note routes = snapshot_routes [OF sort range snap]
  {
    assume ?l
    then obtain m t where m: "m \<in> set (ms_routes snap)" "snd (mr_path_type m) = type_name t"
      "to_ascii_lowercase (mr_host m) = host" "r = rule_of_route (to_pb_route m) t"
      by (auto simp: host_rules_origin to_pb_snapshot_def to_pb_route_def path_type_parse_name)
    from m(1) have "Some m \<in> (\<lambda>(h, e). route_of h e) ` set (entries id targets)"
      unfolding routes [symmetric] by (rule imageI)
    then obtain h p te where e: "(h, p, te) \<in> set (entries id targets)" "route_of h (p, te) = Some m" by force
    then obtain a where a: "te_path_type te = Some (a, type_name t)" "mr_host m = h" "mr_path m = p"
      "mr_cluster m = cluster_name h p" "mr_priority m = route_priority p (type_name t)"
      using m(2) by (auto simp: route_of_def split: option.splits)
    with entries_admitted [OF adm e(1)] m(3) have "h = host" by simp
    with a e(1) m(2,4) show ?r by (auto simp: declared_iff sent_rule_def rule_of_route_def to_pb_route_def)
  next
    assume ?r
    then obtain p t te a where e: "(host, p, te) \<in> set (entries id targets)" "te_path_type te = Some (a, type_name t)"
      "r = sent_rule host p t" by (auto simp: declared_iff)
    then obtain m where m: "route_of host (p, te) = Some m" by (simp add: route_of_def)
    then have "Some m \<in> (\<lambda>(h, e). route_of h e) ` set (entries id targets)" using e(1) by force
    then have "m \<in> set (ms_routes snap)" unfolding routes [symmetric] by auto
    moreover have "rt_path_type (to_pb_route m) = type_name t" "rt_host (to_pb_route m) = host"
      "r = rule_of_route (to_pb_route m) t"
      using m e(2,3) by (auto simp: route_of_def to_pb_route_def rule_of_route_def sent_rule_def)
    ultimately show ?l
      using entries_admitted(1) [OF adm e(1)]
      by (auto simp: host_rules_origin to_pb_snapshot_def path_type_parse_name)
  }
qed

lemma sent_rule_preferred:
  assumes "length p < 1000000" "length q < 1000000"
  shows "preferred (sent_rule host p t) (sent_rule host q u) \<longleftrightarrow>
    t = Exact \<and> u = Prefix \<or> t = u \<and> length q < length p"
proof -
  have "preferred a b \<longleftrightarrow> sint (rr_priority b) < sint (rr_priority a) \<or> sint (rr_priority a) = sint (rr_priority b)
      \<and> (length (rr_path b) < length (rr_path a)
         \<or> length (rr_path a) = length (rr_path b) \<and> rr_path_type a = Exact \<and> rr_path_type b = Prefix)" for a b
    by (simp add: preferred_def sint_inject)
  then show ?thesis using assms
    by (cases t; cases u) (auto simp: sent_rule_def sint_priority, auto simp: route_priority_def path_type_rank_def)
qed

lemma best_in_host_choice:
  assumes rules: "\<And>r. r \<in> set (host_rules routes host) \<longleftrightarrow>
      (\<exists>p t. (p, type_name t) \<in> set ps \<and> r = sent_rule host p t)"
    and short: "\<And>p t. (p, t) \<in> set ps \<Longrightarrow> length p < 1000000"
  shows "map_option (\<lambda>r. (rr_path r, rr_path_type r, rr_cluster r)) (best_in_host routes host path)
    = map_option (\<lambda>(p, t). (p, t, cluster_name host p)) (path_choice ps path)"
proof (cases "best_in_host routes host path")
  case None
  then have no: "\<not> rule_matches path (sent_rule host p t)" if "(p, type_name t) \<in> set ps" for p t
    using rules that by (auto simp: best_in_host_None)
  from no [of _ Exact] no [of _ Prefix] have "path_choice ps path = None"
    by (auto simp: path_choice_None rule_matches_def sent_rule_def)
  with None show ?thesis by simp
next
  case (Some r)
  note best = best_in_host_SomeD [OF Some]
  obtain p t where r: "(p, type_name t) \<in> set ps" "r = sent_rule host p t" using best(1) rules by blast
  have above: "\<not> (u = Exact \<and> t = Prefix \<or> u = t \<and> length p < length q)"
    if "(q, type_name u) \<in> set ps" "rule_matches path (sent_rule host q u)" for q u
  proof -
    have "sent_rule host q u \<in> set (host_rules routes host)" using that(1) rules by blast
    from best(3) [OF this that(2)] show ?thesis
      unfolding r(2) using sent_rule_preferred [OF short [OF that(1)] short [OF r(1)], of host u t] by blast
  qed
  have "path_choice ps path = Some (p, t)"
  proof (cases t)
    case Exact
    then show ?thesis using best(2) r by (simp add: rule_matches_def sent_rule_def path_choice_Exact)
  next
    case Prefix
    then have "(path, ''Exact'') \<notin> set ps"
      using above [of path Exact] by (auto simp: rule_matches_def sent_rule_def)
    moreover have "starts_with path p" using best(2) r Prefix by (simp add: rule_matches_def sent_rule_def)
    moreover have "length q \<le> length p" if "(q, ''Prefix'') \<in> set ps" "starts_with path q" for q
      using above [of q Prefix] that Prefix by (simp add: rule_matches_def sent_rule_def)
    ultimately show ?thesis using path_choice_Prefix [of path ps p] r(1) Prefix by simp
  qed
  with Some r show ?thesis by (simp add: sent_rule_def)
qed

lemma choose_route_ingress:
  assumes "slice_sort (sort_routes srt)" and "\<And>m. mset (range_map m) = mset m"
    and "to_snapshot srt range_map x now cls targets = Some snap" and "admitted targets"
  shows "map_option (\<lambda>r. (rr_path r, rr_path_type r, rr_cluster r))
      (choose_route (fst (route_table_new dm from_bytes (to_pb_snapshot snap) s)) host path)
    = ingress_choice targets host path"
proof -
  have choice: "map_option (\<lambda>r. (rr_path r, rr_path_type r, rr_cluster r))
        (best_in_host (sn_routes (to_pb_snapshot snap)) h path)
      = map_option (\<lambda>(p, t). (p, t, cluster_name h p)) (path_choice (declared targets h) path)" for h
    using sent_host_rules [OF assms] declared_admitted [OF assms(4)] by (rule best_in_host_choice)
  have "ingress_choice targets host path =
      (case map_option (\<lambda>(p, t). (p, t, cluster_name host p)) (path_choice (declared targets host) path) of
         Some c \<Rightarrow> Some c
       | None \<Rightarrow> map_option (\<lambda>(p, t). (p, t, cluster_name [] p)) (path_choice (declared targets []) path))"
    by (auto simp: ingress_choice_def split: option.split)
  then show ?thesis
    unfolding choice [symmetric] choose_route_best_route best_route_def by (simp split: option.split)
qed

text \<open>
  C2: routing implements the precedence of Ingress paths, end to end.  For the snapshot
  that the control plane builds from any targets with lower-case hosts and paths under a
  million bytes, sends and the data plane installs, \<open>choose_route\<close> picks, for every host and
  path, the declared exact path, or else the longest declared prefix, of that host, or else
  of the rules without a host, and the cluster named after that host and path.  The order
  of the map ranges and of equal elements in \<open>sort.Slice\<close> makes no difference.
\<close>

theorem routing_follows_ingress:
  assumes "slice_sort (sort_routes srt)" and "\<And>m. mset (range_map m) = mset m"
    and "to_snapshot srt range_map x now cls targets = Some snap" and "admitted targets"
  shows "map_option (\<lambda>r. (rr_path r, rr_path_type r, rr_cluster r))
      (choose_route (fst (route_table_new dm from_bytes (to_pb_snapshot snap) s)) host path)
    = ingress_choice targets host path"
  using assms by (rule choose_route_ingress)

section \<open>The clusters behind the paths\<close>

text \<open>What the paths of parsed Ingresses have: addresses, one to ten attempts, a known policy.\<close>

lemma parsed_entry:
  assumes "(h, p, te) \<in> set (entries id (parse_endpoints k x unmarshal addr ings))"
  shows "te_addresses te \<noteq> []" "sint (te_retries te) \<in> {1..10}" "lb_policy_parse (te_lb_algorithm te) \<noteq> None"
proof -
  from assms obtain ns rule a annotations tls where
    "(p, te) \<in> set (tp_path (build_target_from_rule k ns rule (parse_annotations unmarshal a annotations) tls))"
    by (auto simp: entries_def parse_endpoints_def ingress_targets_def Let_def)
  then obtain paths where "path_served k ns (parse_annotations unmarshal a annotations) paths (p, te)"
    using fold_add_path [of "(p, te)" k ns "parse_annotations unmarshal a annotations" _ "[]"]
    by (auto simp: build_target_from_rule_def split: option.splits)
  then have "te_addresses te \<noteq> []" "te_retries te = te_retries (parse_annotations unmarshal a annotations)"
    "te_lb_algorithm te = te_lb_algorithm (parse_annotations unmarshal a annotations)"
    by (auto simp: path_served_def)
  then show "te_addresses te \<noteq> []" "sint (te_retries te) \<in> {1..10}" "lb_policy_parse (te_lb_algorithm te) \<noteq> None"
    using parse_annotations_retries parse_annotations_lb by metis+
qed

lemma snapshot_clusters:
  assumes "slice_sort (sort_clusters srt)" and "\<And>m. mset (range_map m) = mset m"
    and "to_snapshot srt range_map x now cls targets = Some snap"
  shows "set (sn_clusters (to_pb_snapshot snap)) = (\<lambda>(h, e). to_pb_cluster (cluster_of h e)) ` set (entries id targets)"
proof -
  from assms(3) have "ms_clusters snap = sort_clusters srt cluster_less (map (\<lambda>(h, e). cluster_of h e) (entries range_map targets))"
    by (auto simp: to_snapshot_def snapshot_sort_def Let_def split: option.splits)
  then have "set (ms_clusters snap) = (\<lambda>(h, e). cluster_of h e) ` set (entries id targets)"
    using slice_sort.sort_set [OF assms(1)] mset_eq_setD [OF mset_entries [OF assms(2)]] by simp
  then show ?thesis by (simp add: to_pb_snapshot_def image_image split_def)
qed

lemma lowercase_cluster_name:
  "to_ascii_lowercase (cluster_name h p) = cluster_name (to_ascii_lowercase h) (to_ascii_lowercase p)"
  by (simp add: cluster_name_def to_ascii_lowercase_def ascii_lower_def)

text \<open>A choice comes from a declared path of the host or of no host.\<close>

lemma path_choice_SomeD:
  assumes "path_choice ps path = Some (p, t)"
  shows "(p, type_name t) \<in> set ps"
proof (cases "(path, ''Exact'') \<in> set ps")
  case True
  with assms show ?thesis by (auto simp: path_choice_def)
next
  case False
  let ?m = "filter (\<lambda>(p, t). t = ''Prefix'' \<and> starts_with path p) ps"
  have "?m \<noteq> []" using assms False by (auto simp: path_choice_def)
  then have "length ` fst ` set ?m \<noteq> {}" by (simp only: image_is_empty set_empty not_False_eq_True)
  then have "Max (length ` fst ` set ?m) \<in> length ` fst ` set ?m" by (intro Max_in finite_imageI finite_set)
  then obtain q where q: "(q, ''Prefix'') \<in> set ps" "starts_with path q" "length q = Max (length ` fst ` set ?m)" by auto
  have "length r \<le> length q" if "(r, ''Prefix'') \<in> set ps" "starts_with path r" for r
    unfolding q(3) using that by (intro Max_ge) force+
  from path_choice_Prefix [OF False q(1,2) this] q(1) assms show ?thesis by simp
qed

lemma ingress_choice_declared:
  assumes "ingress_choice targets host path = Some (p, t, cl)"
  obtains h where "(p, type_name t) \<in> set (declared targets h)" "cl = cluster_name h p"
  using assms by (auto simp: ingress_choice_def split: option.splits dest!: path_choice_SomeD)

lemma chosen_rule:
  assumes "slice_sort (sort_routes srt)" and "\<And>m. mset (range_map m) = mset m"
    and "to_snapshot srt range_map x now cls targets = Some snap" and "admitted targets"
    and "ingress_choice targets host path = Some (p, t, cl)"
  obtains r where "choose_route (fst (route_table_new dm from_bytes (to_pb_snapshot snap) s)) host path = Some r"
    "rr_path r = p" "rr_path_type r = t" "rr_cluster r = cl"
  using choose_route_ingress [OF assms(1-4), of dm from_bytes s host path] assms(5) that by auto

lemma cluster_of_choice:
  fixes dm :: "'d counters"
  assumes "slice_sort (sort_clusters srt)" and "\<And>m. mset (range_map m) = mset m"
    and "targets = parse_endpoints k x unmarshal addr ings"
    and "to_snapshot srt range_map x now cls targets = Some snap" and "admitted targets"
    and "ingress_choice targets host path = Some (p, t, cl)"
  shows "case get_cluster_rules (fst (route_table_new dm from_bytes (to_pb_snapshot snap) s)) cl of
      None \<Rightarrow> to_ascii_lowercase p \<noteq> p
    | Some c \<Rightarrow> to_ascii_lowercase p = p \<and> cr_endpoints c \<noteq> [] \<and> attempts c \<le> 10"
proof -
  let ?T = "fst (route_table_new dm from_bytes (to_pb_snapshot snap) s)"
  note clusters = snapshot_clusters [OF assms(1,2,4)]
  from assms(6) obtain h where h: "(p, type_name t) \<in> set (declared targets h)" "cl = cluster_name h p"
    by (rule ingress_choice_declared)
  then obtain te a where e: "(h, p, te) \<in> set (entries id targets)" by (auto simp: declared_iff)
  have low: "to_ascii_lowercase cl = cl \<longleftrightarrow> to_ascii_lowercase p = p"
    using entries_admitted(1) [OF assms(5) e] by (simp add: h(2) lowercase_cluster_name) (simp add: cluster_name_def)
  have "to_pb_cluster (cluster_of h (p, te)) \<in> set (sn_clusters (to_pb_snapshot snap))"
    unfolding clusters using e by force
  moreover have "accepted (to_pb_cluster (cluster_of h (p, te)))"
    using parsed_entry(3) [of h p te k x unmarshal addr ings] e assms(3)
    by (simp add: accepted_def to_pb_cluster_def cluster_of_def Let_def)
  moreover have "cl_name (to_pb_cluster (cluster_of h (p, te))) = cl"
    by (simp add: to_pb_cluster_def cluster_of_def Let_def h(2))
  ultimately have found: "get_cluster_rules ?T cl \<noteq> None \<longleftrightarrow> to_ascii_lowercase p = p"
    unfolding get_cluster_rules_found using low by auto
  show ?thesis
  proof (cases "get_cluster_rules ?T cl")
    case (Some c)
    then have "fst (build_clusters dm from_bytes (sn_clusters (to_pb_snapshot snap)) s) cl = Some c"
      by (simp add: get_cluster_rules_def)
    then obtain c0 s1 s2 where c0: "c0 \<in> set (sn_clusters (to_pb_snapshot snap))"
      "new_cluster dm from_bytes c0 s1 = (Some c, s2)" by (rule build_clusters_origin)
    from c0(1) obtain g q ue where g: "(g, q, ue) \<in> set (entries id targets)"
      "c0 = to_pb_cluster (cluster_of g (q, ue))" unfolding clusters by auto
    note ue = parsed_entry [OF g(1) [unfolded assms(3)]]
    have "cr_endpoints c \<noteq> []" "cr_retries c = te_retries ue"
      using new_cluster_fields [OF c0(2)] ue(1) g(2) by (auto simp: to_pb_cluster_def cluster_of_def Let_def)
    with Some found ue(2) show ?thesis by (auto simp: attempts_def)
  qed (use found in auto)
qed

text \<open>
  C8: a declared path is served, end to end.  For a snapshot built from any Ingresses, with
  lower-case hosts and paths under a million bytes, sent and installed: if a request has a
  declared choice of path, and that path has no upper-case letter, then its cluster is
  found and has at least one endpoint and at most ten attempts; and if no authorization
  stands in the way, the handler sends the request upstream.
\<close>

theorem declared_path_served:
  fixes net :: "('h, 'u, 'b, 'r, 'e) network"
  assumes "slice_sort (sort_routes srt)" and "slice_sort (sort_clusters srt)" and "\<And>m. mset (range_map m) = mset m"
    and "targets = parse_endpoints k x unmarshal addr ings" and "admitted targets"
    and "to_snapshot srt range_map x now cls targets = Some snap"
    and "table = fst (route_table_new dm from_bytes (to_pb_snapshot snap) s0)"
    and "extract_host lib req = (Inr host :: ('h, 'r body) response + string)"
    and "ingress_choice targets host (uri_path lib (rq_uri req)) = Some (p, t, cl)"
    and "to_ascii_lowercase p = p"
  shows "\<exists>c. get_cluster_rules table cl = Some c \<and> cr_endpoints c \<noteq> [] \<and> attempts c \<le> 10
    \<and> (open_to lib c req \<longrightarrow>
        (\<exists>resp s' xs. proxy_handler dm lib fmt net is_end_stream table req s trace = (resp, s', trace @ xs)
          \<and> upstream_sends xs \<noteq> []))"
proof -
  from assms(1,3,6,5,9) obtain r where r: "choose_route table host (uri_path lib (rq_uri req)) = Some r" "rr_cluster r = cl"
    unfolding assms(7) by (rule chosen_rule)
  from cluster_of_choice [OF assms(2-4,6,5,9), of dm from_bytes s0] assms(10) obtain c where
    c: "get_cluster_rules table cl = Some c" "cr_endpoints c \<noteq> []" "attempts c \<le> 10"
    unfolding assms(7) by (auto split: option.splits)
  with open_served [OF assms(8) r(1) _ c(2)] r(2) show ?thesis by auto
qed

text \<open>
  C19: a declared path with an upper-case letter is not served.  Under the same conditions, if
  the chosen path has an upper-case letter, the handler answers \<open>404\<close> without contacting an
  endpoint, although route and cluster are both in the snapshot: the table stores clusters
  under their lower-cased names, and routes name them as they are.
\<close>

theorem upper_case_path_not_found:
  fixes net :: "('h, 'u, 'b, 'r, 'e) network"
  assumes "slice_sort (sort_routes srt)" and "slice_sort (sort_clusters srt)" and "\<And>m. mset (range_map m) = mset m"
    and "targets = parse_endpoints k x unmarshal addr ings" and "admitted targets"
    and "to_snapshot srt range_map x now cls targets = Some snap"
    and "table = fst (route_table_new dm from_bytes (to_pb_snapshot snap) s0)"
    and "extract_host lib req = (Inr host :: ('h, 'r body) response + string)"
    and "ingress_choice targets host (uri_path lib (rq_uri req)) = Some (p, t, cl)"
    and "to_ascii_lowercase p \<noteq> p"
  shows "proxy_handler dm lib fmt net is_end_stream table req s trace
    = (text_response (hl_headers lib) NOT_FOUND ''cluster rules not found'', s, trace)"
proof -
  from assms(1,3,6,5,9) obtain r where r: "choose_route table host (uri_path lib (rq_uri req)) = Some r" "rr_cluster r = cl"
    unfolding assms(7) by (rule chosen_rule)
  have "get_cluster_rules table cl = None"
    using cluster_of_choice [OF assms(2-4,6,5,9), of dm from_bytes s0] assms(7,10) by (auto split: option.splits)
  with assms(8) r show ?thesis by (simp add: proxy_handler_def resolve_defs Let_def)
qed

text \<open>No table built from a snapshot of the control plane has a cluster that skips verification.\<close>

lemma sent_clusters_verify:
  assumes "get_cluster_rules (fst (route_table_new dm from_bytes (to_pb_snapshot snap) s0)) name = Some c"
  shows "\<not> cr_backend_tls_insecure_skip_verify c"
proof -
  from assms have "fst (build_clusters dm from_bytes (sn_clusters (to_pb_snapshot snap)) s0) name = Some c"
    by (simp add: get_cluster_rules_def)
  then obtain c0 s1 s2 where c0: "c0 \<in> set (sn_clusters (to_pb_snapshot snap))"
    "new_cluster dm from_bytes c0 s1 = (Some c, s2)" by (rule build_clusters_origin)
  have "\<not> cl_backend_tls_insecure_skip_verify c0" using c0(1) by (auto simp: to_pb_snapshot_def to_pb_cluster_def)
  then show ?thesis using new_cluster_fields(6) [OF c0(2)] by simp
qed

text \<open>
  C20: the annotation \<open>backend-tls-insecure-skip-verify\<close> has no effect.  The settings the
  control plane reads from the annotations of an Ingress are the same with and without it;
  and whatever snapshot the control plane sends, every request a handler sends with the
  table built from it goes through the client that verifies certificates.
\<close>

theorem skip_verify_annotation_ignored:
  assumes "proxy_handler dm lib fmt net is_end_stream
      (fst (route_table_new dm from_bytes (to_pb_snapshot snap) s0)) req s trace = (resp, s', trace @ xs)"
    and "x \<in> set xs" and "new_http_pool_connector (Some roots) count_thread = Some pool"
  shows "parse_annotations unmarshal addr
      (annotations(''argon.github.io/backend-tls-insecure-skip-verify'' \<mapsto> ''true''))
      = parse_annotations unmarshal addr annotations
    \<and> hc_verifier (client_for pool x) = roots"
proof -
  have "\<not> snt_insecure x"
    using handler_handled [OF assms(1)]
  proof (cases rule: handled.cases)
    case (unresolved st msg)
    then show ?thesis using assms(2) by simp
  next
    case (served host rule c sel s1)
    show ?thesis using serve_insecure [OF served(5) assms(2)] sent_clusters_verify [OF served(3)] by simp
  qed
  then have "hc_verifier (client_for pool x) = roots"
    using assms(3) by (auto simp: client_for_def new_http_pool_connector_def)
  moreover have "parse_annotations unmarshal addr
      (annotations(''argon.github.io/backend-tls-insecure-skip-verify'' \<mapsto> ''true''))
      = parse_annotations unmarshal addr annotations"
    by (simp add: parse_annotations_def parse_auth_def annotated_def)
  ultimately show ?thesis by blast
qed

section \<open>Instances\<close>

text \<open>One Ingress with the paths \<open>/\<close> and \<open>/Api\<close>, and a service with one ready endpoint.\<close>

definition demo_ingress :: ingress where
  "demo_ingress =
     (let be = \<lparr>sr_name = ''web'', sr_port_name = [], sr_port_number = 80\<rparr> in
      \<lparr>ig_namespace = ''default'', ig_annotations = Map.empty, ig_tls = [],
       ig_rules = [\<lparr>ir_host = ''demo.local'',
         ir_http = Some [\<lparr>hp_path = ''/'', hp_path_type = Some (1, ''Prefix''), hp_service = Some be\<rparr>,
                         \<lparr>hp_path = ''/Api'', hp_path_type = Some (2, ''Exact''), hp_service = Some be\<rparr>]\<rparr>]\<rparr>)"

definition demo_kube :: kube where
  "demo_kube =
     \<lparr>k_service = (\<lambda>_ _. Some [\<lparr>sv_port_name = ''http'', sv_port_number = 80\<rparr>]),
      k_slices = (\<lambda>_ _. Some [\<lparr>es_ports = [\<lparr>sp_name = Some ''http'', sp_port = Some 8080, sp_protocol = None\<rparr>],
        es_endpoints = [\<lparr>sl_addresses = [''10.0.0.2''], sl_ready = Some False\<rparr>,
                        \<lparr>sl_addresses = [''10.0.0.1''], sl_ready = Some True\<rparr>]\<rparr>]),
      k_secret = (\<lambda>_ _. None), k_ingresses = (\<lambda>_. Some [demo_ingress])\<rparr>"

definition demo_targets :: "target_proxy list" where
  "demo_targets = parse_endpoints demo_kube demo_crypto Map.empty id [demo_ingress]"

lemma admitted_shape:
  "admitted targets \<longleftrightarrow>
   (\<forall>(h, ps) \<in> set (map (\<lambda>tp. (tp_host tp, map fst (tp_path tp))) targets).
      to_ascii_lowercase h = h \<and> (\<forall>p \<in> set ps. length p < 1000000))"
  by (simp add: admitted_def split_def)

lemma demo_targets_admitted: "admitted demo_targets"
proof -
  have "map (\<lambda>tp. (tp_host tp, map fst (tp_path tp))) demo_targets = [(''demo.local'', [''/'', ''/Api''])]"
    "to_ascii_lowercase ''demo.local'' = ''demo.local''"
    by code_simp+
  then show ?thesis unfolding admitted_shape by simp
qed

lemma demo_targets_choice:
  "ingress_choice demo_targets ''demo.local'' ''/x'' = Some (''/'', Prefix, ''demo.local|/'')"
  "ingress_choice demo_targets ''demo.local'' ''/Api'' = Some (''/Api'', Exact, ''demo.local|/Api'')"
  by code_simp+

lemma demo_targets_snapshot:
  obtains snap where "to_snapshot go_sorters rev demo_crypto 0 ''argon'' demo_targets = Some snap"
proof -
  have "list_all (\<lambda>(h, e). route_of h e \<noteq> None) (entries rev demo_targets)" by code_simp
  then have "sequence (map (\<lambda>(h, e). route_of h e) (entries rev demo_targets)) \<noteq> None"
    by (auto simp: sequence_None list_all_iff)
  then show thesis using that by (auto simp: to_snapshot_def Let_def)
qed

theorem routing_follows_ingress_witness:
  "\<exists>snap. map_option (\<lambda>r. (rr_path r, rr_path_type r, rr_cluster r))
      (choose_route (fst (route_table_new alist_dash Some (to_pb_snapshot snap) store_init)) ''demo.local'' ''/Api'')
    = Some (''/Api'', Exact, ''demo.local|/Api'')"
proof -
  obtain snap where snap: "to_snapshot go_sorters rev demo_crypto 0 ''argon'' demo_targets = Some snap"
    by (rule demo_targets_snapshot)
  have "mset (rev m) = mset m" for m :: "(string \<times> target_endpoint) list" by simp
  from routing_follows_ingress [OF slice_sort_go(1) this snap demo_targets_admitted,
      of alist_dash Some store_init "''demo.local''" "''/Api''"]
  show ?thesis by (auto simp: demo_targets_choice)
qed

abbreviation "demo_installed snap \<equiv> fst (route_table_new alist_dash Some (to_pb_snapshot snap) store_init)"

theorem declared_path_served_witness:
  "\<exists>snap c. get_cluster_rules (demo_installed snap) ''demo.local|/'' = Some c \<and> cr_endpoints c \<noteq> []"
proof -
  obtain snap where snap: "to_snapshot go_sorters rev demo_crypto 0 ''argon'' demo_targets = Some snap"
    by (rule demo_targets_snapshot)
  have rev: "mset (rev m) = mset m" for m :: "(string \<times> target_endpoint) list" by simp
  have path: "uri_path parts_lib (rq_uri root_request) = ''/x''" "to_ascii_lowercase ''/'' = ''/''" by code_simp+
  from declared_path_served [OF slice_sort_go rev demo_targets_def demo_targets_admitted snap refl root_extract
      demo_targets_choice(1) [folded path(1)] path(2),
      of alist_dash Some store_init plain_fmt "answering 200" "\<lambda>b. b = []" store_init "[]"]
  show ?thesis by blast
qed

text \<open>A snapshot of the control plane with one route and one cluster.\<close>

definition one_route :: model_snapshot where
  "one_route = empty_snapshot
     \<lparr>ms_routes := [\<lparr>mr_host = ''demo.local'', mr_path = ''/'', mr_path_type = (0, ''Prefix''), mr_cluster = ''web'',
                     mr_priority = 0\<rparr>],
      ms_clusters := [\<lparr>mc_name = ''web'', mc_lb_policy = ''RoundRobin'',
                       mc_endpoints = [\<lparr>me_address = ''10.0.0.1'', me_port = 80, me_weight = 1, me_zone = [],
                                        me_region = []\<rparr>],
                       mc_timeout_ms = 3000, mc_retries = 1, mc_backend_protocol = ''h1-ssl'',
                       mc_rewrite_headers = [], mc_auth = None\<rparr>]\<rparr>"

lemma one_route_sends:
  "case proxy_handler alist_dash parts_lib plain_fmt (answering 200) (\<lambda>b. b = []) (demo_installed one_route)
      root_request store_init [] of (resp, s', xs) \<Rightarrow> xs \<noteq> []"
  by code_simp

theorem skip_verify_annotation_ignored_witness:
  "\<exists>resp s' x xs pool. proxy_handler alist_dash parts_lib plain_fmt (answering 200) (\<lambda>b. b = []) (demo_installed one_route)
      root_request store_init [] = (resp, s', [] @ x # xs)
    \<and> new_http_pool_connector (Some reject_all) 4 = Some pool \<and> hc_verifier (client_for pool x) = reject_all"
proof -
  obtain resp s' x xs where *: "proxy_handler alist_dash parts_lib plain_fmt (answering 200) (\<lambda>b. b = [])
      (demo_installed one_route) root_request store_init [] = (resp, s', [] @ x # xs)"
    using one_route_sends
    by (cases "proxy_handler alist_dash parts_lib plain_fmt (answering 200) (\<lambda>b. b = []) (demo_installed one_route)
        root_request store_init []") (auto simp: neq_Nil_conv)
  obtain pool where pool: "new_http_pool_connector (Some reject_all) 4 = Some pool"
    by (simp add: new_http_pool_connector_def)
  from skip_verify_annotation_ignored [OF * _ pool, of x] * pool show ?thesis by auto
qed

definition api_request :: "(header_name \<Rightarrow> header_value list, uri_parts, string) request" where
  "api_request = root_request
     \<lparr>rq_uri := \<lparr>up_scheme = None, up_authority = Some ''demo.local'', up_path_and_query = Some ''/Api''\<rparr>\<rparr>"

lemma api_extract:
  "extract_host parts_lib api_request = (Inr ''demo.local'' :: (header_name \<Rightarrow> header_value list, string body) response + string)"
proof -
  have "(case extract_host parts_lib api_request ::
      (header_name \<Rightarrow> header_value list, string body) response + string of
        Inr h \<Rightarrow> h = ''demo.local'' | Inl _ \<Rightarrow> False)"
    by code_simp
  then show ?thesis by (simp split: sum.splits)
qed

theorem upper_case_path_not_found_witness:
  "\<exists>snap. fst (proxy_handler alist_dash parts_lib plain_fmt (answering 200) (\<lambda>b. b = []) (demo_installed snap)
      api_request store_init [])
    = text_response (hl_headers parts_lib) NOT_FOUND ''cluster rules not found''"
proof -
  obtain snap where snap: "to_snapshot go_sorters rev demo_crypto 0 ''argon'' demo_targets = Some snap"
    by (rule demo_targets_snapshot)
  have rev: "mset (rev m) = mset m" for m :: "(string \<times> target_endpoint) list" by simp
  have path: "uri_path parts_lib (rq_uri api_request) = ''/Api''" "to_ascii_lowercase ''/Api'' \<noteq> ''/Api''" by code_simp+
  have choice: "ingress_choice demo_targets ''demo.local'' (uri_path parts_lib (rq_uri api_request))
      = Some (''/Api'', Exact, ''demo.local|/Api'')"
    by (simp only: path(1) demo_targets_choice)
  from upper_case_path_not_found [OF slice_sort_go rev demo_targets_def demo_targets_admitted snap refl [of "demo_installed snap"] api_extract
      choice path(2),
      where fmt = plain_fmt and net = "answering 200"
        and is_end_stream = "\<lambda>b. b = []" and s = store_init and trace = "[]"]
  have "proxy_handler alist_dash parts_lib plain_fmt (answering 200) (\<lambda>b. b = []) (demo_installed snap)
      api_request store_init []
    = (text_response (hl_headers parts_lib) NOT_FOUND ''cluster rules not found'', store_init, [])" .
  then show ?thesis by (intro exI [of _ snap]) (simp only: fst_conv)
qed

end
