(* ===== verification/Whole_System.thy ===== *)
theory Whole_System
  imports End_To_End Grpc_Manager
begin

text \<open>
  The control plane and one data plane together: \<open>Reconcile\<close> builds snapshots and broadcasts
  them, a \<open>Watch\<close> call carries them over a stream, and the manager of the data plane reads,
  loses and reopens the stream while it serves requests.  The lemmas show that the data
  plane never goes back to an older configuration, that it routes at every moment by the
  Ingresses of one reconciliation, and when it is up to date.
\<close>

section \<open>Catching up with a history\<close>

text \<open>
  A reader that has received \<open>received\<close> and is bound to receive \<open>pending\<close> catches up with a
  history: what it has received lies, up to repetitions, in the history, and what comes
  starts no earlier than at the last place it has reached, which a reconnection repeats.
\<close>

definition catching_up :: "'a list \<Rightarrow> 'a list \<Rightarrow> 'a list \<Rightarrow> bool" where
  "catching_up received pending history \<longleftrightarrow>
     (\<exists>j k. k \<le> Suc j \<and> k \<le> length history \<and> subseq (remdups_adj received) (take k history)
        \<and> subseq pending (drop j history))"

lemma catching_up_order: "catching_up received pending history \<Longrightarrow> subseq (remdups_adj received) history"
  unfolding catching_up_def by (metis append_take_drop_id subseq_rev_drop_many)

lemma catching_up_start:
  assumes "subseq (remdups_adj received) history"
  shows "catching_up received (if history = [] then [] else [last history]) history"
proof (cases "history = []")
  case True
  then show ?thesis using assms by (simp add: catching_up_def)
next
  case False
  then have "drop (length history - 1) history = [last history]"
    by (cases history rule: rev_cases) auto
  then show ?thesis
    unfolding catching_up_def using assms False
    by (intro exI [of _ "length history - 1"] exI [of _ "length history"]) simp
qed

lemma catching_up_less: "catching_up received pending history \<Longrightarrow> subseq ps pending \<Longrightarrow> catching_up received ps history"
  unfolding catching_up_def using subseq_order.trans by blast

lemma catching_up_grow:
  assumes "catching_up received pending history"
  shows "catching_up received (pending @ [x]) (history @ [x])"
proof -
  from assms obtain j k where jk: "k \<le> Suc j" "k \<le> length history" "subseq (remdups_adj received) (take k history)"
    "subseq pending (drop j history)" by (auto simp: catching_up_def)
  show ?thesis
  proof (cases "j \<le> length history")
    case True
    with jk show ?thesis unfolding catching_up_def by (intro exI [of _ j] exI [of _ k]) simp
  next
    case False
    with jk have "pending = []" by simp
    with jk show ?thesis unfolding catching_up_def
      by (intro exI [of _ "length history"] exI [of _ k]) simp
  qed
qed

lemma subseq_snoc_neq:
  assumes "subseq ys (zs @ [x])" "ys = [] \<or> last ys \<noteq> x"
  shows "subseq ys zs"
proof -
  from assms(1) obtain as bs where ys: "ys = as @ bs" "subseq as zs" "subseq bs [x]" by (rule subseq_appendE)
  show ?thesis
  proof (cases bs)
    case Nil
    with ys(1,2) show ?thesis by simp
  next
    case (Cons b cs)
    with list_emb_length [OF ys(3)] have "bs = [b]" by simp
    moreover have "b = x" using ys(3) unfolding \<open>bs = [b]\<close> subseq_singleton_left by simp
    ultimately show ?thesis using assms(2) ys(1) by simp
  qed
qed

lemma remdups_adj_snoc:
  "remdups_adj (xs @ [x]) = (if xs \<noteq> [] \<and> last xs = x then remdups_adj xs else remdups_adj xs @ [x])"
  by (cases "xs = []") (auto simp: remdups_adj_append'')

lemma catching_up_read:
  assumes "catching_up received (x # pending) history"
  shows "catching_up (received @ [x]) pending history"
proof -
  from assms obtain j k where jk: "k \<le> Suc j" "subseq (remdups_adj received) (take k history)"
    "subseq (x # pending) (drop j history)" by (auto simp: catching_up_def)
  from list_emb_ConsD [OF jk(3)] obtain us vs where us: "drop j history = us @ x # vs" "subseq pending vs" by auto
  define as where "as = take j history @ us"
  have h: "history = as @ x # vs" unfolding as_def using us(1) by (metis append.assoc append_take_drop_id)
  have j: "j \<le> length as" using us(1) by (cases "j \<le> length history") (auto simp: as_def)
  have "subseq (take k history) (as @ [x])"
  proof -
    have "k - length as \<le> 1" using jk(1) j by simp
    then have "take k history = take k (as @ [x])" unfolding h by (auto simp: take_Cons')
    then show ?thesis by (metis prefix_imp_subseq take_is_prefix)
  qed
  then have s: "subseq (remdups_adj received) (as @ [x])" using jk(2) subseq_order.trans by blast
  have "subseq (remdups_adj (received @ [x])) (as @ [x])"
  proof (cases "received \<noteq> [] \<and> last received = x")
    case True
    then show ?thesis using s by (simp add: remdups_adj_snoc)
  next
    case False
    then have "subseq (remdups_adj received) as" by (intro subseq_snoc_neq [OF s]) auto
    with False show ?thesis by (auto simp: remdups_adj_snoc)
  qed
  then show ?thesis unfolding catching_up_def
    using us(2) by (intro exI [of _ "Suc (length as)"]) (simp add: h)
qed

section \<open>The system\<close>

text \<open>
  Besides the state of both planes: the \<open>Watch\<close> call the data plane is connected to, the
  snapshots sent on its stream and how many of them the data plane has read.  The last
  field is history: the targets of every reconciliation that broadcast a snapshot.
\<close>

record ('d, 'k) whole =
  wh_reconciler :: reconciler
  wh_control :: plane_control
  wh_data :: "('d, 'k) manager"
  wh_stream :: "nat option"
  wh_wire :: "model_snapshot list"
  wh_read :: nat
  wh_targets :: "target_proxy list list"

definition whole_init :: "string \<Rightarrow> ('d, 'k) whole" where
  "whole_init ingress_class =
     \<lparr>wh_reconciler = \<lparr>rc_ingress_class = ingress_class, rc_last_version = [], rc_current_snapshot = empty_snapshot\<rparr>,
      wh_control = control_init, wh_data = manager_init, wh_stream = None, wh_wire = [], wh_read = 0,
      wh_targets = []\<rparr>"

text \<open>What is on the wire after a step of the control plane; a stream that has ended keeps what was sent.\<close>

definition sent_on :: "nat option \<Rightarrow> model_snapshot list \<Rightarrow> plane_control \<Rightarrow> model_snapshot list" where
  "sent_on stream wire q =
     (case stream of
        None \<Rightarrow> wire
      | Some i \<Rightarrow> (case pc_watches q i of None \<Rightarrow> wire | Some v \<Rightarrow> wa_sent v))"

text \<open>The phases of the manager in which it has called \<open>Watch\<close>.\<close>

definition in_call :: "phase \<Rightarrow> bool" where
  "in_call ph = (case ph of
     Opening \<Rightarrow> True | Streaming _ \<Rightarrow> True | Write_Table _ \<Rightarrow> True | Write_Sni _ \<Rightarrow> True | _ \<Rightarrow> False)"

text \<open>
  A reconciliation sees the API in any state and may broadcast; the other steps of the control
  plane serve this data plane and others.  The data plane calls \<open>Watch\<close> while it opens a
  stream, reads one message after the other, and makes all other steps on its own; leaving
  the call gives the stream up.
\<close>

inductive whole_step ::
  "sorters \<Rightarrow> 'd counters \<Rightarrow> ('h, 'u) http_lib \<Rightarrow> 'k pem_lib \<Rightarrow> string \<Rightarrow> ('d, 'k) whole \<Rightarrow> ('d, 'k) whole \<Rightarrow> bool"
  for srt dm lib pem controller_addr where
  reconciles: "\<forall>m. mset (range_map m) = mset m \<Longrightarrow>
    k_ingresses k (rc_ingress_class (wh_reconciler w)) = Some ings \<Longrightarrow>
    reconcile srt range_map k x unmarshal addr now (wh_reconciler w) = (Broadcast snap, r) \<Longrightarrow>
    control_step (wh_control w) q \<Longrightarrow> pc_history q = pc_history (wh_control w) @ [snap] \<Longrightarrow>
    whole_step srt dm lib pem controller_addr w
      (w\<lparr>wh_reconciler := r, wh_control := q, wh_wire := sent_on (wh_stream w) (wh_wire w) q,
         wh_targets := wh_targets w @ [parse_endpoints k x unmarshal addr ings]\<rparr>)"
| delivers: "control_step (wh_control w) q \<Longrightarrow> pc_history q = pc_history (wh_control w) \<Longrightarrow>
    whole_step srt dm lib pem controller_addr w
      (w\<lparr>wh_control := q, wh_wire := sent_on (wh_stream w) (wh_wire w) q\<rparr>)"
| calls_watch: "gm_phase (wh_data w) = Opening \<Longrightarrow> hub_add (pc_hub (wh_control w)) = (i, lst, h) \<Longrightarrow>
    whole_step srt dm lib pem controller_addr w
      (w\<lparr>wh_control := (wh_control w)\<lparr>pc_hub := h, pc_watches := (pc_watches (wh_control w))
           (i \<mapsto> \<lparr>wa_initial = Some lst, wa_sent = [], wa_dropped = False\<rparr>)\<rparr>,
         wh_stream := Some i, wh_wire := [], wh_read := 0\<rparr>)"
| reads: "wh_stream w \<noteq> None \<Longrightarrow> wh_read w < length (wh_wire w) \<Longrightarrow>
    stream_step dm lib pem controller_addr (wh_data w) n \<Longrightarrow>
    gm_received n = gm_received (wh_data w) @ [to_pb_snapshot (wh_wire w ! wh_read w)] \<Longrightarrow>
    whole_step srt dm lib pem controller_addr w (w\<lparr>wh_data := n, wh_read := Suc (wh_read w)\<rparr>)"
| data_plane: "manager_step dm lib pem controller_addr (wh_data w) n \<Longrightarrow>
    gm_received n = gm_received (wh_data w) \<Longrightarrow>
    whole_step srt dm lib pem controller_addr w
      (w\<lparr>wh_data := n, wh_stream := (if in_call (gm_phase n) then wh_stream w else None)\<rparr>)"

inductive whole_reachable ::
  "sorters \<Rightarrow> 'd counters \<Rightarrow> ('h, 'u) http_lib \<Rightarrow> 'k pem_lib \<Rightarrow> string \<Rightarrow> string \<Rightarrow> ('d, 'k) whole \<Rightarrow> bool"
  for srt dm lib pem controller_addr ingress_class where
  whole_start: "whole_reachable srt dm lib pem controller_addr ingress_class (whole_init ingress_class)"
| whole_run: "whole_reachable srt dm lib pem controller_addr ingress_class w \<Longrightarrow>
    whole_step srt dm lib pem controller_addr w v \<Longrightarrow>
    whole_reachable srt dm lib pem controller_addr ingress_class v"

section \<open>The invariant\<close>

text \<open>What the data plane is bound to receive on its stream.\<close>

definition pending :: "('d, 'k) whole \<Rightarrow> model_snapshot list" where
  "pending w =
     (case wh_stream w of
        None \<Rightarrow> []
      | Some i \<Rightarrow> drop (wh_read w)
          (case pc_watches (wh_control w) i of
             None \<Rightarrow> wh_wire w
           | Some v \<Rightarrow> stream_of (wh_control w) i v))"

definition wire_ok :: "('d, 'k) whole \<Rightarrow> bool" where
  "wire_ok w \<longleftrightarrow>
     (case wh_stream w of
        None \<Rightarrow> True
      | Some i \<Rightarrow> i < hb_next (pc_hub (wh_control w)) \<and> wh_read w \<le> length (wh_wire w)
          \<and> (\<forall>v. pc_watches (wh_control w) i = Some v \<longrightarrow> wa_sent v = wh_wire w)
          \<and> suffix (map to_pb_snapshot (take (wh_read w) (wh_wire w))) (gm_received (wh_data w)))"

definition order_ok :: "('d, 'k) whole \<Rightarrow> bool" where
  "order_ok w \<longleftrightarrow> catching_up (gm_received (wh_data w)) (map to_pb_snapshot (pending w))
     (map to_pb_snapshot (pc_history (wh_control w)))"

text \<open>A snapshot is built from targets.\<close>

definition built_from :: "sorters \<Rightarrow> model_snapshot \<Rightarrow> target_proxy list \<Rightarrow> bool" where
  "built_from srt s targets \<longleftrightarrow>
     (\<exists>range_map x now ingress_class. (\<forall>m. mset (range_map m) = mset m)
        \<and> to_snapshot srt range_map x now ingress_class targets = Some s)"

definition whole_inv ::
  "sorters \<Rightarrow> 'd counters \<Rightarrow> ('h, 'u) http_lib \<Rightarrow> 'k pem_lib \<Rightarrow> string \<Rightarrow> ('d, 'k) whole \<Rightarrow> bool" where
  "whole_inv srt dm lib pem controller_addr w \<longleftrightarrow>
     control_inv (wh_control w) \<and> manager_reachable dm lib pem controller_addr (wh_data w)
     \<and> wire_ok w \<and> order_ok w \<and> list_all2 (built_from srt) (pc_history (wh_control w)) (wh_targets w)"

lemma catching_up_history:
  assumes "catching_up received ps history" and "history' = history \<or> (\<exists>s. history' = history @ [s])"
  shows "catching_up received ps history'"
proof -
  have "catching_up received ps (history @ [s])" for s
    using catching_up_less [OF catching_up_grow [OF assms(1), of s], of ps] by (simp add: prefix_imp_subseq)
  then show ?thesis using assms by auto
qed

lemma prefix_take_eq: "prefix xs ys \<Longrightarrow> n \<le> length xs \<Longrightarrow> take n ys = take n xs"
  by (auto simp: prefix_def)

lemma wire_ok_control:
  assumes step: "control_step (wh_control w) (wh_control w')" and inv: "hub_ok (wh_control w)" "wire_ok w"
    and same: "wh_data w' = wh_data w" "wh_stream w' = wh_stream w" "wh_read w' = wh_read w"
    and wire: "wh_wire w' = sent_on (wh_stream w) (wh_wire w) (wh_control w')"
  shows "wire_ok w'"
proof (cases "wh_stream w")
  case None
  then show ?thesis using same by (simp add: wire_ok_def)
next
  case (Some i)
  with inv(2) have i: "i < hb_next (pc_hub (wh_control w))" "wh_read w \<le> length (wh_wire w)"
    "\<And>v. pc_watches (wh_control w) i = Some v \<Longrightarrow> wa_sent v = wh_wire w"
    "suffix (map to_pb_snapshot (take (wh_read w) (wh_wire w))) (gm_received (wh_data w))"
    by (auto simp: wire_ok_def)
  have "prefix (wh_wire w) (wh_wire w')"
  proof (cases "pc_watches (wh_control w') i")
    case (Some v)
    then have "pc_watches (wh_control w) i \<noteq> None" using control_step_gone [OF step i(1)] by auto
    then obtain u where u: "pc_watches (wh_control w) i = Some u" by blast
    from control_step_stream [OF step inv(1) u Some] i(3) [OF u] Some \<open>wh_stream w = Some i\<close> wire
    show ?thesis by (simp add: stream_moved_def sent_on_def)
  qed (use wire Some in \<open>simp add: sent_on_def\<close>)
  note p = this prefix_take_eq [OF this i(2)] prefix_length_le [OF this]
  have "i < hb_next (pc_hub (wh_control w'))" using control_step_history [OF step] i(1) by simp
  with p i(2,4) same wire Some show ?thesis by (auto simp: wire_ok_def sent_on_def)
qed

lemma drop_moved:
  assumes "stream_moved p u q v i" "n \<le> length (wa_sent u)"
  shows "subseq (drop n (stream_of q i v)) (drop n (stream_of p i u))
    \<or> (\<exists>s. drop n (stream_of q i v) = drop n (stream_of p i u) @ [s] \<and> pc_history q = pc_history p @ [s])"
proof -
  have "length (wa_sent u) \<le> length (wa_sent v)" using assms(1) by (simp add: stream_moved_def prefix_length_le)
  then have "n \<le> length (stream_of p i u)" "n \<le> length (stream_of q i v)"
    using assms(2) by (simp_all add: stream_of_def)
  then show ?thesis using assms(1) by (auto simp: stream_moved_def prefix_imp_subseq)
qed

lemma pending_control:
  assumes step: "control_step (wh_control w) (wh_control w')" and inv: "hub_ok (wh_control w)" "wire_ok w"
    and same: "wh_stream w' = wh_stream w" "wh_read w' = wh_read w"
    and wire: "wh_wire w' = sent_on (wh_stream w) (wh_wire w) (wh_control w')"
  shows "subseq (pending w') (pending w)
    \<or> (\<exists>s. pending w' = pending w @ [s] \<and> pc_history (wh_control w') = pc_history (wh_control w) @ [s])"
proof (cases "wh_stream w")
  case None
  then show ?thesis using same by (simp add: pending_def)
next
  case i: (Some i)
  with inv(2) have ok: "i < hb_next (pc_hub (wh_control w))" "wh_read w \<le> length (wh_wire w)"
    "\<And>v. pc_watches (wh_control w) i = Some v \<Longrightarrow> wa_sent v = wh_wire w"
    by (auto simp: wire_ok_def)
  show ?thesis
  proof (cases "pc_watches (wh_control w) i")
    case None
    then have "pc_watches (wh_control w') i = None" using control_step_gone [OF step ok(1)] by simp
    with None i same wire show ?thesis by (simp add: pending_def sent_on_def)
  next
    case u: (Some u)
    note len = ok(2) [folded ok(3) [OF u]]
    show ?thesis
    proof (cases "pc_watches (wh_control w') i")
      case None
      then have "pending w' = drop (wh_read w) (wa_sent u)"
        using u i same wire ok(3) by (simp add: pending_def sent_on_def)
      then show ?thesis using u i len by (simp add: pending_def stream_of_def prefix_imp_subseq)
    next
      case (Some v)
      from drop_moved [OF control_step_stream [OF step inv(1) u Some] len] show ?thesis
        using u i Some same by (simp add: pending_def)
    qed
  qed
qed

lemma order_ok_control:
  assumes step: "control_step (wh_control w) (wh_control w')" and inv: "hub_ok (wh_control w)" "wire_ok w" "order_ok w"
    and same: "wh_data w' = wh_data w" "wh_stream w' = wh_stream w" "wh_read w' = wh_read w"
    and wire: "wh_wire w' = sent_on (wh_stream w) (wh_wire w) (wh_control w')"
  shows "order_ok w'"
proof -
  let ?H = "map to_pb_snapshot (pc_history (wh_control w))" and ?H' = "map to_pb_snapshot (pc_history (wh_control w'))"
  have up: "catching_up (gm_received (wh_data w)) (map to_pb_snapshot (pending w)) ?H"
    using inv(3) by (simp add: order_ok_def)
  have H': "?H' = ?H \<or> (\<exists>s. ?H' = ?H @ [s])" using control_step_history [OF step] by auto
  from pending_control [OF step inv(1,2) same(2,3) wire] show ?thesis
  proof (elim disjE exE conjE)
    assume "subseq (pending w') (pending w)"
    then show ?thesis
      using catching_up_history [OF catching_up_less [OF up] H'] same(1) by (simp add: order_ok_def subseq_map)
  next
    fix s assume "pending w' = pending w @ [s]" "pc_history (wh_control w') = pc_history (wh_control w) @ [s]"
    then show ?thesis using catching_up_grow [OF up, of "to_pb_snapshot s"] same(1) by (simp add: order_ok_def)
  qed
qed

text \<open>A call of \<open>Watch\<close> starts with the last snapshot of the history.\<close>

lemma calls_watch_ok:
  assumes "hub_ok (wh_control w)" "order_ok w" "hub_add (pc_hub (wh_control w)) = (i, lst, h)"
    and v: "v = w\<lparr>wh_control := (wh_control w)\<lparr>pc_hub := h, pc_watches := (pc_watches (wh_control w))
           (i \<mapsto> \<lparr>wa_initial = Some lst, wa_sent = [], wa_dropped = False\<rparr>)\<rparr>,
         wh_stream := Some i, wh_wire := [], wh_read := 0\<rparr>"
  shows "wire_ok v \<and> order_ok v"
proof
  show "wire_ok v" using assms(3) by (auto simp: wire_ok_def v hub_add_def)
  have "pending v = (if pc_history (wh_control w) = [] then [] else [last (pc_history (wh_control w))])"
    using stream_of_connect [OF assms(1,3)] by (simp add: pending_def v)
  moreover have "subseq (remdups_adj (gm_received (wh_data w))) (map to_pb_snapshot (pc_history (wh_control w)))"
    using assms(2) by (auto simp: order_ok_def intro: catching_up_order)
  from catching_up_start [OF this] have "catching_up (gm_received (wh_data w))
      (map to_pb_snapshot (if pc_history (wh_control w) = [] then [] else [last (pc_history (wh_control w))]))
      (map to_pb_snapshot (pc_history (wh_control w)))"
    by (cases "pc_history (wh_control w) = []") (simp_all add: last_map)
  ultimately show "order_ok v" by (simp add: order_ok_def v)
qed

lemma reads_ok:
  assumes "wire_ok w" "order_ok w" "wh_stream w \<noteq> None" "wh_read w < length (wh_wire w)"
    "gm_received n = gm_received (wh_data w) @ [to_pb_snapshot (wh_wire w ! wh_read w)]"
    and v: "v = w\<lparr>wh_data := n, wh_read := Suc (wh_read w)\<rparr>"
  shows "wire_ok v \<and> order_ok v"
proof
  from assms(3) obtain i where i: "wh_stream w = Some i" by blast
  show "wire_ok v"
    using assms(1,4,5) i by (auto simp: wire_ok_def v take_Suc_conv_app_nth suffix_def)
  have "pending w = (wh_wire w ! wh_read w) # pending v"
  proof (cases "pc_watches (wh_control w) i")
    case None
    then show ?thesis using i assms(4) by (simp add: pending_def v Cons_nth_drop_Suc)
  next
    case (Some u)
    then have "wa_sent u = wh_wire w" using assms(1) i by (simp add: wire_ok_def)
    then show ?thesis using Some i assms(4) by (simp add: pending_def v stream_of_def flip: Cons_nth_drop_Suc)
  qed
  then have "catching_up (gm_received (wh_data w)) (to_pb_snapshot (wh_wire w ! wh_read w) # map to_pb_snapshot (pending v))
      (map to_pb_snapshot (pc_history (wh_control w)))"
    using assms(2) by (simp add: order_ok_def)
  from catching_up_read [OF this] show "order_ok v" using assms(5) by (simp add: order_ok_def v)
qed

lemma data_plane_ok:
  assumes "wire_ok w" "order_ok w" "gm_received n = gm_received (wh_data w)"
    and v: "v = w\<lparr>wh_data := n, wh_stream := (if in_call (gm_phase n) then wh_stream w else None)\<rparr>"
  shows "wire_ok v \<and> order_ok v"
proof
  show "wire_ok v" using assms(1,3) by (auto simp: wire_ok_def v split: option.splits)
  have "subseq (pending v) (pending w)" by (auto simp: pending_def v split: option.split)
  then have "subseq (map to_pb_snapshot (pending v)) (map to_pb_snapshot (pending w))" by (rule subseq_map)
  from catching_up_less [OF assms(2) [unfolded order_ok_def] this] assms(3) show "order_ok v"
    by (simp add: order_ok_def v)
qed

lemma reconcile_source:
  assumes "\<forall>m. mset (range_map m) = mset m" and "k_ingresses k (rc_ingress_class r) = Some ings"
    and "reconcile srt range_map k x unmarshal addr now r = (Broadcast snap, r')"
  shows "built_from srt snap (parse_endpoints k x unmarshal addr ings)"
proof -
  have "to_snapshot srt range_map x now (rc_ingress_class r) (parse_endpoints k x unmarshal addr ings) = Some snap"
    using assms(2,3) by (auto simp: reconcile_def split: option.splits if_splits)
  with assms(1) show ?thesis unfolding built_from_def by blast
qed

lemma whole_inv_step:
  assumes "whole_step srt dm lib pem controller_addr w v" "whole_inv srt dm lib pem controller_addr w"
  shows "whole_inv srt dm lib pem controller_addr v"
  using assms(1)
proof (cases rule: whole_step.cases)
  case (reconciles range_map k ings x unmarshal addr now snap r q)
  have "built_from srt snap (parse_endpoints k x unmarshal addr ings)" using reconciles(2,3,4) by (rule reconcile_source)
  then show ?thesis using reconciles(1,5,6) assms(2) control_inv_step [OF reconciles(5)]
      wire_ok_control [of w v] order_ok_control [of w v]
    by (auto simp: whole_inv_def control_inv_def intro: list_all2_appendI)
next
  case (delivers q)
  then show ?thesis using assms(2) control_inv_step [OF delivers(2)]
      wire_ok_control [of w v] order_ok_control [of w v]
    by (auto simp: whole_inv_def control_inv_def)
next
  case (calls_watch i lst h)
  have "control_inv (wh_control v)"
    using calls_watch(1) control_inv_step [OF connect [OF calls_watch(3)]] assms(2) by (simp add: whole_inv_def)
  then show ?thesis using calls_watch_ok [OF _ _ calls_watch(3,1)] assms(2) calls_watch(1)
    by (simp add: whole_inv_def control_inv_def)
next
  case (reads n)
  then show ?thesis using reads_ok [OF _ _ reads(2,3,5,1)] assms(2)
    by (auto simp: whole_inv_def intro: run stream_task)
next
  case (data_plane n)
  then show ?thesis using data_plane_ok [OF _ _ data_plane(3,1)] assms(2)
    by (auto simp: whole_inv_def intro: run)
qed

lemma init_empty: "gm_received manager_init = []" "pc_history control_init = []"
  by (simp_all add: manager_init_def control_init_def)

lemma whole_inv_reachable:
  "whole_reachable srt dm lib pem controller_addr ingress_class w \<Longrightarrow> whole_inv srt dm lib pem controller_addr w"
proof (induction rule: whole_reachable.induct)
  case whole_start
  show ?case
    using control_inv_reachable [OF control_start]
    by (simp add: whole_inv_def whole_init_def start wire_ok_def order_ok_def pending_def catching_up_def init_empty)
next
  case (whole_run w v)
  then show ?case by (blast intro: whole_inv_step)
qed

section \<open>What the data plane serves\<close>

text \<open>
  C4: the data plane never goes back in time.  In every reachable state of the whole system,
  through lost streams, reconnections and dropped updates, the snapshots the data plane has
  received are, up to the repetition of the one it had when it reconnected, a part of the
  snapshots the control plane has broadcast, in their order.
\<close>

theorem never_back_in_time:
  assumes "whole_reachable srt dm lib pem controller_addr ingress_class w"
  shows "subseq (remdups_adj (gm_received (wh_data w))) (map to_pb_snapshot (pc_history (wh_control w)))"
  using whole_inv_reachable [OF assms] by (auto simp: whole_inv_def order_ok_def intro: catching_up_order)

lemma last_received:
  assumes "whole_inv srt dm lib pem controller_addr w" and "snap \<in> set (gm_received (wh_data w))"
  shows "\<exists>s \<in> set (pc_history (wh_control w)). snap = to_pb_snapshot s"
proof -
  have "subseq (remdups_adj (gm_received (wh_data w))) (map to_pb_snapshot (pc_history (wh_control w)))"
    using assms(1) by (auto simp: whole_inv_def order_ok_def intro: catching_up_order)
  from list_emb_set [OF this, of snap] assms(2) show ?thesis by auto
qed

lemma no_ingress:
  "choose_route (fst (route_table_new dm fb snapshot_default s)) host path = None"
  "ingress_choice [] host path = None"
  by (simp_all add: choose_route_best_route best_route_def best_in_host_def host_rules_def snapshot_default_def
      ingress_choice_def path_choice_def declared_def entries_def)

lemma data_config:
  assumes "whole_inv srt dm lib pem controller_addr w"
  shows "config_inv dm lib pem (wh_data w)"
  using assms config.always [of dm lib pem controller_addr "wh_data w"] by (simp add: whole_inv_def)

text \<open>
  The snapshots whose routing table, and whose certificates, have been installed so far:
  all that were received, but for the one being applied.
\<close>

definition table_applied :: "('d, 'k) manager \<Rightarrow> snapshot list" where
  "table_applied m = (case gm_phase m of Write_Table _ \<Rightarrow> butlast (gm_received m) | _ \<Rightarrow> gm_received m)"

definition sni_applied :: "('d, 'k) manager \<Rightarrow> snapshot list" where
  "sni_applied m =
     (case gm_phase m of
        Write_Table _ \<Rightarrow> butlast (gm_received m)
      | Write_Sni _ \<Rightarrow> butlast (gm_received m)
      | _ \<Rightarrow> gm_received m)"

text \<open>
  The targets in force once the snapshots \<open>applied\<close> have been installed: those of a
  reconciliation whose broadcast snapshot is the last of them, and no targets exactly as
  long as none has been installed.
\<close>

definition in_force :: "snapshot list \<Rightarrow> ('d, 'k) whole \<Rightarrow> target_proxy list \<Rightarrow> bool" where
  "in_force applied w targets \<longleftrightarrow>
     (if applied = [] then targets = []
      else \<exists>k < length (pc_history (wh_control w)).
        last applied = to_pb_snapshot (pc_history (wh_control w) ! k) \<and> targets = wh_targets w ! k)"

lemma applied_source:
  "table_source m = last (snapshot_default # table_applied m)" "sni_source m = last (snapshot_default # sni_applied m)"
  by (simp_all add: table_source_def table_applied_def sni_source_def sni_applied_def latest_def previous_def
      split: phase.split)

lemma applied_received:
  "set (table_applied m) \<subseteq> set (gm_received m)" "set (sni_applied m) \<subseteq> set (gm_received m)"
  by (auto simp: table_applied_def sni_applied_def split: phase.splits dest: in_set_butlastD)

lemma in_force_exists:
  assumes "whole_inv srt dm lib pem controller_addr w" and "applied \<noteq> []"
    and "set applied \<subseteq> set (gm_received (wh_data w))"
  obtains ms targets where "in_force applied w targets" "last applied = to_pb_snapshot ms"
    "targets \<in> set (wh_targets w)" "built_from srt ms targets"
proof -
  have "last applied \<in> set (gm_received (wh_data w))" using assms(2,3) last_in_set by blast
  from last_received [OF assms(1) this] obtain ms where
    ms: "ms \<in> set (pc_history (wh_control w))" "last applied = to_pb_snapshot ms" by blast
  then obtain k where k: "k < length (pc_history (wh_control w))" "pc_history (wh_control w) ! k = ms"
    by (auto simp: in_set_conv_nth)
  have all: "list_all2 (built_from srt) (pc_history (wh_control w)) (wh_targets w)"
    using assms(1) by (simp add: whole_inv_def)
  then have "built_from srt ms (wh_targets w ! k)" "wh_targets w ! k \<in> set (wh_targets w)"
    using k list_all2_nthD [OF all k(1)] list_all2_lengthD [OF all] by simp_all
  moreover have "in_force applied w (wh_targets w ! k)" using assms(2) ms(2) k by (auto simp: in_force_def)
  ultimately show thesis using ms(2) that by blast
qed

text \<open>
  C3: the data plane routes by the Ingresses of one reconciliation.  At every moment the
  current table routes every request by the precedence of the paths declared in the
  Ingresses that one reconciliation read, namely one whose snapshot is the last the data
  plane has installed; it routes nothing only as long as it has installed none.  Declared
  hosts must be in lower case and declared paths shorter than a million bytes.  The table
  never mixes two configurations.
\<close>

theorem routes_by_reconciliation:
  assumes "whole_reachable srt dm lib pem controller_addr ingress_class w" and "slice_sort (sort_routes srt)"
    and "\<forall>targets \<in> set (wh_targets w). admitted targets"
  shows "\<exists>targets. in_force (table_applied (wh_data w)) w targets \<and> (\<forall>host path.
    map_option (\<lambda>r. (rr_path r, rr_path_type r, rr_cluster r)) (choose_route (pl_table (gm_plane (wh_data w))) host path)
      = ingress_choice targets host path)"
proof -
  note inv = whole_inv_reachable [OF assms(1)]
  have "table_from dm lib (table_source (wh_data w)) (pl_table (gm_plane (wh_data w)))"
    using data_config [OF inv] by (simp add: config_inv_def)
  then obtain s where t: "pl_table (gm_plane (wh_data w))
      = fst (route_table_new dm (header_name_from_bytes lib) (last (snapshot_default # table_applied (wh_data w))) s)"
    by (auto simp: table_from_def applied_source)
  show ?thesis
  proof (cases "table_applied (wh_data w) = []")
    case True
    then show ?thesis unfolding t by (intro exI [of _ "[]"]) (simp add: no_ingress in_force_def)
  next
    case False
    from in_force_exists [OF inv False applied_received(1)] obtain ms targets where
      f: "in_force (table_applied (wh_data w)) w targets" and ms: "last (table_applied (wh_data w)) = to_pb_snapshot ms"
      and ts: "targets \<in> set (wh_targets w)" "built_from srt ms targets" .
    from ts(2) obtain range_map x now cls where r: "\<And>m. mset (range_map m) = mset m"
      "to_snapshot srt range_map x now cls targets = Some ms"
      by (auto simp: built_from_def)
    have "last (snapshot_default # table_applied (wh_data w)) = to_pb_snapshot ms" using False ms by simp
    then show ?thesis unfolding t
      by (intro exI [of _ targets] conjI f allI)
        (simp only: choose_route_ingress [OF assms(2) r bspec [OF assms(3) ts(1)]])
  qed
qed

text \<open>
  C21: when the data plane is up to date.  If it is connected to a running \<open>Watch\<close> call whose
  last offer was not dropped, nothing is on its way, and it has read everything sent, then
  its snapshot is the last one broadcast.
\<close>

theorem up_to_date:
  assumes "whole_reachable srt dm lib pem controller_addr ingress_class w"
    and "wh_stream w = Some i" and "pc_watches (wh_control w) i = Some v" and "\<not> wa_dropped v"
    and "pending w = []" and "pc_history (wh_control w) \<noteq> []"
  shows "latest_snapshot (wh_data w) = to_pb_snapshot (last (pc_history (wh_control w)))"
proof -
  note inv = whole_inv_reachable [OF assms(1)]
  have wire: "wh_read w \<le> length (wh_wire w)" "wa_sent v = wh_wire w"
    "suffix (map to_pb_snapshot (take (wh_read w) (wh_wire w))) (gm_received (wh_data w))"
    using inv assms(2,3) by (simp_all add: whole_inv_def wire_ok_def)
  have "stream_ok (wh_control w) i v" using inv assms(3) by (simp add: whole_inv_def control_inv_def)
  then have st: "stream_of (wh_control w) i v \<noteq> []" "last (stream_of (wh_control w) i v) = last (pc_history (wh_control w))"
    using assms(4,6) by (auto simp: stream_ok_def)
  have "length (stream_of (wh_control w) i v) \<le> wh_read w" using assms(2,3,5) by (simp add: pending_def)
  then have "length (versioned (wa_initial v) @ upcoming (wh_control w) i) = 0" "wh_read w = length (wh_wire w)"
    using wire(1,2) by (simp_all only: stream_of_def length_append)
  then have "stream_of (wh_control w) i v = wh_wire w" "wh_read w = length (wh_wire w)"
    using wire(2) by (simp_all add: stream_of_def)
  with st wire(3) have "gm_received (wh_data w) \<noteq> []"
    "last (gm_received (wh_data w)) = to_pb_snapshot (last (pc_history (wh_control w)))"
    by (auto simp: suffix_def last_map)
  moreover have "gm_snapshot (wh_data w) = latest (wh_data w)"
    using data_config [OF inv] by (simp add: config_inv_def)
  ultimately show ?thesis by (simp add: latest_snapshot_def latest_def)
qed

section \<open>A run\<close>

text \<open>A run of the data plane alone, as long as it has received nothing, is one of the system.\<close>

lemma stream_received_grows: "stream_step dm lib pem controller_addr m n \<Longrightarrow> prefix (gm_received m) (gm_received n)"
  by (induction rule: stream_step.induct) (simp_all add: back_off_def)

lemma received_grows: "manager_step dm lib pem controller_addr m n \<Longrightarrow> prefix (gm_received m) (gm_received n)"
  by (induction rule: manager_step.induct) (simp_all add: stream_received_grows cancel_def watcher_frame)

lemma whole_init_data:
  "wh_data ((whole_init c)\<lparr>wh_data := m\<rparr>) = m" "wh_stream ((whole_init c)\<lparr>wh_data := m\<rparr>) = None"
  "(whole_init c)\<lparr>wh_data := m, wh_data := n, wh_stream := None\<rparr> = (whole_init c)\<lparr>wh_data := n\<rparr>"
  "(whole_init c)\<lparr>wh_data := manager_init\<rparr> = whole_init c"
  by (simp_all add: whole_init_def)

lemma whole_lift:
  "manager_reachable dm lib pem controller_addr m \<Longrightarrow> gm_received m = [] \<Longrightarrow>
   whole_reachable srt dm lib pem controller_addr ingress_class ((whole_init ingress_class)\<lparr>wh_data := m\<rparr>)"
proof (induction rule: manager_reachable.induct)
  case start
  show ?case unfolding whole_init_data by (rule whole_start)
next
  case (run m n)
  let ?w = "(whole_init ingress_class)\<lparr>wh_data := m\<rparr>"
  have m: "gm_received m = []" using received_grows [OF run(2)] run(4) by simp
  have "whole_step srt dm lib pem controller_addr ?w ((whole_init ingress_class)\<lparr>wh_data := n\<rparr>)"
    using data_plane [of dm lib pem controller_addr ?w n srt] run(2,4) m
    unfolding whole_init_data if_cancel by simp
  with run(3) [OF m] show ?case by (rule whole_run)
qed

definition demo_whole ::
  "reconciler \<Rightarrow> plane_control \<Rightarrow> ((endpoint_key \<times> arc) list, unit) manager \<Rightarrow> model_snapshot list \<Rightarrow> nat
    \<Rightarrow> target_proxy list list \<Rightarrow> ((endpoint_key \<times> arc) list, unit) whole" where
  "demo_whole r p m wire rd targets =
     \<lparr>wh_reconciler = r, wh_control = p, wh_data = m, wh_stream = Some 0, wh_wire = wire, wh_read = rd, wh_targets = targets\<rparr>"

abbreviation "demo_whole_reaches \<equiv> whole_reachable go_sorters alist_dash demo_lib no_pem ''https://controller:18000'' ''argon''"

abbreviation "demo_reconciler v s \<equiv> \<lparr>rc_ingress_class = ''argon'', rc_last_version = v, rc_current_snapshot = s\<rparr>"

lemma demo_delivers:
  assumes "demo_whole_reaches (demo_whole r p m wire rd ts)" "control_step p q" "pc_history q = pc_history p"
    "sent_on (Some 0) wire q = wire'"
  shows "demo_whole_reaches (demo_whole r q m wire' rd ts)"
  using assms(1) by (rule whole_run)
    (use delivers [of "demo_whole r p m wire rd ts" q] assms(2-4) in \<open>simp add: demo_whole_def\<close>)

lemma demo_data_plane:
  assumes "demo_whole_reaches (demo_whole r p m wire rd ts)"
    "stream_step alist_dash demo_lib no_pem ''https://controller:18000'' m n"
    "gm_received n = gm_received m" "in_call (gm_phase n)"
  shows "demo_whole_reaches (demo_whole r p n wire rd ts)"
  using assms(1) by (rule whole_run)
    (use data_plane [OF stream_task, of alist_dash demo_lib no_pem "''https://controller:18000''"
        "demo_whole r p m wire rd ts" n go_sorters] assms(2-4) in \<open>simp add: demo_whole_def\<close>)

lemma one_watch_sent [simp]:
  "pc_history (one_watch c l off ini sent d hist) = hist"
  "sent_on (Some 0) wire (one_watch c l off ini sent d hist) = sent"
  by (simp_all add: one_watch_def sent_on_def)

lemma demo_ingresses: "k_ingresses demo_kube c = Some [demo_ingress]"
  by (simp add: demo_kube_def)

lemma demo_reconciles:
  assumes "to_snapshot go_sorters rev demo_crypto 0 ''argon'' demo_targets = Some snap"
  shows "reconcile go_sorters rev demo_kube demo_crypto Map.empty id 0 (demo_reconciler [] empty_snapshot)
    = (Broadcast snap, demo_reconciler ''v1'' snap)" "ms_version snap = ''v1''"
proof -
  show v: "ms_version snap = ''v1''"
    using assms by (auto simp: to_snapshot_def Let_def demo_crypto_def split: option.splits)
  show "reconcile go_sorters rev demo_kube demo_crypto Map.empty id 0 (demo_reconciler [] empty_snapshot)
    = (Broadcast snap, demo_reconciler ''v1'' snap)"
    using assms v demo_ingresses unfolding demo_targets_def by (simp add: reconcile_def)
qed

text \<open>The data plane has read the snapshot, and has installed it.\<close>

definition demo_read :: "snapshot \<Rightarrow> ((endpoint_key \<times> arc) list, unit) manager" where
  "demo_read snap = demo_open\<lparr>gm_phase := Write_Table snap, gm_snapshot := snap, gm_received := [snap]\<rparr>"

definition demo_installs :: "snapshot \<Rightarrow> ((endpoint_key \<times> arc) list, unit) manager" where
  "demo_installs snap = (demo_read snap)\<lparr>gm_phase := Write_Sni snap,
     gm_plane := plane_update alist_dash (header_name_from_bytes demo_lib) snap plane_init\<rparr>"

lemma demo_open_fields:
  "gm_phase demo_open = Streaming False" "gm_received demo_open = []" "gm_plane demo_open = plane_init"
  "gm_phase demo_opening = Opening" "gm_received demo_opening = []"
  by (simp_all add: demo_simps demo_opening_def)

lemma demo_connected:
  "demo_whole_reaches (demo_whole (demo_reconciler [] empty_snapshot)
     (one_watch None empty_snapshot None None [] False []) demo_open [] 0 [])"
proof -
  let ?w = "(whole_init ''argon'')\<lparr>wh_data := demo_opening\<rparr> :: ((endpoint_key \<times> arc) list, unit) whole"
  have "demo_whole_reaches ?w"
    using demo_opening_reachable demo_open_fields(5) by (rule whole_lift)
  moreover have "whole_step go_sorters alist_dash demo_lib no_pem ''https://controller:18000'' ?w
      (demo_whole (demo_reconciler [] empty_snapshot)
        (one_watch None empty_snapshot None (Some empty_snapshot) [] False []) demo_opening [] 0 [])"
    using calls_watch [of ?w 0 empty_snapshot "\<lparr>hb_next = 1, hb_cons = [0 \<mapsto> None], hb_last = empty_snapshot\<rparr>"
        go_sorters alist_dash demo_lib no_pem "''https://controller:18000''"]
    by (simp add: whole_init_def demo_open_fields one_watch_add demo_whole_def one_watch_def)
      (simp add: control_init_def)
  ultimately have "demo_whole_reaches (demo_whole (demo_reconciler [] empty_snapshot)
      (one_watch None empty_snapshot None (Some empty_snapshot) [] False []) demo_opening [] 0 [])"
    by (rule whole_run)
  then have "demo_whole_reaches (demo_whole (demo_reconciler [] empty_snapshot)
      (one_watch None empty_snapshot None None [] False []) demo_opening [] 0 [])"
    by (rule demo_delivers [OF _ one_watch_initial]) simp_all
  then show ?thesis
    by (rule demo_data_plane [OF _ demo_opens]) (simp_all add: demo_open_fields in_call_def)
qed

lemma demo_delivered:
  assumes "to_snapshot go_sorters rev demo_crypto 0 ''argon'' demo_targets = Some snap"
  shows "demo_whole_reaches (demo_whole (demo_reconciler ''v1'' snap)
     (one_watch None snap None None [snap] False [snap]) (demo_installs (to_pb_snapshot snap)) [snap] 1 [demo_targets])"
proof -
  let ?r = "demo_reconciler ''v1'' snap" and ?ow = "\<lambda>c off sent. one_watch c snap off None sent False [snap]"
  note rec = demo_reconciles [OF assms]
  let ?w = "demo_whole (demo_reconciler [] empty_snapshot) (one_watch None empty_snapshot None None [] False []) demo_open [] 0 []"
  have b: "control_step (one_watch None empty_snapshot None None [] False []) (?ow None (Some (snap, {0})) [])"
    using one_watch_broadcast [of snap None empty_snapshot None "[]" False "[]"] rec(2) by simp
  have "whole_step go_sorters alist_dash demo_lib no_pem ''https://controller:18000'' ?w
      (demo_whole ?r (?ow None (Some (snap, {0})) []) demo_open [] 0 [demo_targets])"
    using reconciles [of rev demo_kube ?w "[demo_ingress]" go_sorters demo_crypto Map.empty id 0 snap ?r
        "?ow None (Some (snap, {0})) []" alist_dash demo_lib no_pem "''https://controller:18000''"] rec(1) b
    unfolding demo_targets_def by (simp add: demo_whole_def demo_ingresses)
  with demo_connected have "demo_whole_reaches (demo_whole ?r (?ow None (Some (snap, {0})) []) demo_open [] 0 [demo_targets])"
    by (rule whole_run)
  then have "demo_whole_reaches (demo_whole ?r (?ow (Some snap) (Some (snap, {})) []) demo_open [] 0 [demo_targets])"
    using demo_delivers [OF _ one_watch_offer [of None]] by fastforce
  then have "demo_whole_reaches (demo_whole ?r (?ow (Some snap) None []) demo_open [] 0 [demo_targets])"
    by (rule demo_delivers [OF _ one_watch_done]) simp_all
  then have sent: "demo_whole_reaches (demo_whole ?r (?ow None None [snap]) demo_open [snap] 0 [demo_targets])"
    using demo_delivers [OF _ one_watch_receive [of snap snap None "[]"]] by fastforce
  let ?s = "to_pb_snapshot snap"
  have "stream_step alist_dash demo_lib no_pem ''https://controller:18000'' demo_open (demo_read ?s)"
    using message [of demo_open False alist_dash demo_lib no_pem "''https://controller:18000''" ?s]
    by (simp add: demo_open_fields demo_read_def)
  then have "whole_step go_sorters alist_dash demo_lib no_pem ''https://controller:18000''
      (demo_whole ?r (?ow None None [snap]) demo_open [snap] 0 [demo_targets])
      (demo_whole ?r (?ow None None [snap]) (demo_read ?s) [snap] 1 [demo_targets])"
    using reads [of "demo_whole ?r (?ow None None [snap]) demo_open [snap] 0 [demo_targets]" alist_dash demo_lib no_pem
        "''https://controller:18000''" "demo_read ?s" go_sorters]
    by (simp add: demo_whole_def demo_open_fields demo_read_def)
  with sent have "demo_whole_reaches (demo_whole ?r (?ow None None [snap]) (demo_read ?s) [snap] 1 [demo_targets])"
    by (rule whole_run)
  moreover have "stream_step alist_dash demo_lib no_pem ''https://controller:18000'' (demo_read ?s) (demo_installs ?s)"
    using write_table [of "demo_read ?s" ?s alist_dash demo_lib no_pem "''https://controller:18000''"]
    by (simp add: demo_read_def demo_installs_def demo_open_fields plane_init_def)
  ultimately show ?thesis
    by (rule demo_data_plane) (simp_all add: demo_read_def demo_installs_def in_call_def)
qed

theorem never_back_in_time_witness:
  "\<exists>snap. subseq [to_pb_snapshot snap] [to_pb_snapshot snap] \<and> demo_whole_reaches (demo_whole (demo_reconciler ''v1'' snap)
     (one_watch None snap None None [snap] False [snap]) (demo_installs (to_pb_snapshot snap)) [snap] 1 [demo_targets])"
proof -
  obtain snap where snap: "to_snapshot go_sorters rev demo_crypto 0 ''argon'' demo_targets = Some snap"
    by (rule demo_targets_snapshot)
  from never_back_in_time [OF demo_delivered [OF this]] demo_delivered [OF snap] show ?thesis
    by (intro exI [of _ snap]) (simp add: demo_whole_def demo_installs_def demo_read_def)
qed

theorem routes_by_reconciliation_witness:
  "\<exists>snap. \<forall>host path.
     map_option (\<lambda>r. (rr_path r, rr_path_type r, rr_cluster r))
       (choose_route (pl_table (gm_plane (demo_installs (to_pb_snapshot snap)))) host path)
     = ingress_choice demo_targets host path"
proof -
  obtain snap where snap: "to_snapshot go_sorters rev demo_crypto 0 ''argon'' demo_targets = Some snap"
    by (rule demo_targets_snapshot)
  have "table_applied (demo_installs (to_pb_snapshot snap)) = [to_pb_snapshot snap]"
    by (simp add: table_applied_def demo_installs_def demo_read_def)
  with routes_by_reconciliation [OF demo_delivered [OF snap] slice_sort_go(1)] show ?thesis
    by (intro exI [of _ snap]) (auto simp: demo_whole_def demo_targets_admitted in_force_def)
qed

theorem up_to_date_witness:
  "\<exists>snap. latest_snapshot (demo_installs (to_pb_snapshot snap)) = to_pb_snapshot snap"
proof -
  obtain snap where snap: "to_snapshot go_sorters rev demo_crypto 0 ''argon'' demo_targets = Some snap"
    by (rule demo_targets_snapshot)
  from up_to_date [OF demo_delivered [OF this], of 0 "\<lparr>wa_initial = None, wa_sent = [snap], wa_dropped = False\<rparr>"]
  show ?thesis
    by (intro exI [of _ snap]) (simp add: demo_whole_def one_watch_def pending_def stream_of_def upcoming_def)
qed

end
