(* ===== verification/Recovery.thy ===== *)
theory Recovery
  imports Whole_System
begin

text \<open>
  A data plane that has fallen behind is never stuck.  Whatever has happened to it, its stream
  and its key files, as long as it has not been cancelled there is a run of both planes after
  which it has installed the last snapshot broadcast.
\<close>

section \<open>Runs of the data plane on its own\<close>

text \<open>A step in which the data plane receives nothing.\<close>

definition own_step ::
  "'d counters \<Rightarrow> ('h, 'u) http_lib \<Rightarrow> 'k pem_lib \<Rightarrow> string \<Rightarrow> ('d, 'k) manager \<Rightarrow> ('d, 'k) manager \<Rightarrow> bool" where
  "own_step dm lib pem controller_addr m n \<longleftrightarrow>
     manager_step dm lib pem controller_addr m n \<and> gm_received n = gm_received m"

abbreviation "own_run dm lib pem controller_addr \<equiv> (own_step dm lib pem controller_addr)\<^sup>*\<^sup>*"

abbreviation "whole_run_to srt dm lib pem controller_addr \<equiv> (whole_step srt dm lib pem controller_addr)\<^sup>*\<^sup>*"

lemma own_stream:
  "stream_step dm lib pem controller_addr m n \<Longrightarrow> gm_received n = gm_received m \<Longrightarrow> own_step dm lib pem controller_addr m n"
  by (simp add: own_step_def stream_task)

lemma own_watcher: "watcher_step m n \<Longrightarrow> own_step dm lib pem controller_addr m n"
  by (simp add: own_step_def watcher_task watcher_frame)

lemma own_run_whole:
  assumes "own_run dm lib pem controller_addr (wh_data w) n"
  shows "\<exists>stream. whole_run_to srt dm lib pem controller_addr w (w\<lparr>wh_data := n, wh_stream := stream\<rparr>)"
  using assms
proof (induction rule: rtranclp_induct)
  case base
  show ?case by (intro exI [of _ "wh_stream w"]) simp
next
  case (step m n)
  then obtain stream where "whole_run_to srt dm lib pem controller_addr w (w\<lparr>wh_data := m, wh_stream := stream\<rparr>)" by blast
  moreover have "whole_step srt dm lib pem controller_addr (w\<lparr>wh_data := m, wh_stream := stream\<rparr>)
      (w\<lparr>wh_data := n, wh_stream := if in_call (gm_phase n) then stream else None\<rparr>)"
    using data_plane [of dm lib pem controller_addr "w\<lparr>wh_data := m, wh_stream := stream\<rparr>" n srt] step(2)
    by (cases "in_call (gm_phase n)") (simp_all add: own_step_def)
  ultimately show ?case by (blast intro: rtranclp.rtrancl_into_rtrancl)
qed

text \<open>A task stops only after the manager is cancelled.\<close>

interpretation alive: manager_invariant dm lib pem controller_addr
  "\<lambda>m. gm_cancelled m \<or> gm_phase m \<noteq> Stopped \<and> gm_watcher m \<noteq> Watch_Stopped"
  for dm lib pem controller_addr
proof
  fix m n :: "('a, 'd) manager"
  assume inv: "gm_cancelled m \<or> gm_phase m \<noteq> Stopped \<and> gm_watcher m \<noteq> Watch_Stopped"
  show "gm_cancelled n \<or> gm_phase n \<noteq> Stopped \<and> gm_watcher n \<noteq> Watch_Stopped"
    if "stream_step dm lib pem controller_addr m n"
    using that inv by (cases rule: stream_step.cases) (auto simp: back_off_def)
  show "gm_cancelled n \<or> gm_phase n \<noteq> Stopped \<and> gm_watcher n \<noteq> Watch_Stopped"
    if "watcher_step m n"
    using that inv by (cases rule: watcher_step.cases) auto
qed (auto simp: manager_init_def cancel_def)

text \<open>The requests that hold the lock of the table can let go of it.\<close>

lemma free_lock: "\<exists>p. own_run dm lib pem controller_addr m (m\<lparr>gm_plane := p\<rparr>) \<and> pl_selected p = {#}"
proof (induction "size (pl_selected (gm_plane m))" arbitrary: m)
  case 0
  then show ?case by (intro exI [of _ "gm_plane m"]) simp
next
  case (Suc k)
  then obtain c where c: "c \<in># pl_selected (gm_plane m)" by (metis size_eq_Suc_imp_elem)
  define q where "q = (gm_plane m)\<lparr>pl_store := guard_new c (pl_store (gm_plane m)),
    pl_selected := pl_selected (gm_plane m) - {#c#}, pl_active := add_mset c (pl_active (gm_plane m))\<rparr>"
  have "own_step dm lib pem controller_addr m (m\<lparr>gm_plane := q\<rparr>)"
    using request_task [OF acquire [OF c]] by (simp add: own_step_def q_def)
  moreover have "k = size (pl_selected (gm_plane (m\<lparr>gm_plane := q\<rparr>)))"
    using Suc(2) c by (simp add: q_def size_Diff_singleton)
  from Suc(1) [OF this] obtain p where "own_run dm lib pem controller_addr (m\<lparr>gm_plane := q\<rparr>) (m\<lparr>gm_plane := p\<rparr>)"
    "pl_selected p = {#}" by auto
  ultimately show ?case by (blast intro: converse_rtranclp_into_rtranclp)
qed

text \<open>With the lock free the stream task can go back to the head of its loop.\<close>

fun phase_rank :: "phase \<Rightarrow> nat" where
  "phase_rank Loop_Head = 0"
| "phase_rank Backing_Off = 1"
| "phase_rank (Streaming _) = 2"
| "phase_rank Opening = 2"
| "phase_rank (Dialing _ _ _) = 2"
| "phase_rank (Write_Sni _) = 3"
| "phase_rank (Load_Key _ _) = 3"
| "phase_rank (Write_Table _) = 4"
| "phase_rank (Load_Client _) = 4"
| "phase_rank Stopped = 5"

definition going :: "('d, 'k) manager \<Rightarrow> bool" where
  "going m \<longleftrightarrow> \<not> gm_cancelled m \<and> gm_phase m \<noteq> Stopped \<and> gm_watcher m \<noteq> Watch_Stopped \<and> pl_selected (gm_plane m) = {#}"

lemma back_via:
  "stream_step dm lib pem controller_addr m n \<Longrightarrow> gm_received n = gm_received m \<Longrightarrow> going n \<Longrightarrow>
   phase_rank (gm_phase n) < phase_rank (gm_phase m) \<Longrightarrow>
   \<exists>n. own_step dm lib pem controller_addr m n \<and> going n \<and> phase_rank (gm_phase n) < phase_rank (gm_phase m)"
  by (blast intro: own_stream)

lemma back_one:
  assumes "going m" "gm_phase m \<noteq> Loop_Head"
  shows "\<exists>n. own_step dm lib pem controller_addr m n \<and> going n \<and> phase_rank (gm_phase n) < phase_rank (gm_phase m)"
proof (cases "gm_phase m")
  case (Load_Client ca)
  show ?thesis
    by (rule back_via [OF load_client [OF Load_Client]]) (use assms Load_Client in \<open>simp_all add: going_def back_off_def\<close>)
next
  case (Load_Key ca client)
  show ?thesis
    by (rule back_via [OF load_key [OF Load_Key]]) (use assms Load_Key in \<open>simp_all add: going_def back_off_def\<close>)
next
  case (Dialing ca client key)
  show ?thesis
    by (rule back_via [OF dial_failed [OF Dialing]]) (use assms Dialing in \<open>simp_all add: going_def back_off_def\<close>)
next
  case Opening
  show ?thesis
    by (rule back_via [OF open_failed [OF Opening]]) (use assms Opening in \<open>simp_all add: going_def back_off_def\<close>)
next
  case (Streaming b)
  show ?thesis
    by (rule back_via [OF stream_ended [OF Streaming]]) (use assms Streaming in \<open>simp_all add: going_def back_off_def\<close>)
next
  case (Write_Table snap)
  show ?thesis
    by (rule back_via [OF write_table [OF Write_Table]]) (use assms Write_Table in \<open>simp_all add: going_def back_off_def\<close>)
next
  case (Write_Sni snap)
  show ?thesis
    by (rule back_via [OF write_sni [OF Write_Sni]]) (use assms Write_Sni in \<open>simp_all add: going_def back_off_def\<close>)
next
  case Backing_Off
  show ?thesis
    by (rule back_via [OF wake [OF Backing_Off]]) (use assms Backing_Off in \<open>simp_all add: going_def back_off_def\<close>)
qed (use assms in \<open>simp_all add: going_def\<close>)

lemma back_to_head:
  "going m \<Longrightarrow> \<exists>n. own_run dm lib pem controller_addr m n \<and> going n \<and> gm_phase n = Loop_Head"
proof (induction "phase_rank (gm_phase m)" arbitrary: m rule: less_induct)
  case less
  show ?case
  proof (cases "gm_phase m = Loop_Head")
    case False
    from back_one [OF less(2) this] obtain n where n: "own_step dm lib pem controller_addr m n" "going n"
      "phase_rank (gm_phase n) < phase_rank (gm_phase m)" by blast
    from less(1) [OF n(3,2)] n(1) show ?thesis by (blast intro: converse_rtranclp_into_rtranclp)
  qed (use less(2) in blast)
qed

text \<open>The certificate task can read the three files.\<close>

lemma load_fresh:
  obtains changed target where "try_load_and_store (Some ''x'') t = (changed, target)" "target \<noteq> []"
  by (cases "t = ''x''") (auto simp: try_load_and_store_def bytes_eq_def)

lemma read_client:
  assumes "going m" "gm_watcher m = Watch_Client"
  shows "\<exists>n. own_step dm lib pem controller_addr m n \<and> going n \<and> gm_watcher n = Watch_Key
    \<and> gm_phase n = gm_phase m \<and> gm_ca n = gm_ca m \<and> gm_client n \<noteq> []"
proof -
  obtain changed target where t: "try_load_and_store (Some ''x'') (gm_client m) = (changed, target)" "target \<noteq> []"
    by (rule load_fresh)
  show ?thesis
    by (intro exI conjI, rule own_watcher [OF watch_client [OF assms(2) t(1)]])
      (use assms(1) t(2) in \<open>simp_all add: going_def\<close>)
qed

lemma read_key:
  assumes "going m" "gm_watcher m = Watch_Key"
  shows "\<exists>n. own_step dm lib pem controller_addr m n \<and> going n \<and> gm_watcher n = Watch_Sleep
    \<and> gm_phase n = gm_phase m \<and> gm_ca n = gm_ca m \<and> gm_client n = gm_client m \<and> gm_key n \<noteq> []"
proof -
  obtain changed target where t: "try_load_and_store (Some ''x'') (gm_key m) = (changed, target)" "target \<noteq> []"
    by (rule load_fresh)
  show ?thesis
    by (intro exI conjI, rule own_watcher [OF watch_key [OF assms(2) t(1)]])
      (use assms(1) t(2) in \<open>simp_all add: going_def\<close>)
qed

lemma read_ca:
  assumes "going m" "gm_watcher m = Watch_Sleep"
  shows "\<exists>n. own_step dm lib pem controller_addr m n \<and> going n \<and> gm_watcher n = Watch_Client
    \<and> gm_phase n = gm_phase m \<and> gm_ca n \<noteq> []"
proof -
  obtain changed target where t: "try_load_and_store (Some ''x'') (gm_ca m) = (changed, target)" "target \<noteq> []"
    by (rule load_fresh)
  show ?thesis
    by (intro exI conjI, rule own_watcher [OF watch_ca [OF assms(2) t(1)]])
      (use assms(1) t(2) in \<open>simp_all add: going_def\<close>)
qed

lemma read_until_sleep:
  assumes "going m"
  shows "\<exists>n. own_run dm lib pem controller_addr m n \<and> going n \<and> gm_watcher n = Watch_Sleep \<and> gm_phase n = gm_phase m"
proof (cases "gm_watcher m")
  case Watch_Client
  from read_client [OF assms this] obtain n where n: "own_step dm lib pem controller_addr m n" "going n"
    "gm_watcher n = Watch_Key" "gm_phase n = gm_phase m" by blast
  from read_key [OF n(2,3)] n(1,4) show ?thesis
    by (metis converse_rtranclp_into_rtranclp r_into_rtranclp)
next
  case Watch_Key
  from read_key [OF assms this] show ?thesis by (metis r_into_rtranclp)
qed (use assms in \<open>auto simp: going_def\<close>)

lemma read_files:
  assumes "going m"
  shows "\<exists>n. own_run dm lib pem controller_addr m n \<and> going n \<and> gm_phase n = gm_phase m
    \<and> gm_ca n \<noteq> [] \<and> gm_client n \<noteq> [] \<and> gm_key n \<noteq> []"
proof -
  from read_until_sleep [OF assms] obtain a where a: "own_run dm lib pem controller_addr m a" "going a"
    "gm_watcher a = Watch_Sleep" "gm_phase a = gm_phase m" by blast
  from read_ca [OF a(2,3)] obtain b where b: "own_step dm lib pem controller_addr a b" "going b"
    "gm_watcher b = Watch_Client" "gm_phase b = gm_phase a" "gm_ca b \<noteq> []" by blast
  from read_client [OF b(2,3)] obtain c where c: "own_step dm lib pem controller_addr b c" "going c"
    "gm_watcher c = Watch_Key" "gm_phase c = gm_phase b" "gm_ca c = gm_ca b" "gm_client c \<noteq> []" by blast
  from read_key [OF c(2,3)] obtain d where d: "own_step dm lib pem controller_addr c d" "going d"
    "gm_phase d = gm_phase c" "gm_ca d = gm_ca c" "gm_client d = gm_client c" "gm_key d \<noteq> []" by blast
  have "own_run dm lib pem controller_addr m d"
    using a(1) b(1) c(1) d(1) by (meson rtranclp.rtrancl_into_rtrancl)
  with d b(4,5) c(4,5,6) a(4) show ?thesis by (intro exI [of _ d]) simp
qed

text \<open>With key material and a valid address the stream task can come to open a stream.\<close>

lemma dial:
  assumes "going m" "gm_phase m = Loop_Head" "gm_ca m \<noteq> []" "gm_client m \<noteq> []" "gm_key m \<noteq> []"
    and uri: "uri_from_str lib controller_addr = Some uri" "uri_host lib uri = Some host"
  shows "own_run dm lib pem controller_addr m (m\<lparr>gm_phase := Opening, gm_backoff := backoff_init\<rparr>)"
proof -
  let ?step = "own_step dm lib pem controller_addr"
  let ?k = "m\<lparr>gm_phase := Dialing (gm_ca m) (gm_client m) (gm_key m)\<rparr>"
  have 1: "?step m (m\<lparr>gm_phase := Load_Client (gm_ca m)\<rparr>)"
    by (rule own_stream [OF load_ca]) (use assms in \<open>simp_all add: going_def\<close>)
  have 2: "?step (m\<lparr>gm_phase := Load_Client (gm_ca m)\<rparr>) (m\<lparr>gm_phase := Load_Key (gm_ca m) (gm_client m)\<rparr>)"
    using own_stream [OF load_client [of "m\<lparr>gm_phase := Load_Client (gm_ca m)\<rparr>" "gm_ca m"]] by simp
  have 3: "?step (m\<lparr>gm_phase := Load_Key (gm_ca m) (gm_client m)\<rparr>) ?k"
    using own_stream [OF load_key [of "m\<lparr>gm_phase := Load_Key (gm_ca m) (gm_client m)\<rparr>" "gm_ca m" "gm_client m"]] by simp
  have "connect_checks lib controller_addr (gm_ca m) (gm_client m) (gm_key m) = Inr host"
    using assms by (simp add: connect_checks_def)
  then have 4: "?step ?k (m\<lparr>gm_phase := Opening, gm_backoff := backoff_init\<rparr>)"
    using own_stream [OF dial_ok [of ?k "gm_ca m" "gm_client m" "gm_key m"]] by simp
  show ?thesis using 1 2 3 4 by (meson converse_rtranclp_into_rtranclp r_into_rtranclp)
qed

lemma can_open:
  assumes "manager_reachable dm lib pem controller_addr m" and "\<not> gm_cancelled m"
    and uri: "uri_from_str lib controller_addr = Some uri" "uri_host lib uri = Some host"
  shows "\<exists>n. own_run dm lib pem controller_addr m n \<and> going n \<and> gm_phase n = Opening"
proof -
  obtain p where p: "own_run dm lib pem controller_addr m (m\<lparr>gm_plane := p\<rparr>)" "pl_selected p = {#}"
    using free_lock by blast
  then have "going (m\<lparr>gm_plane := p\<rparr>)" using alive.always [OF assms(1)] assms(2) by (simp add: going_def)
  from back_to_head [OF this] obtain a where a: "own_run dm lib pem controller_addr (m\<lparr>gm_plane := p\<rparr>) a" "going a"
    "gm_phase a = Loop_Head" by blast
  from read_files [OF a(2)] obtain b where b: "own_run dm lib pem controller_addr a b" "going b" "gm_phase b = gm_phase a"
    "gm_ca b \<noteq> []" "gm_client b \<noteq> []" "gm_key b \<noteq> []" by blast
  let ?n = "b\<lparr>gm_phase := Opening, gm_backoff := backoff_init\<rparr>"
  have "own_run dm lib pem controller_addr b ?n" using b a(3) uri by (intro dial) simp_all
  with p(1) a(1) b(1) have "own_run dm lib pem controller_addr m ?n" by (meson rtranclp_trans)
  moreover have "going ?n" using b(2) by (simp add: going_def)
  ultimately show ?thesis by (intro exI [of _ ?n]) simp
qed

section \<open>Catching up\<close>

lemma whole_reachable_run:
  "whole_run_to srt dm lib pem controller_addr w v \<Longrightarrow> whole_reachable srt dm lib pem controller_addr ingress_class w \<Longrightarrow>
   whole_reachable srt dm lib pem controller_addr ingress_class v"
  by (induction rule: rtranclp_induct) (blast intro: whole_run)+

text \<open>The new stream carries the last snapshot first.\<close>

lemma new_stream:
  assumes "control_inv (wh_control w)" and "pc_history (wh_control w) \<noteq> []" and "gm_phase (wh_data w) = Opening"
  obtains C i where "pc_history C = pc_history (wh_control w)"
    and "whole_run_to srt dm lib pem controller_addr w
      (w\<lparr>wh_control := C, wh_stream := Some i, wh_wire := [last (pc_history (wh_control w))], wh_read := 0\<rparr>)"
proof -
  let ?C = "wh_control w" and ?L = "last (pc_history (wh_control w))"
  let ?i = "hb_next (pc_hub ?C)"
  obtain h where add: "hub_add (pc_hub ?C) = (?i, hb_last (pc_hub ?C), h)" by (simp add: hub_add_def)
  have hub: "hb_last (pc_hub ?C) = ?L" "ms_version ?L \<noteq> []"
    using assms(1,2) by (auto simp: control_inv_def hub_ok_def)
  define D where "D = ?C\<lparr>pc_hub := h, pc_watches := (pc_watches ?C)
    (?i \<mapsto> \<lparr>wa_initial = Some ?L, wa_sent = [], wa_dropped = False\<rparr>)\<rparr>"
  define E where "E = D\<lparr>pc_watches := (pc_watches D)(?i \<mapsto> \<lparr>wa_initial = None, wa_sent = [?L], wa_dropped = False\<rparr>)\<rparr>"
  let ?w = "w\<lparr>wh_control := D, wh_stream := Some ?i, wh_wire := [], wh_read := 0\<rparr>"
  have "whole_step srt dm lib pem controller_addr w ?w"
    using calls_watch [OF assms(3) add] by (simp add: D_def hub(1))
  moreover have "control_step D E"
    using send_initial [of D ?i "\<lparr>wa_initial = Some ?L, wa_sent = [], wa_dropped = False\<rparr>" ?L] hub(2)
    by (simp add: D_def E_def)
  then have "whole_step srt dm lib pem controller_addr ?w
      (w\<lparr>wh_control := E, wh_stream := Some ?i, wh_wire := [?L], wh_read := 0\<rparr>)"
    using delivers [of ?w E srt dm lib pem controller_addr] by (cases w) (simp add: E_def sent_on_def)
  ultimately have "whole_run_to srt dm lib pem controller_addr w
      (w\<lparr>wh_control := E, wh_stream := Some ?i, wh_wire := [?L], wh_read := 0\<rparr>)"
    by (meson converse_rtranclp_into_rtranclp r_into_rtranclp)
  then show thesis by (rule that [rotated]) (simp add: D_def E_def)
qed

text \<open>What the data plane makes of the snapshot on its new stream.\<close>

definition installed ::
  "'d counters \<Rightarrow> ('h, 'u) http_lib \<Rightarrow> 'k pem_lib \<Rightarrow> snapshot \<Rightarrow> ('d, 'k) manager \<Rightarrow> ('d, 'k) manager" where
  "installed dm lib pem snap m = m\<lparr>gm_phase := Streaming True, gm_ready := True, gm_snapshot := snap,
     gm_received := gm_received m @ [snap],
     gm_plane := plane_update dm (header_name_from_bytes lib) snap (gm_plane m),
     gm_sni := certificates_from_snap pem snap\<rparr>"

lemma install_last:
  assumes "going (wh_data w)" "gm_phase (wh_data w) = Opening" "wh_stream w = Some i" "wh_wire w = [s]" "wh_read w = 0"
  shows "whole_run_to srt dm lib pem controller_addr w
    (w\<lparr>wh_data := installed dm lib pem (to_pb_snapshot s) (wh_data w), wh_read := 1\<rparr>)"
proof -
  let ?step = "whole_step srt dm lib pem controller_addr" and ?m = "wh_data w" and ?s = "to_pb_snapshot s"
  let ?p = "plane_update dm (header_name_from_bytes lib) ?s (gm_plane ?m)"
  define a where "a = ?m\<lparr>gm_phase := Streaming False, gm_ready := True\<rparr>"
  define b where "b = a\<lparr>gm_phase := Write_Table ?s, gm_snapshot := ?s, gm_received := gm_received a @ [?s]\<rparr>"
  define c where "c = b\<lparr>gm_phase := Write_Sni ?s, gm_plane := ?p\<rparr>"
  have own: "?step (w\<lparr>wh_data := x, wh_read := r\<rparr>) (w\<lparr>wh_data := y, wh_read := r\<rparr>)"
    if "stream_step dm lib pem controller_addr x y" "gm_received y = gm_received x" "in_call (gm_phase y)" for x y r
    using data_plane [of dm lib pem controller_addr "w\<lparr>wh_data := x, wh_read := r\<rparr>" y srt] that
    by (cases w) (simp add: stream_task)
  have 1: "?step w (w\<lparr>wh_data := a\<rparr>)"
    using own [of ?m a 0] open_ok [OF assms(2), of dm lib pem controller_addr] assms(5)
    by (cases w) (simp add: a_def in_call_def)
  have "stream_step dm lib pem controller_addr a b"
    using message [of a False dm lib pem controller_addr ?s] by (simp add: a_def b_def)
  then have 2: "?step (w\<lparr>wh_data := a\<rparr>) (w\<lparr>wh_data := b, wh_read := 1\<rparr>)"
    using reads [of "w\<lparr>wh_data := a\<rparr>" dm lib pem controller_addr b srt] assms(3,4,5) by (simp add: b_def)
  have 3: "?step (w\<lparr>wh_data := b, wh_read := 1\<rparr>) (w\<lparr>wh_data := c, wh_read := 1\<rparr>)"
    using own [of b c 1] write_table [of b ?s dm lib pem controller_addr] assms(1)
    by (simp add: a_def b_def c_def going_def in_call_def)
  have i: "installed dm lib pem ?s ?m = c\<lparr>gm_phase := Streaming True, gm_sni := certificates_from_snap pem ?s\<rparr>"
    by (cases ?m) (simp add: a_def b_def c_def installed_def)
  have 4: "?step (w\<lparr>wh_data := c, wh_read := 1\<rparr>)
      (w\<lparr>wh_data := installed dm lib pem ?s ?m, wh_read := 1\<rparr>)"
    unfolding i by (rule own [OF write_sni]) (simp_all add: c_def in_call_def)
  show ?thesis using 1 2 3 4 by (meson converse_rtranclp_into_rtranclp r_into_rtranclp)
qed

text \<open>
  C5: a data plane can always catch up.  From every reachable state of the whole system in
  which the data plane has not been cancelled and a snapshot has been broadcast, also after
  a lost update, with a lost stream or without key material, there is a run without
  further broadcasts after which the data plane has the last snapshot, routes by a table
  and presents the certificates built from it, and reports ready; the controller's address
  has to be a valid URI with a host.
\<close>

theorem can_catch_up:
  assumes "whole_reachable srt dm lib pem controller_addr ingress_class w"
    and "\<not> gm_cancelled (wh_data w)" and "pc_history (wh_control w) \<noteq> []"
    and "uri_from_str lib controller_addr = Some uri" and "uri_host lib uri = Some host"
  shows "\<exists>v. whole_run_to srt dm lib pem controller_addr w v
    \<and> pc_history (wh_control v) = pc_history (wh_control w)
    \<and> latest_snapshot (wh_data v) = to_pb_snapshot (last (pc_history (wh_control w)))
    \<and> table_from dm lib (latest_snapshot (wh_data v)) (pl_table (gm_plane (wh_data v)))
    \<and> gm_sni (wh_data v) = certificates_from_snap pem (latest_snapshot (wh_data v))
    \<and> is_ready (wh_data v)"
proof -
  note inv = whole_inv_reachable [OF assms(1)]
  let ?s = "last (pc_history (wh_control w))"
  from inv have "manager_reachable dm lib pem controller_addr (wh_data w)" "control_inv (wh_control w)"
    by (simp_all add: whole_inv_def)
  from can_open [OF this(1) assms(2,4,5)] obtain n where n: "own_run dm lib pem controller_addr (wh_data w) n"
    "going n" "gm_phase n = Opening" by blast
  from own_run_whole [OF n(1)] obtain st
    where 1: "whole_run_to srt dm lib pem controller_addr w (w\<lparr>wh_data := n, wh_stream := st\<rparr>)" by blast
  let ?w = "w\<lparr>wh_data := n, wh_stream := st\<rparr>"
  obtain C i where C: "pc_history C = pc_history (wh_control ?w)"
    and 2: "whole_run_to srt dm lib pem controller_addr ?w
      (?w\<lparr>wh_control := C, wh_stream := Some i, wh_wire := [last (pc_history (wh_control ?w))], wh_read := 0\<rparr>)"
    by (rule new_stream [of ?w]) (use \<open>control_inv (wh_control w)\<close> assms(3) n(3) in simp_all)
  let ?u = "?w\<lparr>wh_control := C, wh_stream := Some i, wh_wire := [?s], wh_read := 0\<rparr>"
  let ?v = "?u\<lparr>wh_data := installed dm lib pem (to_pb_snapshot ?s) n, wh_read := 1\<rparr>"
  have "whole_run_to srt dm lib pem controller_addr ?u ?v"
    using install_last [of ?u i ?s srt dm lib pem controller_addr] n(2,3) by simp
  with 1 2 have run: "whole_run_to srt dm lib pem controller_addr w ?v" by simp
  have "config_inv dm lib pem (wh_data ?v)"
    by (rule data_config [OF whole_inv_reachable [OF whole_reachable_run [OF run assms(1)]]])
  then have "table_from dm lib (to_pb_snapshot ?s) (pl_table (gm_plane (wh_data ?v)))"
    by (simp add: config_inv_def table_source_def latest_def installed_def)
  with run C show ?thesis
    by (intro exI [of _ ?v]) (simp add: latest_snapshot_def is_ready_def installed_def)
qed

theorem can_catch_up_witness:
  "\<exists>snap v. whole_run_to go_sorters alist_dash demo_lib no_pem ''https://controller:18000''
       (demo_whole (demo_reconciler ''v1'' snap) (one_watch None snap None None [snap] False [snap])
         (demo_installs (to_pb_snapshot snap)) [snap] 1 [demo_targets]) v
     \<and> latest_snapshot (wh_data v) = to_pb_snapshot snap \<and> is_ready (wh_data v)"
proof -
  obtain snap where snap: "to_snapshot go_sorters rev demo_crypto 0 ''argon'' demo_targets = Some snap"
    by (rule demo_targets_snapshot)
  obtain uri where uri: "uri_from_str demo_lib ''https://controller:18000'' = Some uri" "uri_host demo_lib uri = Some ''controller''"
    by (simp add: demo_lib_def parts_lib_def)
  let ?w = "demo_whole (demo_reconciler ''v1'' snap) (one_watch None snap None None [snap] False [snap])
    (demo_installs (to_pb_snapshot snap)) [snap] 1 [demo_targets]"
  have "\<not> gm_cancelled (wh_data ?w)"
    by (simp add: demo_whole_def demo_installs_def demo_read_def demo_simps)
  moreover have h: "pc_history (wh_control ?w) = [snap]" by (simp add: demo_whole_def one_watch_def)
  ultimately show ?thesis using can_catch_up [OF demo_delivered [OF snap] _ _ uri] by (intro exI [of _ snap]) auto
qed

end
