(* ===== verification/Ingress_Tls.thy ===== *)
theory Ingress_Tls
  imports Whole_System Servers
begin

text \<open>
  Certificates from the Secrets that Ingresses name to the TLS handshake: which bundle an
  Ingress contributes, which of several bundles for one host name the data plane uses, and
  that no handshake gets a certificate whose Secret no Ingress has named for it.
\<close>

section \<open>What an Ingress declares\<close>

text \<open>An entry of \<open>spec.tls\<close> gives a bundle: it is complete and its Secret has a certificate and a key.\<close>

definition tls_entry :: "kube \<Rightarrow> crypto \<Rightarrow> string \<Rightarrow> ingress_tls \<Rightarrow> tls_secret \<Rightarrow> bool" where
  "tls_entry k x ns tls b \<longleftrightarrow>
     it_secret_name tls \<noteq> [] \<and> it_hosts tls \<noteq> []
     \<and> (\<exists>data crt key block not_after rest. k_secret k ns (it_secret_name tls) = Some data
        \<and> data ''tls.crt'' = Some crt \<and> data ''tls.key'' = Some key \<and> crt \<noteq> [] \<and> key \<noteq> []
        \<and> x_pem_decode x crt = Some block \<and> x_parse x block = Some (not_after # rest)
        \<and> b = \<lparr>ts_name = ns @ ''/'' @ it_secret_name tls, ts_sni = it_hosts tls, ts_cert_pem = crt,
               ts_key_pem = key, ts_not_after = not_after, ts_version = x_sha256 x (crt @ key)\<rparr>)"

lemma add_bundle_entry: "tls_entry k x ns tls b \<Longrightarrow> add_bundle k x ns tls bundle = b"
  by (auto simp: tls_entry_def add_bundle_def Let_def)

lemma add_bundle_cases: "add_bundle k x ns tls bundle = bundle \<or> tls_entry k x ns tls (add_bundle k x ns tls bundle)"
  by (auto simp: tls_entry_def add_bundle_def Let_def split: option.splits list.splits)

lemma tls_entry_name: "tls_entry k x ns tls b \<Longrightarrow> ts_name b \<noteq> []"
  by (auto simp: tls_entry_def)

text \<open>The bundle of an Ingress is that of its last entry that gives one.\<close>

definition declares_tls :: "kube \<Rightarrow> crypto \<Rightarrow> ingress \<Rightarrow> tls_secret \<Rightarrow> bool" where
  "declares_tls k x ing b \<longleftrightarrow>
     (\<exists>before tls after. ig_tls ing = before @ tls # after \<and> tls_entry k x (ig_namespace ing) tls b
        \<and> (\<forall>t \<in> set after. \<nexists>c. tls_entry k x (ig_namespace ing) t c))"

lemma fold_add_bundle_none:
  "\<forall>t \<in> set tlss. \<nexists>c. tls_entry k x ns t c \<Longrightarrow> fold (add_bundle k x ns) tlss acc = acc"
proof (induction tlss arbitrary: acc)
  case (Cons t tlss)
  then have "add_bundle k x ns t acc = acc" using add_bundle_cases by (metis list.set_intros(1))
  with Cons show ?case by simp
qed simp

lemma build_tls_bundle_last:
  "declares_tls k x ing b \<longleftrightarrow> b = build_tls_bundle k x ing \<and> ts_name b \<noteq> []"
proof
  assume "declares_tls k x ing b"
  then show "b = build_tls_bundle k x ing \<and> ts_name b \<noteq> []"
    by (auto simp: declares_tls_def build_tls_bundle_def add_bundle_entry fold_add_bundle_none dest: tls_entry_name)
next
  let ?entry = "\<lambda>t. \<exists>c. tls_entry k x (ig_namespace ing) t c"
  assume b: "b = build_tls_bundle k x ing \<and> ts_name b \<noteq> []"
  have "\<exists>t \<in> set (ig_tls ing). ?entry t"
  proof (rule ccontr)
    assume "\<not> ?thesis"
    then have "b = no_secret" using b by (simp add: build_tls_bundle_def fold_add_bundle_none)
    with b show False by (simp add: no_secret_def)
  qed
  then obtain before tls after where split: "ig_tls ing = before @ tls # after" "?entry tls" "\<forall>t \<in> set after. \<not> ?entry t"
    by (rule split_list_last_propE)
  then obtain c where c: "tls_entry k x (ig_namespace ing) tls c" by blast
  have "b = c" using b split c by (simp add: build_tls_bundle_def add_bundle_entry fold_add_bundle_none)
  with split c show "declares_tls k x ing b" unfolding declares_tls_def by blast
qed

text \<open>An Ingress reaches the snapshot if one of its paths has a serving endpoint.\<close>

definition rule_paths :: "ingress_rule \<Rightarrow> http_path list" where
  "rule_paths rule = (case ir_http rule of None \<Rightarrow> [] | Some paths \<Rightarrow> paths)"

definition reaches :: "kube \<Rightarrow> ingress \<Rightarrow> bool" where
  "reaches k ing \<longleftrightarrow>
     (\<exists>rule \<in> set (ig_rules ing). \<exists>p \<in> set (rule_paths rule). reachable_path k (ig_namespace ing) p)"

text \<open>The bundles claimed for a host name by the Ingresses.\<close>

definition claims :: "kube \<Rightarrow> crypto \<Rightarrow> ingress list \<Rightarrow> string \<Rightarrow> tls_secret set" where
  "claims k x ings h =
     {b. \<exists>ing \<in> set ings. reaches k ing \<and> declares_tls k x ing b \<and> h \<in> set (ts_sni b)}"

lemma target_paths_empty:
  "tp_path (build_target_from_rule k ns rule base bundle) = [] \<longleftrightarrow> (\<forall>p \<in> set (rule_paths rule). \<not> reachable_path k ns p)"
proof -
  have "tp_path (build_target_from_rule k ns rule base bundle) = fold (add_path k ns base) (rule_paths rule) []"
    by (cases "ir_http rule") (simp_all add: build_target_from_rule_def rule_paths_def)
  with fold_add_path_keys [of k ns base "rule_paths rule" "[]"] show ?thesis
    by (metis (no_types, lifting) empty_iff image_is_empty list.set(1) mem_Collect_eq set_empty2 subsetI
        subset_empty sup_bot_left)
qed

lemma target_bundles:
  "tp_sni ` set (ingress_targets k x unmarshal a ing) = (if reaches k ing then {build_tls_bundle k x ing} else {})"
proof -
  let ?t = "\<lambda>rule. build_target_from_rule k (ig_namespace ing) rule
    (parse_annotations unmarshal a (ig_annotations ing)) (build_tls_bundle k x ing)"
  have "set (ingress_targets k x unmarshal a ing)
      = ?t ` {rule \<in> set (ig_rules ing). \<exists>p \<in> set (rule_paths rule). reachable_path k (ig_namespace ing) p}"
    by (auto simp: ingress_targets_def Let_def target_paths_empty)
  moreover have "tp_sni (?t rule) = build_tls_bundle k x ing" for rule by (simp add: build_target_from_rule_def)
  ultimately show ?thesis by (auto simp: reaches_def image_image)
qed

lemma endpoints_bundles:
  "tp_sni ` set (parse_endpoints k x unmarshal addr ings) = build_tls_bundle k x ` {ing \<in> set ings. reaches k ing}"
proof -
  have "tp_sni ` set (parse_endpoints k x unmarshal addr ings)
      = (\<Union>(i, ing) \<in> set (enumerate 0 ings). if reaches k ing then {build_tls_bundle k x ing} else {})"
    by (simp add: parse_endpoints_def image_UN split_def target_bundles)
  also have "\<dots> = (\<Union>ing \<in> snd ` set (enumerate 0 ings). if reaches k ing then {build_tls_bundle k x ing} else {})"
    by (simp only: split_def image_image)
  also have "snd ` set (enumerate 0 ings) = set ings" by (metis list.set_map map_snd_enumerate)
  also have "(\<Union>ing \<in> set ings. if reaches k ing then {build_tls_bundle k x ing} else {})
      = build_tls_bundle k x ` {ing \<in> set ings. reaches k ing}" by (force split: if_splits)
  finally show ?thesis .
qed

section \<open>The bundle that wins\<close>

lemma last_map_filter_sorted:
  fixes key :: "'a \<Rightarrow> 'k::linorder"
  assumes "sorted (map key xs)" and "List.map_filter g xs \<noteq> []"
  shows "\<exists>b \<in> set xs. g b = Some (last (List.map_filter g xs)) \<and> (\<forall>c \<in> set xs. g c \<noteq> None \<longrightarrow> key c \<le> key b)"
  using assms
proof (induction xs rule: rev_induct)
  case (snoc y ys)
  have app: "List.map_filter g (ys @ [y]) = List.map_filter g ys @ (case g y of None \<Rightarrow> [] | Some v \<Rightarrow> [v])"
    by (induction ys) (auto simp: map_filter_simps split: option.splits)
  show ?case
  proof (cases "g y")
    case None
    with snoc app show ?thesis by (auto simp: sorted_append)
  next
    case (Some v)
    with snoc app show ?thesis by (auto simp: sorted_append)
  qed
qed (simp add: map_filter_simps)

lemma snapshot_tls:
  assumes "slice_sort (sort_tls srt)" and "to_snapshot srt range_map x now ingress_class targets = Some snap"
  shows "set (ms_tls snap) = {b \<in> tp_sni ` set targets. ts_name b \<noteq> []}" and "sorted (map ts_name (ms_tls snap))"
proof -
  have tls: "ms_tls snap = sort_tls srt tls_less (filter (\<lambda>t. ts_name t \<noteq> []) (map tp_sni targets))"
    using assms(2) by (auto simp: to_snapshot_def snapshot_sort_def Let_def split: option.splits)
  show "set (ms_tls snap) = {b \<in> tp_sni ` set targets. ts_name b \<noteq> []}"
    unfolding tls slice_sort.sort_set [OF assms(1)] by auto
  show "sorted (map ts_name (ms_tls snap))"
    unfolding tls by (rule slice_sort.sort_sorted [OF assms(1)]) (simp add: tls_less_def)
qed

text \<open>The bundles that the targets of one reconciliation claim for a host name.\<close>

definition target_claims :: "target_proxy list \<Rightarrow> string \<Rightarrow> tls_secret set" where
  "target_claims targets h = {b \<in> tp_sni ` set targets. ts_name b \<noteq> [] \<and> h \<in> set (ts_sni b)}"

lemma target_claims_ingress: "target_claims (parse_endpoints k x unmarshal addr ings) h = claims k x ings h"
  unfolding target_claims_def endpoints_bundles claims_def build_tls_bundle_last by blast

text \<open>The certificate the data plane makes of a bundle.\<close>

abbreviation "certificate_of pem b \<equiv> bundle_certified_key pem (to_pb_tls b)"

text \<open>Of several claims the loadable one with the greatest name wins.\<close>

definition wins :: "'k pem_lib \<Rightarrow> tls_secret set \<Rightarrow> 'k certified_key option \<Rightarrow> bool" where
  "wins pem C winner \<longleftrightarrow>
     (case winner of
        None \<Rightarrow> \<forall>b \<in> C. certificate_of pem b = None
      | Some ck \<Rightarrow> \<exists>b \<in> C. certificate_of pem b = Some ck
          \<and> (\<forall>c \<in> C. certificate_of pem c \<noteq> None \<longrightarrow> ts_name c \<le> ts_name b))"

lemma certificates_of_snapshot:
  assumes "sorted (map ts_name (ms_tls snap))"
  shows "wins pem {b \<in> set (ms_tls snap). h \<in> set (ts_sni b)} (certificates_from_snap pem (to_pb_snapshot snap) h)"
proof -
  let ?g = "\<lambda>b. if h \<in> set (ts_sni b) then certificate_of pem b else None"
  have keys: "host_keys pem (sn_server_tls (to_pb_snapshot snap)) h = List.map_filter ?g (ms_tls snap)"
    by (simp add: host_keys_def to_pb_snapshot_def List.map_filter_def comp_def filter_map to_pb_tls_def)
  have none: "List.map_filter ?g xs = [] \<longleftrightarrow> (\<forall>b \<in> set xs. ?g b = None)" for xs
    by (induction xs) (auto simp: map_filter_simps split: option.splits)
  have lookup: "certificates_from_snap pem (to_pb_snapshot snap) h =
      (if List.map_filter ?g (ms_tls snap) = [] then None else Some (last (List.map_filter ?g (ms_tls snap))))"
    unfolding certificates_from_snap_def fold_insert_bundle keys by simp
  show ?thesis
  proof (cases "List.map_filter ?g (ms_tls snap) = []")
    case True
    then show ?thesis using none [of "ms_tls snap"] by (auto simp: lookup wins_def)
  next
    case False
    define ck where "ck = last (List.map_filter ?g (ms_tls snap))"
    from last_map_filter_sorted [OF assms False, folded ck_def] obtain b where b: "b \<in> set (ms_tls snap)"
      "?g b = Some ck" "\<forall>c \<in> set (ms_tls snap). ?g c \<noteq> None \<longrightarrow> ts_name c \<le> ts_name b" by blast
    have "certificates_from_snap pem (to_pb_snapshot snap) h = Some ck" using False by (simp add: lookup ck_def)
    moreover have "h \<in> set (ts_sni b) \<and> certificate_of pem b = Some ck" using b(2) by (simp split: if_splits)
    moreover have "ts_name c \<le> ts_name b" if "c \<in> set (ms_tls snap)" "h \<in> set (ts_sni c)" "certificate_of pem c \<noteq> None" for c
      using bspec [OF b(3) that(1)] that(2,3) by simp
    ultimately show ?thesis using b(1) unfolding wins_def by (simp only: option.case mem_Collect_eq) blast
  qed
qed

lemma snapshot_wins:
  assumes "slice_sort (sort_tls srt)" and "to_snapshot srt range_map x now ingress_class targets = Some snap"
  shows "wins pem (target_claims targets h) (certificates_from_snap pem (to_pb_snapshot snap) h)"
proof -
  have "{b \<in> set (ms_tls snap). h \<in> set (ts_sni b)} = target_claims targets h"
    unfolding snapshot_tls(1) [OF assms] target_claims_def by blast
  with certificates_of_snapshot [OF snapshot_tls(2) [OF assms], where pem = pem and h = h] show ?thesis by simp
qed

lemma name_inject:
  assumes "CHR ''/'' \<notin> set ns" "CHR ''/'' \<notin> set ns'" "ns @ ''/'' @ n = ns' @ ''/'' @ n'"
  shows "ns = ns' \<and> n = n'"
proof -
  have "takeWhile (\<lambda>c. c \<noteq> CHR ''/'') (m @ ''/'' @ q) = m" if "CHR ''/'' \<notin> set m" for m q
    using that by (induction m) auto
  from this [OF assms(1)] this [OF assms(2)] assms(3) have "ns = ns'" by metis
  with assms(3) show ?thesis by simp
qed

text \<open>Bundles of the same name come from the same Secret.\<close>

lemma claims_same_secret:
  assumes "\<forall>ing \<in> set ings. CHR ''/'' \<notin> set (ig_namespace ing)"
    and "b \<in> claims k x ings h" "c \<in> claims k x ings h" "ts_name b = ts_name c"
  shows "certificate_of pem b = certificate_of pem c"
proof -
  from assms(2) obtain ing tls where b: "ing \<in> set ings" "tls_entry k x (ig_namespace ing) tls b"
    by (auto simp: claims_def declares_tls_def)
  from assms(3) obtain ing' tls' where c: "ing' \<in> set ings" "tls_entry k x (ig_namespace ing') tls' c"
    by (auto simp: claims_def declares_tls_def)
  have "ts_name b = ig_namespace ing @ ''/'' @ it_secret_name tls"
    "ts_name c = ig_namespace ing' @ ''/'' @ it_secret_name tls'"
    using b(2) c(2) by (auto simp: tls_entry_def)
  with assms(1,4) b(1) c(1) have "ig_namespace ing = ig_namespace ing'" "it_secret_name tls = it_secret_name tls'"
    using name_inject by metis+
  with b(2) c(2) have "ts_cert_pem b = ts_cert_pem c \<and> ts_key_pem b = ts_key_pem c"
    by (auto simp: tls_entry_def)
  then show ?thesis by (simp add: bundle_certified_key_def to_pb_tls_def Let_def)
qed

text \<open>
  C24: the certificate of a host name follows the Ingresses.  A host name is claimed by the
  bundle of each Ingress that has a path with a serving endpoint and whose last usable TLS
  entry lists the name.  The data plane has a certificate for the name exactly if one of the
  claims can be loaded; it is then that of the claim with the greatest namespace and
  Secret name, whichever of the Ingresses that name this Secret it comes from.
\<close>

theorem certificate_follows_ingress:
  assumes "slice_sort (sort_tls srt)"
    and "to_snapshot srt range_map x now ingress_class (parse_endpoints k x unmarshal addr ings) = Some snap"
    and "\<forall>ing \<in> set ings. CHR ''/'' \<notin> set (ig_namespace ing)"
  shows "case certificates_from_snap pem (to_pb_snapshot snap) h of
      None \<Rightarrow> \<forall>b \<in> claims k x ings h. certificate_of pem b = None
    | Some ck \<Rightarrow> \<exists>b \<in> claims k x ings h.
        (\<forall>c \<in> claims k x ings h. certificate_of pem c \<noteq> None \<longrightarrow> ts_name c \<le> ts_name b)
        \<and> (\<forall>c \<in> claims k x ings h. ts_name c = ts_name b \<longrightarrow> certificate_of pem c = Some ck)"
proof -
  have w: "wins pem (claims k x ings h) (certificates_from_snap pem (to_pb_snapshot snap) h)"
    using snapshot_wins [OF assms(1,2)] by (simp only: target_claims_ingress)
  show ?thesis
  proof (cases "certificates_from_snap pem (to_pb_snapshot snap) h")
    case None
    with w show ?thesis by (simp add: wins_def)
  next
    case (Some ck)
    with w obtain b where b: "b \<in> claims k x ings h" "certificate_of pem b = Some ck"
      "\<forall>c \<in> claims k x ings h. certificate_of pem c \<noteq> None \<longrightarrow> ts_name c \<le> ts_name b"
      unfolding wins_def by (simp only: option.case) blast
    have "\<forall>c \<in> claims k x ings h. ts_name c = ts_name b \<longrightarrow> certificate_of pem c = Some ck"
    proof (intro ballI impI)
      fix c
      assume c: "c \<in> claims k x ings h" "ts_name c = ts_name b"
      show "certificate_of pem c = Some ck"
        using claims_same_secret [OF assms(3) c(1) b(1) c(2), where pem = pem] b(2) by simp
    qed
    with b(3) show ?thesis unfolding Some option.case by (intro bexI [OF _ b(1)] conjI)
  qed
qed

section \<open>Handshakes\<close>

lemma stored_certificates:
  assumes "whole_reachable srt dm lib pem controller_addr ingress_class w" and "slice_sort (sort_tls srt)"
  obtains targets where "in_force (sni_applied (wh_data w)) w targets"
    "\<forall>h. wins pem (target_claims targets h) (gm_sni (wh_data w) h)"
proof -
  note inv = whole_inv_reachable [OF assms(1)]
  have sni: "gm_sni (wh_data w) = certificates_from_snap pem (last (snapshot_default # sni_applied (wh_data w)))"
    using data_config [OF inv] by (simp add: config_inv_def applied_source)
  show thesis
  proof (cases "sni_applied (wh_data w) = []")
    case True
    have "in_force (sni_applied (wh_data w)) w []" using True by (simp add: in_force_def)
    then show thesis
      by (rule that)
        (simp add: True sni certificates_from_snap_def snapshot_default_def wins_def target_claims_def)
  next
    case False
    from in_force_exists [OF inv False applied_received(2)] obtain ms targets where
      f: "in_force (sni_applied (wh_data w)) w targets" and ms: "last (sni_applied (wh_data w)) = to_pb_snapshot ms"
      and ts: "built_from srt ms targets" .
    from ts obtain range_map x now cls where "to_snapshot srt range_map x now cls targets = Some ms"
      by (auto simp: built_from_def)
    note w = snapshot_wins [OF assms(2) this]
    have "last (snapshot_default # sni_applied (wh_data w)) = to_pb_snapshot ms" using False ms by simp
    then have "gm_sni (wh_data w) = certificates_from_snap pem (to_pb_snapshot ms)" by (simp only: sni)
    with w have "\<forall>h. wins pem (target_claims targets h) (gm_sni (wh_data w) h)" by (simp only:) blast
    with f show thesis by (rule that)
  qed
qed

text \<open>
  C6: a handshake follows the Ingresses in force.  Whenever the two loads of the resolver
  happen, a handshake with a server name gets the certificate that wins among the bundles
  claimed for the lower-cased name by the reconciliation whose snapshot is the last one the
  data plane had installed at the first load; if none does, the one that wins among the
  claims, by the reconciliation in force at the second load, for the wildcard of its parent
  domain; and the default certificate otherwise.  There are no claims only as long as no
  snapshot has been installed.
\<close>

theorem handshake_by_reconciliation:
  assumes "whole_reachable srt dm lib pem controller_addr ingress_class w1"
    and "whole_reachable srt dm lib pem controller_addr ingress_class w2" and "slice_sort (sort_tls srt)"
  shows "\<exists>targets1 targets2 exact wild.
    in_force (sni_applied (wh_data w1)) w1 targets1 \<and> in_force (sni_applied (wh_data w2)) w2 targets2
    \<and> wins pem (target_claims targets1 (to_ascii_lowercase n)) exact
    \<and> (case wildcard_of (to_ascii_lowercase n) of None \<Rightarrow> wild = None | Some v \<Rightarrow> wins pem (target_claims targets2 v) wild)
    \<and> dyn_resolve r (\<lambda>_. gm_sni (wh_data w1)) (\<lambda>_. gm_sni (wh_data w2)) (Some n)
      = Some (case exact of Some ck \<Rightarrow> ck | None \<Rightarrow> (case wild of Some ck \<Rightarrow> ck | None \<Rightarrow> dr_default r))"
proof -
  obtain targets1 where t1: "in_force (sni_applied (wh_data w1)) w1 targets1"
    "\<forall>h. wins pem (target_claims targets1 h) (gm_sni (wh_data w1) h)" by (rule stored_certificates [OF assms(1,3)])
  obtain targets2 where t2: "in_force (sni_applied (wh_data w2)) w2 targets2"
    "\<forall>h. wins pem (target_claims targets2 h) (gm_sni (wh_data w2) h)" by (rule stored_certificates [OF assms(2,3)])
  show ?thesis
  proof (intro exI conjI, rule t1(1), rule t2(1))
    show "wins pem (target_claims targets1 (to_ascii_lowercase n)) (gm_sni (wh_data w1) (to_ascii_lowercase n))"
      using t1(2) by blast
    show "case wildcard_of (to_ascii_lowercase n) of
        None \<Rightarrow> Option.bind (wildcard_of (to_ascii_lowercase n)) (gm_sni (wh_data w2)) = None
      | Some v \<Rightarrow> wins pem (target_claims targets2 v) (Option.bind (wildcard_of (to_ascii_lowercase n)) (gm_sni (wh_data w2)))"
      using t2(2) by (simp split: option.split)
  qed (simp add: dyn_resolve_def resolve_eq)
qed

section \<open>Instances\<close>

text \<open>The demonstration Ingress with a Secret, and a library that takes every text for a certificate and a key.\<close>

definition tls_ingress :: ingress where
  "tls_ingress = demo_ingress\<lparr>ig_tls := [\<lparr>it_secret_name = ''web'', it_hosts = [''demo.local'']\<rparr>]\<rparr>"

definition tls_kube :: kube where
  "tls_kube = demo_kube\<lparr>k_secret := (\<lambda>_ _. Some [''tls.crt'' \<mapsto> ''crt'', ''tls.key'' \<mapsto> ''key'']),
     k_ingresses := (\<lambda>_. Some [tls_ingress])\<rparr>"

definition tls_crypto :: crypto where
  "tls_crypto = demo_crypto\<lparr>x_parse := (\<lambda>_. Some [0])\<rparr>"

definition any_pem :: "string pem_lib" where
  "any_pem = \<lparr>pem_read_all = (\<lambda>s. [Inr (X509Certificate s)]), pem_read_one = (\<lambda>s. Inr (Some (Pkcs8Key s))),
     any_supported_type = (\<lambda>key. case key of Pkcs8 der \<Rightarrow> Inr der | _ \<Rightarrow> Inl [])\<rparr>"

definition tls_bundle :: tls_secret where
  "tls_bundle = \<lparr>ts_name = ''default/web'', ts_sni = [''demo.local''], ts_cert_pem = ''crt'', ts_key_pem = ''key'',
     ts_not_after = 0, ts_version = ''crtkey''\<rparr>"

lemma single_claim:
  assumes "map tp_sni targets = [b]" and "ts_name b \<noteq> []" and "h \<in> set (ts_sni b)"
  shows "target_claims targets h = {b}"
proof -
  have "tp_sni ` set targets = {b}" using arg_cong [OF assms(1), of set] by simp
  with assms(2,3) show ?thesis by (auto simp: target_claims_def)
qed

lemma tls_bundle_claimed: "claims tls_kube tls_crypto [tls_ingress] ''demo.local'' = {tls_bundle}"
  unfolding target_claims_ingress [of _ _ Map.empty id, symmetric]
proof (rule single_claim)
  show "map tp_sni (parse_endpoints tls_kube tls_crypto Map.empty id [tls_ingress]) = [tls_bundle]" by code_simp
qed (simp_all add: tls_bundle_def)

theorem certificate_follows_ingress_witness:
  "\<exists>snap. certificates_from_snap any_pem (to_pb_snapshot snap) ''demo.local'' = Some \<lparr>ck_cert = [''crt''], ck_key = ''key''\<rparr>"
proof -
  let ?targets = "parse_endpoints tls_kube tls_crypto Map.empty id [tls_ingress]"
  have "list_all (\<lambda>(h, e). route_of h e \<noteq> None) (entries rev ?targets)" by code_simp
  then have "sequence (map (\<lambda>(h, e). route_of h e) (entries rev ?targets)) \<noteq> None"
    by (auto simp: sequence_None list_all_iff)
  then obtain snap where snap: "to_snapshot go_sorters rev tls_crypto 0 ''argon'' ?targets = Some snap"
    by (auto simp: to_snapshot_def Let_def)
  have sort: "slice_sort (sort_tls go_sorters)" by (simp add: go_sorters_def isort.slice_sort_axioms)
  have ns: "\<forall>ing \<in> set [tls_ingress]. CHR ''/'' \<notin> set (ig_namespace ing)"
    by (simp add: tls_ingress_def demo_ingress_def Let_def)
  have ck: "certificate_of any_pem tls_bundle = Some \<lparr>ck_cert = [''crt''], ck_key = ''key''\<rparr>" by code_simp
  from certificate_follows_ingress [OF sort snap ns, where pem = any_pem and h = "''demo.local''"] ck
  have "certificates_from_snap any_pem (to_pb_snapshot snap) ''demo.local'' = Some \<lparr>ck_cert = [''crt''], ck_key = ''key''\<rparr>"
    unfolding tls_bundle_claimed
    by (cases "certificates_from_snap any_pem (to_pb_snapshot snap) ''demo.local''") simp_all
  then show ?thesis by blast
qed

theorem handshake_by_reconciliation_witness:
  "\<exists>snap. dyn_resolve (dyn_resolver_new \<lparr>ck_cert = [], ck_key = ()\<rparr> 0) (\<lambda>_. gm_sni (demo_installs (to_pb_snapshot snap)))
     (\<lambda>_. gm_sni (demo_installs (to_pb_snapshot snap))) (Some ''Demo.Local'') \<noteq> None"
proof -
  obtain snap where snap: "to_snapshot go_sorters rev demo_crypto 0 ''argon'' demo_targets = Some snap"
    by (rule demo_targets_snapshot)
  have sort: "slice_sort (sort_tls go_sorters)" by (simp add: go_sorters_def isort.slice_sort_axioms)
  from handshake_by_reconciliation [OF demo_delivered [OF snap] demo_delivered [OF snap] sort] show ?thesis
    by (intro exI [of _ snap]) (auto simp: demo_whole_def)
qed

end
