(* ===== verification/Control_Events.thy ===== *)
theory Control_Events
  imports Control_Ingress
begin

text \<open>
  When the Ingress controller runs (\<open>SetupWithManager\<close> in \<open>ingress_controller.go\<close>): the index
  of Ingresses by class, the kinds of objects whose events put a request into the queue of
  the controller, and reconciliations interleaved with changes to the cluster and with
  failures of the API.  The lemmas show that with an empty queue the snapshot reflects the
  present Ingresses and EndpointSlices, but for lookups that failed in the last
  reconciliation, and that changes to Services and Secrets go unnoticed.
\<close>

section \<open>The cluster\<close>

text \<open>Ingresses come with the name of their class; Services and Secrets by namespace and name.\<close>

record cluster_state =
  cl_ingresses :: "(string option \<times> ingress) list"
  cl_slices :: "string \<Rightarrow> string \<Rightarrow> endpoint_slice list"
  cl_services :: "string \<Rightarrow> string \<Rightarrow> service_port list option"
  cl_secrets :: "string \<Rightarrow> string \<Rightarrow> (string \<rightharpoonup> string) option"

definition index_ingress_class :: "string option \<Rightarrow> string list" where
  "index_ingress_class class_name = (case class_name of None \<Rightarrow> [] | Some c \<Rightarrow> [c])"

text \<open>\<open>List\<close> with \<open>MatchingFields\<close> on the index.\<close>

definition list_ingresses :: "cluster_state \<Rightarrow> string \<Rightarrow> ingress list" where
  "list_ingresses c ingress_class = map snd (filter (\<lambda>(cls, _). ingress_class \<in> set (index_ingress_class cls)) (cl_ingresses c))"

text \<open>
  The lookups of one reconciliation that fail, by namespace and name.  The code goes on
  after such an error as if the object were not there.  A failed \<open>List\<close> of the Ingresses ends
  the reconciliation.
\<close>

record failures =
  fl_slices :: "string \<Rightarrow> string \<Rightarrow> bool"
  fl_services :: "string \<Rightarrow> string \<Rightarrow> bool"
  fl_secrets :: "string \<Rightarrow> string \<Rightarrow> bool"

definition no_failures :: failures where
  "no_failures = \<lparr>fl_slices = (\<lambda>_ _. False), fl_services = (\<lambda>_ _. False), fl_secrets = (\<lambda>_ _. False)\<rparr>"

definition kube_of :: "failures \<Rightarrow> cluster_state \<Rightarrow> kube" where
  "kube_of f c =
     \<lparr>k_service = (\<lambda>ns svc. if fl_services f ns svc then None else cl_services c ns svc),
      k_slices = (\<lambda>ns svc. if fl_slices f ns svc then None else Some (cl_slices c ns svc)),
      k_secret = (\<lambda>ns name. if fl_secrets f ns name then None else cl_secrets c ns name),
      k_ingresses = (\<lambda>cls. Some (list_ingresses c cls))\<rparr>"

datatype kind = Ingress_Kind | Endpoint_Slice_Kind | Service_Kind | Secret_Kind

text \<open>\<open>For\<close> and \<open>Watches\<close>.\<close>

definition watched :: "kind \<Rightarrow> bool" where
  "watched kd = (case kd of Ingress_Kind \<Rightarrow> True | Endpoint_Slice_Kind \<Rightarrow> True | _ \<Rightarrow> False)"

text \<open>A change to objects of one kind.\<close>

definition changes :: "kind \<Rightarrow> cluster_state \<Rightarrow> cluster_state \<Rightarrow> bool" where
  "changes kd c d \<longleftrightarrow>
     (kd \<noteq> Ingress_Kind \<longrightarrow> cl_ingresses d = cl_ingresses c) \<and> (kd \<noteq> Endpoint_Slice_Kind \<longrightarrow> cl_slices d = cl_slices c)
     \<and> (kd \<noteq> Service_Kind \<longrightarrow> cl_services d = cl_services c) \<and> (kd \<noteq> Secret_Kind \<longrightarrow> cl_secrets d = cl_secrets c)"

section \<open>Events and reconciliations\<close>

text \<open>
  The queue holds the names of objects, each at most once; \<open>Reconcile\<close> does not look at the
  name.  The last three fields are history: the cluster as the last completed
  reconciliation saw it, the lookups that failed in it, and the snapshots broadcast.
\<close>

record events =
  ev_cluster :: cluster_state
  ev_queue :: "(string \<times> string) set"
  ev_reconciler :: reconciler
  ev_seen :: "cluster_state option"
  ev_failures :: failures
  ev_sent :: "model_snapshot list"

definition events_init :: "string \<Rightarrow> cluster_state \<Rightarrow> (string \<times> string) set \<Rightarrow> events" where
  "events_init ingress_class c queue =
     \<lparr>ev_cluster = c, ev_queue = queue,
      ev_reconciler = \<lparr>rc_ingress_class = ingress_class, rc_last_version = [], rc_current_snapshot = empty_snapshot\<rparr>,
      ev_seen = None, ev_failures = no_failures, ev_sent = []\<rparr>"

definition sent_by :: "reconciled \<Rightarrow> model_snapshot list" where
  "sent_by res = (case res of Broadcast snap \<Rightarrow> [snap] | _ \<Rightarrow> [])"

text \<open>
  A request is taken from the queue, and put back after an error or a panic.  The library
  may queue any object again at any time, as it does when it lists all objects anew.
\<close>

inductive event_step :: "sorters \<Rightarrow> crypto \<Rightarrow> (string \<Rightarrow> rewrite_headers list option) \<Rightarrow> events \<Rightarrow> events \<Rightarrow> bool"
  for srt x unmarshal where
  object_changed: "changes kd (ev_cluster s) c \<Longrightarrow>
    event_step srt x unmarshal s
      (s\<lparr>ev_cluster := c, ev_queue := (if watched kd then insert key (ev_queue s) else ev_queue s)\<rparr>)"
| queued_again: "event_step srt x unmarshal s (s\<lparr>ev_queue := ev_queue s \<union> keys\<rparr>)"
| event_reconciled: "key \<in> ev_queue s \<Longrightarrow> \<forall>m. mset (range_map m) = mset m \<Longrightarrow>
    reconcile srt range_map (kube_of f (ev_cluster s)) x unmarshal addr now (ev_reconciler s) = (res, r) \<Longrightarrow>
    res \<noteq> Api_Error \<Longrightarrow> res \<noteq> Panicked \<Longrightarrow>
    event_step srt x unmarshal s
      (s\<lparr>ev_queue := ev_queue s - {key}, ev_reconciler := r, ev_seen := Some (ev_cluster s),
         ev_failures := f, ev_sent := ev_sent s @ sent_by res\<rparr>)"
| event_failed: "key \<in> ev_queue s \<Longrightarrow> event_step srt x unmarshal s s"

text \<open>At the start every existing Ingress is queued.\<close>

inductive events_reachable ::
  "sorters \<Rightarrow> crypto \<Rightarrow> (string \<Rightarrow> rewrite_headers list option) \<Rightarrow> string \<Rightarrow> events \<Rightarrow> bool"
  for srt x unmarshal ingress_class where
  events_start: "cl_ingresses c = [] \<or> queue \<noteq> {} \<Longrightarrow>
    events_reachable srt x unmarshal ingress_class (events_init ingress_class c queue)"
| events_run: "events_reachable srt x unmarshal ingress_class s \<Longrightarrow> event_step srt x unmarshal s t \<Longrightarrow>
    events_reachable srt x unmarshal ingress_class t"

section \<open>What the snapshot reflects\<close>

lemma reconcile_done:
  assumes "reconcile srt range_map (kube_of f c) x unmarshal addr now r = (res, r')" "res \<noteq> Api_Error" "res \<noteq> Panicked"
    and "rc_last_version r = ms_version (rc_current_snapshot r)"
  shows "\<exists>snap. to_snapshot srt range_map x now (rc_ingress_class r)
        (parse_endpoints (kube_of f c) x unmarshal addr (list_ingresses c (rc_ingress_class r))) = Some snap
      \<and> ms_version (rc_current_snapshot r') = ms_version snap \<and> rc_last_version r' = ms_version snap
      \<and> rc_ingress_class r' = rc_ingress_class r
      \<and> sent_by res = (if ms_version snap = rc_last_version r then [] else [snap])
      \<and> rc_current_snapshot r' = (if ms_version snap = rc_last_version r then rc_current_snapshot r else snap)"
proof -
  have ings: "k_ingresses (kube_of f c) (rc_ingress_class r) = Some (list_ingresses c (rc_ingress_class r))"
    by (simp add: kube_of_def)
  let ?snap = "to_snapshot srt range_map x now (rc_ingress_class r)
    (parse_endpoints (kube_of f c) x unmarshal addr (list_ingresses c (rc_ingress_class r)))"
  show ?thesis
  proof (cases ?snap)
    case None
    with assms(1,3) show ?thesis by (simp add: reconcile_def ings)
  next
    case (Some snap)
    then have "(res, r') = (if ms_version snap = rc_last_version r then (Unchanged, r)
        else (Broadcast snap, r\<lparr>rc_last_version := ms_version snap, rc_current_snapshot := snap\<rparr>))"
      unfolding assms(1) [symmetric] by (simp add: reconcile_def ings)
    with Some assms(4) show ?thesis
      by (cases "ms_version snap = rc_last_version r") (simp_all add: sent_by_def)
  qed
qed

text \<open>The snapshot the reconciler keeps is that of the cluster as it was seen.\<close>

definition snapshot_of ::
  "sorters \<Rightarrow> crypto \<Rightarrow> (string \<Rightarrow> rewrite_headers list option) \<Rightarrow> string \<Rightarrow> failures \<Rightarrow> cluster_state \<Rightarrow> model_snapshot \<Rightarrow> bool" where
  "snapshot_of srt x unmarshal ingress_class f c snap \<longleftrightarrow>
     (\<exists>range_map addr now. (\<forall>m. mset (range_map m) = mset m)
        \<and> to_snapshot srt range_map x now ingress_class
            (parse_endpoints (kube_of f c) x unmarshal addr (list_ingresses c ingress_class)) = Some snap)"

definition events_inv ::
  "sorters \<Rightarrow> crypto \<Rightarrow> (string \<Rightarrow> rewrite_headers list option) \<Rightarrow> string \<Rightarrow> events \<Rightarrow> bool" where
  "events_inv srt x unmarshal ingress_class s \<longleftrightarrow>
     rc_ingress_class (ev_reconciler s) = ingress_class
     \<and> rc_last_version (ev_reconciler s) = ms_version (rc_current_snapshot (ev_reconciler s))
     \<and> rc_current_snapshot (ev_reconciler s) = last (empty_snapshot # ev_sent s)
     \<and> (case ev_seen s of
          None \<Rightarrow> ev_sent s = [] \<and> (ev_queue s = {} \<longrightarrow> cl_ingresses (ev_cluster s) = [])
        | Some c \<Rightarrow>
            (ev_queue s = {} \<longrightarrow> cl_ingresses c = cl_ingresses (ev_cluster s) \<and> cl_slices c = cl_slices (ev_cluster s))
            \<and> (\<exists>snap. snapshot_of srt x unmarshal ingress_class (ev_failures s) c snap
                 \<and> ms_version (last (empty_snapshot # ev_sent s)) = ms_version snap))"

lemma events_inv_step:
  "event_step srt x unmarshal s t \<Longrightarrow> events_inv srt x unmarshal ingress_class s \<Longrightarrow> events_inv srt x unmarshal ingress_class t"
proof (induction rule: event_step.induct)
  case (object_changed kd s c key)
  show ?case
  proof (cases "watched kd")
    case True
    with object_changed show ?thesis by (auto simp: events_inv_def split: option.splits)
  next
    case False
    then have "cl_ingresses c = cl_ingresses (ev_cluster s)" "cl_slices c = cl_slices (ev_cluster s)"
      using object_changed(1) by (auto simp: changes_def watched_def split: kind.splits)
    with False object_changed(2) show ?thesis by (auto simp: events_inv_def split: option.splits)
  qed
next
  case (queued_again s keys)
  then show ?case by (auto simp: events_inv_def split: option.splits)
next
  case (event_reconciled key s range_map f addr now res r)
  have "rc_last_version (ev_reconciler s) = ms_version (rc_current_snapshot (ev_reconciler s))"
    and cls: "rc_ingress_class (ev_reconciler s) = ingress_class"
    and cur: "rc_current_snapshot (ev_reconciler s) = last (empty_snapshot # ev_sent s)"
    using event_reconciled(6) by (simp_all add: events_inv_def)
  from reconcile_done [OF event_reconciled(3,4,5) this(1)] obtain snap
    where snap: "to_snapshot srt range_map x now ingress_class
        (parse_endpoints (kube_of f (ev_cluster s)) x unmarshal addr (list_ingresses (ev_cluster s) ingress_class)) = Some snap"
      "ms_version (rc_current_snapshot r) = ms_version snap" "rc_last_version r = ms_version snap"
      "rc_ingress_class r = ingress_class"
      "sent_by res = (if ms_version snap = rc_last_version (ev_reconciler s) then [] else [snap])"
      "rc_current_snapshot r
        = (if ms_version snap = rc_last_version (ev_reconciler s) then rc_current_snapshot (ev_reconciler s) else snap)"
    unfolding cls by blast
  have "rc_current_snapshot r = last (empty_snapshot # ev_sent s @ sent_by res)"
    unfolding snap(5,6) cur by simp
  moreover have "snapshot_of srt x unmarshal ingress_class f (ev_cluster s) snap"
    using snap(1) event_reconciled(2) unfolding snapshot_of_def by blast
  ultimately show ?case using snap(2,3,4) by (auto simp: events_inv_def)
qed

lemma events_inv_reachable:
  "events_reachable srt x unmarshal ingress_class s \<Longrightarrow> events_inv srt x unmarshal ingress_class s"
proof (induction rule: events_reachable.induct)
  case (events_start c queue)
  then show ?case by (auto simp: events_inv_def events_init_def empty_snapshot_def)
next
  case (events_run s t)
  then show ?case by (blast intro: events_inv_step)
qed

text \<open>
  C25: the broadcast snapshot reflects the present Ingresses and EndpointSlices.  In every
  reachable state in which the queue of the controller is empty, the last snapshot
  broadcast has the version of the snapshot built from a cluster that has the present
  Ingresses and EndpointSlices, with the Services and Secrets as they were when the last
  reconciliation ran, where the objects whose lookup failed in that reconciliation are
  taken for missing; if none has run yet, there is no Ingress.
\<close>

theorem snapshot_current:
  assumes "events_reachable srt x unmarshal ingress_class s" and "ev_queue s = {}"
  shows "case ev_seen s of
      None \<Rightarrow> cl_ingresses (ev_cluster s) = [] \<and> ev_sent s = []
    | Some c \<Rightarrow> cl_ingresses c = cl_ingresses (ev_cluster s) \<and> cl_slices c = cl_slices (ev_cluster s)
        \<and> (\<exists>snap. snapshot_of srt x unmarshal ingress_class (ev_failures s) c snap
             \<and> ms_version (last (empty_snapshot # ev_sent s)) = ms_version snap)"
  using events_inv_reachable [OF assms(1)] assms(2) by (auto simp: events_inv_def split: option.splits)

text \<open>
  A change to Secrets goes unnoticed: whatever they become, no request is queued and the
  snapshot stays as it is.
\<close>

theorem secret_change_unseen:
  assumes "events_reachable srt x unmarshal ingress_class s" and "ev_queue s = {}"
  shows "events_reachable srt x unmarshal ingress_class (s\<lparr>ev_cluster := (ev_cluster s)\<lparr>cl_secrets := secrets\<rparr>\<rparr>)"
proof -
  have "changes Secret_Kind (ev_cluster s) ((ev_cluster s)\<lparr>cl_secrets := secrets\<rparr>)" by (simp add: changes_def)
  from object_changed [OF this, of srt x unmarshal]
  have "event_step srt x unmarshal s (s\<lparr>ev_cluster := (ev_cluster s)\<lparr>cl_secrets := secrets\<rparr>\<rparr>)"
    by (simp add: watched_def)
  with assms(1) show ?thesis by (rule events_run)
qed

section \<open>An instance\<close>

text \<open>A cluster with one Ingress of the class and one of no class, before and after its first reconciliation.\<close>

definition one_path_ingress :: ingress where
  "one_path_ingress =
     \<lparr>ig_namespace = ''default'', ig_annotations = Map.empty, ig_tls = [],
      ig_rules = [\<lparr>ir_host = ''demo.local'', ir_http = Some [\<lparr>hp_path = ''/'', hp_path_type = Some (1, ''Prefix''),
        hp_service = Some \<lparr>sr_name = ''web'', sr_port_name = [], sr_port_number = 80\<rparr>\<rparr>]\<rparr>]\<rparr>"

definition event_cluster :: cluster_state where
  "event_cluster =
     \<lparr>cl_ingresses = [(Some ''argon'', one_path_ingress), (None, one_path_ingress)],
      cl_slices = (\<lambda>_ _. [\<lparr>es_ports = [\<lparr>sp_name = None, sp_port = Some 8080, sp_protocol = None\<rparr>],
        es_endpoints = [\<lparr>sl_addresses = [''10.0.0.1''], sl_ready = Some True\<rparr>]\<rparr>]),
      cl_services = (\<lambda>_ _. None), cl_secrets = (\<lambda>_ _. None)\<rparr>"

lemma event_cluster_snapshot:
  obtains snap where "to_snapshot go_sorters id demo_crypto 0 ''argon''
      (parse_endpoints (kube_of no_failures event_cluster) demo_crypto Map.empty id (list_ingresses event_cluster ''argon'')) = Some snap"
    and "ms_version snap = ''v1''"
proof -
  have "list_all (\<lambda>(h, e). route_of h e \<noteq> None) (entries id
      (parse_endpoints (kube_of no_failures event_cluster) demo_crypto Map.empty id (list_ingresses event_cluster ''argon'')))"
    by code_simp
  then have "sequence (map (\<lambda>(h, e). route_of h e) (entries id
      (parse_endpoints (kube_of no_failures event_cluster) demo_crypto Map.empty id (list_ingresses event_cluster ''argon'')))) \<noteq> None"
    by (auto simp: sequence_None list_all_iff)
  then show thesis using that by (auto simp: to_snapshot_def Let_def demo_crypto_def)
qed

lemma event_cluster_reconciled:
  obtains s snap where "events_reachable go_sorters demo_crypto Map.empty ''argon'' s" "ev_queue s = {}"
    "ev_seen s = Some event_cluster" "ev_failures s = no_failures" "ev_sent s = [snap]" "ms_version snap = ''v1''"
proof -
  let ?s = "events_init ''argon'' event_cluster {(''default'', ''web'')}"
  obtain snap where snap: "to_snapshot go_sorters id demo_crypto 0 ''argon''
      (parse_endpoints (kube_of no_failures event_cluster) demo_crypto Map.empty id (list_ingresses event_cluster ''argon'')) = Some snap"
    "ms_version snap = ''v1''" by (rule event_cluster_snapshot)
  define r where "r = \<lparr>rc_ingress_class = ''argon'', rc_last_version = ''v1'', rc_current_snapshot = snap\<rparr>"
  have "k_ingresses (kube_of no_failures event_cluster) ''argon'' = Some (list_ingresses event_cluster ''argon'')"
    by (simp add: kube_of_def)
  then have rec: "reconcile go_sorters id (kube_of no_failures (ev_cluster ?s)) demo_crypto Map.empty id 0 (ev_reconciler ?s) = (Broadcast snap, r)"
    by (simp add: reconcile_def events_init_def snap r_def)
  have start: "events_reachable go_sorters demo_crypto Map.empty ''argon'' ?s" by (rule events_start) simp
  have "event_step go_sorters demo_crypto Map.empty ?s
      (?s\<lparr>ev_queue := ev_queue ?s - {(''default'', ''web'')}, ev_reconciler := r, ev_seen := Some (ev_cluster ?s),
          ev_failures := no_failures, ev_sent := ev_sent ?s @ sent_by (Broadcast snap)\<rparr>)"
    by (rule event_reconciled [OF _ _ rec]) (simp_all add: events_init_def)
  with start have "events_reachable go_sorters demo_crypto Map.empty ''argon''
      (?s\<lparr>ev_queue := ev_queue ?s - {(''default'', ''web'')}, ev_reconciler := r, ev_seen := Some (ev_cluster ?s),
          ev_failures := no_failures, ev_sent := ev_sent ?s @ sent_by (Broadcast snap)\<rparr>)" by (rule events_run)
  from that [OF this _ _ _ _ snap(2)] show thesis by (simp add: events_init_def sent_by_def)
qed

theorem snapshot_current_witness:
  "\<exists>s snap. events_reachable go_sorters demo_crypto Map.empty ''argon'' s \<and> ev_seen s = Some event_cluster
     \<and> snapshot_of go_sorters demo_crypto Map.empty ''argon'' no_failures event_cluster snap
     \<and> ms_version (last (empty_snapshot # ev_sent s)) = ms_version snap"
proof -
  obtain s snap where s: "events_reachable go_sorters demo_crypto Map.empty ''argon'' s" "ev_queue s = {}"
    "ev_seen s = Some event_cluster" "ev_failures s = no_failures" "ev_sent s = [snap]"
    by (rule event_cluster_reconciled)
  from snapshot_current [OF s(1,2)] s(1,3,4) show ?thesis by (auto simp del: last.simps)
qed

end
