(* ===== verification/Control_Certs.thy ===== *)
theory Control_Certs
  imports Control_Annotations
begin

text \<open>
  The certificates between the planes (\<open>controlplane/internal/grpc\<close> and
  \<open>secrets_controller.go\<close>): the certificates the control plane issues, the names in them,
  the TLS settings of the server, and the controller that keeps the key material in the
  Secret the data planes mount.  The cryptographic libraries and the Kubernetes API are
  parameters.  The controller runs on events about the Secret; the lemmas show that it
  restores the Secret after every change but does not create one that has never existed,
  and that what it keeps there is the key material the running server uses.
\<close>

section \<open>The server\<close>

record key_bundle =
  kb_ca_cert :: string
  kb_ca_key :: string
  kb_server_cert :: string
  kb_server_key :: string

text \<open>The closure \<open>add\<close> of \<open>buildDNSSANs\<close>, on the keys of the map \<open>seen\<close>.\<close>

definition add_san :: "string \<Rightarrow> string list \<Rightarrow> string list" where
  "add_san name seen = (if name = [] then seen else if name \<in> set seen then seen else seen @ [name])"

text \<open>\<open>range_keys\<close> is the order in which the range over the map visits its keys.\<close>

definition build_dns_sans :: "(string list \<Rightarrow> string list) \<Rightarrow> string \<Rightarrow> string list" where
  "build_dns_sans range_keys common_name =
     (let seen = add_san common_name [];
          seen =
            (if CHR ''.'' \<in> set common_name then
               (let parts = str_split CHR ''.'' common_name in
                if 2 \<le> length parts then
                  (let svc = parts ! 0; ns = parts ! 1 in
                   add_san (svc @ ''.'' @ ns @ ''.svc.cluster.local'')
                     (add_san (svc @ ''.'' @ ns @ ''.svc'') (add_san svc seen)))
                else seen)
             else seen)
      in sort (range_keys seen))"

section \<open>Key material\<close>

datatype key_usage = Cert_Sign | CRL_Sign | Digital_Signature | Key_Encipherment

datatype ext_key_usage = Server_Auth | Client_Auth

text \<open>The fields of \<open>x509.Certificate\<close> the templates set; times in seconds.\<close>

record certificate_template =
  ct_serial :: nat
  ct_organization :: "string list"
  ct_common_name :: string
  ct_not_before :: int
  ct_not_after :: int
  ct_is_ca :: bool
  ct_key_usage :: "key_usage list"
  ct_ext_key_usage :: "ext_key_usage list"
  ct_basic_constraints_valid :: bool
  ct_dns_names :: "string list"
  ct_ip_addresses :: "string list"

text \<open>
  What the code uses of the libraries: the random source (the \<open>n\<close>-th RSA key of a size, the
  \<open>n\<close>-th number below a limit), certificates in DER, keys in PKCS 1, PEM blocks, the \<open>n\<close>-th reading
  of the clock, \<open>AddDate\<close> for years, and \<open>tls.X509KeyPair\<close>.  A failed key generation gives a nil
  pointer, a failed creation of a certificate no bytes.
\<close>

record 'k x509_lib =
  rsa_generate_key :: "nat \<Rightarrow> nat \<Rightarrow> 'k option"
  rand_int :: "nat \<Rightarrow> nat \<Rightarrow> nat"
  create_certificate :: "certificate_template \<Rightarrow> certificate_template \<Rightarrow> 'k \<Rightarrow> 'k \<Rightarrow> string option"
  marshal_pkcs1 :: "'k \<Rightarrow> string"
  pem_encode :: "string \<Rightarrow> string \<Rightarrow> string"
  clock :: "nat \<Rightarrow> int"
  add_years :: "int \<Rightarrow> int \<Rightarrow> int"
  x509_key_pair :: "string \<Rightarrow> string \<Rightarrow> (string \<times> string) option"

definition rand_serial :: "'k x509_lib \<Rightarrow> nat \<Rightarrow> nat" where
  "rand_serial lib n = rand_int lib n (2 ^ 128)"

definition ca_template :: "'k x509_lib \<Rightarrow> certificate_template" where
  "ca_template lib =
     \<lparr>ct_serial = rand_serial lib 0, ct_organization = [''Company, INC.''], ct_common_name = ''Local Dev CA'',
      ct_not_before = clock lib 0 - 300, ct_not_after = add_years lib 3 (clock lib 1), ct_is_ca = True,
      ct_key_usage = [Cert_Sign, CRL_Sign], ct_ext_key_usage = [], ct_basic_constraints_valid = True,
      ct_dns_names = [], ct_ip_addresses = []\<rparr>"

definition server_template :: "'k x509_lib \<Rightarrow> string \<Rightarrow> string list \<Rightarrow> string list \<Rightarrow> certificate_template" where
  "server_template lib common_name dns_sans ip_sans =
     \<lparr>ct_serial = rand_serial lib 1, ct_organization = [''Company, INC.''], ct_common_name = common_name,
      ct_not_before = clock lib 2 - 300, ct_not_after = add_years lib 1 (clock lib 3), ct_is_ca = False,
      ct_key_usage = [Digital_Signature, Key_Encipherment], ct_ext_key_usage = [Server_Auth, Client_Auth],
      ct_basic_constraints_valid = True, ct_dns_names = dns_sans, ct_ip_addresses = ip_sans\<rparr>"

text \<open>
  A certificate in PEM.  The code ignores the error of \<open>CreateCertificate\<close>, so a failure
  leaves a block without bytes.
\<close>

definition certificate_pem ::
  "'k x509_lib \<Rightarrow> certificate_template \<Rightarrow> certificate_template \<Rightarrow> 'k \<Rightarrow> 'k \<Rightarrow> string" where
  "certificate_pem lib tmpl parent key signer =
     (let der = (case create_certificate lib tmpl parent key signer of Some der \<Rightarrow> der | None \<Rightarrow> [])
      in pem_encode lib ''CERTIFICATE'' der)"

definition key_pem :: "'k x509_lib \<Rightarrow> 'k \<Rightarrow> string" where
  "key_pem lib key = pem_encode lib ''RSA PRIVATE KEY'' (marshal_pkcs1 lib key)"

text \<open>\<open>None\<close> is the panic on a nil key; the error of the source is always nil.\<close>

definition new_grpc_server_certs :: "'k x509_lib \<Rightarrow> string \<Rightarrow> string list \<Rightarrow> string list \<Rightarrow> key_bundle option" where
  "new_grpc_server_certs lib common_name dns_sans ip_sans =
     (case rsa_generate_key lib 0 4096 of
        None \<Rightarrow> None
      | Some ca_key \<Rightarrow>
          (case rsa_generate_key lib 1 2048 of
             None \<Rightarrow> None
           | Some srv_key \<Rightarrow>
               (let ca_tmpl = ca_template lib; srv_tmpl = server_template lib common_name dns_sans ip_sans
                in Some \<lparr>kb_ca_cert = certificate_pem lib ca_tmpl ca_tmpl ca_key ca_key,
                         kb_ca_key = key_pem lib ca_key,
                         kb_server_cert = certificate_pem lib srv_tmpl ca_tmpl srv_key ca_key,
                         kb_server_key = key_pem lib srv_key\<rparr>)))"

datatype client_auth = No_Client_Cert | Require_And_Verify_Client_Cert

record grpc_server =
  gs_addr :: string
  gs_bundle :: key_bundle
  gs_certificate :: "string \<times> string"
  gs_client_cas :: string
  gs_client_auth :: client_auth

text \<open>\<open>None\<close> is the error of \<open>X509KeyPair\<close> or the panic of the key generation.\<close>

definition new_server :: "'k x509_lib \<Rightarrow> (string list \<Rightarrow> string list) \<Rightarrow> string \<Rightarrow> string \<Rightarrow> grpc_server option" where
  "new_server lib range_keys addr common_name =
     (case new_grpc_server_certs lib common_name (build_dns_sans range_keys common_name) [''127.0.0.1''] of
        None \<Rightarrow> None
      | Some b \<Rightarrow>
          (case x509_key_pair lib (kb_server_cert b) (kb_server_key b) of
             None \<Rightarrow> None
           | Some cert \<Rightarrow>
               Some \<lparr>gs_addr = addr, gs_bundle = b, gs_certificate = cert, gs_client_cas = kb_ca_cert b,
                     gs_client_auth = Require_And_Verify_Client_Cert\<rparr>))"

section \<open>The Secret\<close>

type_synonym secrets = "string \<times> string \<rightharpoonup> (string \<rightharpoonup> string)"

definition name_grpc_secret :: string where
  "name_grpc_secret = ''grpc-tls''"

definition our_key :: "string \<Rightarrow> string \<times> string" where
  "our_key ns = (ns, name_grpc_secret)"

text \<open>\<open>CreateOrUpdate\<close> with the mutation of \<open>createCertsSecret\<close>, where the API does not fail.\<close>

definition create_certs_secret :: "key_bundle \<Rightarrow> string \<Rightarrow> secrets \<Rightarrow> secrets" where
  "create_certs_secret b ns secrets =
     (let data = (case secrets (our_key ns) of None \<Rightarrow> Map.empty | Some d \<Rightarrow> d)
      in secrets(our_key ns \<mapsto>
           data(''tls.crt'' \<mapsto> kb_server_cert b, ''tls.key'' \<mapsto> kb_server_key b, ''ca.crt'' \<mapsto> kb_ca_cert b)))"

definition certs_reconcile :: "key_bundle \<Rightarrow> string \<Rightarrow> string \<times> string \<Rightarrow> secrets \<Rightarrow> secrets" where
  "certs_reconcile b target_namespace req secrets =
     (if snd req \<noteq> name_grpc_secret \<or> fst req \<noteq> target_namespace then secrets
      else create_certs_secret b target_namespace secrets)"

definition only_our_secret :: "string \<Rightarrow> string \<times> string \<Rightarrow> bool" where
  "only_our_secret namespace key \<longleftrightarrow> snd key = name_grpc_secret \<and> fst key = namespace"

text \<open>
  The Secrets of the cluster, the requests waiting in the queue of the controller, which
  holds each at most once, and, as history, whether the Secret has ever existed.
\<close>

record certs_state =
  cs_secrets :: secrets
  cs_queue :: "(string \<times> string) set"
  cs_existed :: bool

definition certs_init :: "string \<Rightarrow> secrets \<Rightarrow> certs_state" where
  "certs_init ns secrets =
     \<lparr>cs_secrets = secrets, cs_queue = {key. only_our_secret ns key \<and> secrets key \<noteq> None},
      cs_existed = (secrets (our_key ns) \<noteq> None)\<rparr>"

text \<open>The event of a change to \<open>key\<close>.\<close>

definition enqueue :: "string \<Rightarrow> string \<times> string \<Rightarrow> certs_state \<Rightarrow> secrets \<Rightarrow> certs_state" where
  "enqueue ns key s secrets =
     s\<lparr>cs_secrets := secrets,
       cs_queue := (if secrets \<noteq> cs_secrets s \<and> only_our_secret ns key then insert key (cs_queue s) else cs_queue s),
       cs_existed := (cs_existed s \<or> secrets (our_key ns) \<noteq> None)\<rparr>"

inductive certs_step :: "key_bundle \<Rightarrow> string \<Rightarrow> certs_state \<Rightarrow> certs_state \<Rightarrow> bool" for b ns where
  secret_changed: "certs_step b ns s (enqueue ns key s ((cs_secrets s)(key := data)))"
| secret_reconciled: "key \<in> cs_queue s \<Longrightarrow>
    certs_step b ns s
      (enqueue ns key (s\<lparr>cs_queue := cs_queue s - {key}\<rparr>) (certs_reconcile b ns key (cs_secrets s)))"
| secret_api_failed: "key \<in> cs_queue s \<Longrightarrow> certs_step b ns s s"

inductive certs_reachable :: "key_bundle \<Rightarrow> string \<Rightarrow> certs_state \<Rightarrow> bool" for b ns where
  certs_start: "certs_reachable b ns (certs_init ns secrets)"
| certs_run: "certs_reachable b ns s \<Longrightarrow> certs_step b ns s t \<Longrightarrow> certs_reachable b ns t"

section \<open>Names\<close>

lemma set_add_san [simp]: "set (add_san name seen) = (if name = [] then set seen else insert name (set seen))"
  by (auto simp: add_san_def)

lemma distinct_add_san [simp]: "distinct seen \<Longrightarrow> distinct (add_san name seen)"
  by (simp add: add_san_def)

lemma str_split_length: "c \<in> set s \<Longrightarrow> 2 \<le> length (str_split c s)"
proof -
  have "length (str_split c s) = Suc (count_list s c)" by (induction s) (auto split: list.split)
  then show "c \<in> set s \<Longrightarrow> 2 \<le> length (str_split c s)"
    using count_list_0_iff [of s c] by (cases "count_list s c") auto
qed

text \<open>
  The names in the server certificate: the common name and, if it has a dot, the names of the
  service in the cluster, sorted, without repetition, in whatever order the map is visited.
\<close>

theorem dns_sans_spec:
  assumes "\<And>xs. mset (range_keys xs) = mset xs"
  shows "sorted (build_dns_sans range_keys cn) \<and> distinct (build_dns_sans range_keys cn)
    \<and> build_dns_sans range_keys cn = build_dns_sans id cn
    \<and> set (build_dns_sans range_keys cn) = {cn} - {[]} \<union>
        (if CHR ''.'' \<in> set cn then
           {str_split CHR ''.'' cn ! 0} - {[]} \<union>
           {str_split CHR ''.'' cn ! 0 @ ''.'' @ str_split CHR ''.'' cn ! 1 @ ''.svc'',
            str_split CHR ''.'' cn ! 0 @ ''.'' @ str_split CHR ''.'' cn ! 1 @ ''.svc.cluster.local''}
         else {})"
proof -
  have sort: "sort (range_keys xs) = sort xs" for xs :: "string list"
    by (rule properties_for_sort) (simp_all add: assms)
  have parts: "2 \<le> length (str_split CHR ''.'' cn)" if "CHR ''.'' \<in> set cn"
    using that by (rule str_split_length)
  show ?thesis
  proof (cases "CHR ''.'' \<in> set cn")
    case True
    then show ?thesis unfolding build_dns_sans_def Let_def sort id_def using parts [OF True] by auto
  next
    case False
    then show ?thesis unfolding build_dns_sans_def Let_def sort id_def by auto
  qed
qed

lemma common_name_listed:
  "(\<And>xs. mset (range_keys xs) = mset xs) \<Longrightarrow> cn \<noteq> [] \<Longrightarrow> cn \<in> set (build_dns_sans range_keys cn)"
  using dns_sans_spec [of range_keys cn] by auto

section \<open>Convergence\<close>

definition holds_bundle :: "key_bundle \<Rightarrow> string \<Rightarrow> secrets \<Rightarrow> bool" where
  "holds_bundle b ns secrets \<longleftrightarrow>
     (case secrets (our_key ns) of
        None \<Rightarrow> False
      | Some d \<Rightarrow> d ''tls.crt'' = Some (kb_server_cert b) \<and> d ''tls.key'' = Some (kb_server_key b)
          \<and> d ''ca.crt'' = Some (kb_ca_cert b))"

definition certs_inv :: "key_bundle \<Rightarrow> string \<Rightarrow> certs_state \<Rightarrow> bool" where
  "certs_inv b ns s \<longleftrightarrow>
     (if cs_existed s then our_key ns \<in> cs_queue s \<or> holds_bundle b ns (cs_secrets s)
      else cs_secrets s (our_key ns) = None \<and> our_key ns \<notin> cs_queue s)
     \<and> (\<forall>key \<in> cs_queue s. key = our_key ns)"

lemma only_our_secret_iff: "only_our_secret ns key \<longleftrightarrow> key = our_key ns"
  by (cases key) (auto simp: only_our_secret_def our_key_def)

lemma holds_create: "holds_bundle b ns (create_certs_secret b ns secrets)"
  by (simp add: holds_bundle_def create_certs_secret_def Let_def)

lemma certs_inv_unchanged: "certs_inv b ns s \<Longrightarrow> certs_inv b ns (enqueue ns key s (cs_secrets s))"
  by (simp add: certs_inv_def enqueue_def split: if_splits)

lemma certs_inv_changed:
  assumes "certs_inv b ns s" "secrets \<noteq> cs_secrets s" "\<forall>k. k \<noteq> our_key ns \<longrightarrow> secrets k = cs_secrets s k"
  shows "certs_inv b ns (enqueue ns (our_key ns) s secrets)"
proof -
  have "cs_existed s \<or> secrets (our_key ns) \<noteq> None"
  proof (rule ccontr)
    assume "\<not> (cs_existed s \<or> secrets (our_key ns) \<noteq> None)"
    then have "secrets k = cs_secrets s k" for k
      using assms(1,3) by (cases "k = our_key ns") (auto simp: certs_inv_def simp del: split_paired_All)
    with assms(2) show False by blast
  qed
  then show ?thesis using assms(1,2) by (simp add: certs_inv_def enqueue_def only_our_secret_iff)
qed

lemma certs_inv_other:
  assumes "certs_inv b ns s" "key \<noteq> our_key ns"
  shows "certs_inv b ns (enqueue ns key s ((cs_secrets s)(key := data)))"
  using assms by (simp add: certs_inv_def enqueue_def only_our_secret_iff holds_bundle_def split: if_splits)

lemma certs_inv_step: "certs_step b ns s t \<Longrightarrow> certs_inv b ns s \<Longrightarrow> certs_inv b ns t"
proof (induction rule: certs_step.induct)
  case (secret_changed s key data)
  consider "key \<noteq> our_key ns" | "(cs_secrets s)(key := data) = cs_secrets s"
    | "key = our_key ns" "(cs_secrets s)(key := data) \<noteq> cs_secrets s" by blast
  then show ?case
  proof cases
    case 1
    with secret_changed show ?thesis by (rule certs_inv_other)
  next
    case 2
    show ?thesis unfolding 2 using secret_changed by (rule certs_inv_unchanged)
  next
    case 3
    show ?thesis unfolding 3(1)
      by (rule certs_inv_changed [OF secret_changed 3(2) [unfolded 3(1)]]) (simp del: split_paired_All)
  qed
next
  case (secret_reconciled key s)
  then have key: "key = our_key ns" by (simp add: certs_inv_def)
  then have "certs_reconcile b ns key (cs_secrets s) = create_certs_secret b ns (cs_secrets s)"
    by (simp add: certs_reconcile_def our_key_def)
  moreover have "create_certs_secret b ns (cs_secrets s) (our_key ns) \<noteq> None"
    by (simp add: create_certs_secret_def Let_def)
  moreover have "cs_queue s - {key} = {}" using secret_reconciled(2) key by (auto simp: certs_inv_def)
  ultimately show ?case using holds_create [of b ns "cs_secrets s"] key
    by (simp add: certs_inv_def enqueue_def only_our_secret_iff) blast
qed

lemma certs_inv_reachable: "certs_reachable b ns s \<Longrightarrow> certs_inv b ns s"
proof (induction rule: certs_reachable.induct)
  case (certs_start secrets)
  show ?case by (auto simp: certs_inv_def certs_init_def only_our_secret_iff)
next
  case (certs_run s t)
  then show ?case by (blast intro: certs_inv_step)
qed

text \<open>
  The Secret converges.  Whatever changes or deletes it, once the queue is empty the Secret
  holds the key material of the running server, provided it has ever existed; one that has
  never existed is not created, because only events about the Secret start the controller.
\<close>

theorem secret_converges:
  assumes "certs_reachable b ns s" and "cs_queue s = {}"
  shows "if cs_existed s then holds_bundle b ns (cs_secrets s) else cs_secrets s (our_key ns) = None"
  using certs_inv_reachable [OF assms(1)] assms(2) by (auto simp: certs_inv_def split: if_splits)

section \<open>What the data planes mount\<close>

lemma new_server_keys:
  assumes "new_server lib range_keys addr cn = Some srv"
  obtains ca_key srv_key where "rsa_generate_key lib 0 4096 = Some ca_key" "rsa_generate_key lib 1 2048 = Some srv_key"
    "kb_ca_cert (gs_bundle srv) = certificate_pem lib (ca_template lib) (ca_template lib) ca_key ca_key"
    "kb_server_cert (gs_bundle srv) = certificate_pem lib
       (server_template lib cn (build_dns_sans range_keys cn) [''127.0.0.1'']) (ca_template lib) srv_key ca_key"
    "kb_server_key (gs_bundle srv) = key_pem lib srv_key"
    "x509_key_pair lib (kb_server_cert (gs_bundle srv)) (kb_server_key (gs_bundle srv)) = Some (gs_certificate srv)"
    "gs_client_cas srv = kb_ca_cert (gs_bundle srv)" "gs_client_auth srv = Require_And_Verify_Client_Cert"
  using assms by (auto simp: new_server_def new_grpc_server_certs_def Let_def split: option.splits)

text \<open>
  C26: the data planes mount the key material of the running server.  Once the queue of the
  Secret controller is empty, the Secret is absent if it has never existed.  Otherwise its
  certificate and key are the pair the server itself presents; the certificate is signed
  with the key of the authority, lists the common name of the server, is made out for
  servers and for clients, and ends one year after its creation; and the authority in the
  Secret is the one the server checks the certificates of clients against, which it
  demands.
\<close>

theorem secret_matches_server:
  assumes "new_server lib range_keys addr cn = Some srv" and "cn \<noteq> []" and "\<And>xs. mset (range_keys xs) = mset xs"
    and "certs_reachable (gs_bundle srv) ns s" and "cs_queue s = {}"
  shows "if cs_existed s
    then \<exists>files crt key ca_key srv_key tmpl.
      cs_secrets s (our_key ns) = Some files \<and> files ''tls.crt'' = Some crt \<and> files ''tls.key'' = Some key
      \<and> x509_key_pair lib crt key = Some (gs_certificate srv)
      \<and> rsa_generate_key lib 0 4096 = Some ca_key \<and> rsa_generate_key lib 1 2048 = Some srv_key
      \<and> crt = certificate_pem lib tmpl (ca_template lib) srv_key ca_key \<and> key = key_pem lib srv_key
      \<and> cn \<in> set (ct_dns_names tmpl) \<and> set (ct_ext_key_usage tmpl) = {Server_Auth, Client_Auth}
      \<and> ct_not_after tmpl = add_years lib 1 (clock lib 3)
      \<and> files ''ca.crt'' = Some (certificate_pem lib (ca_template lib) (ca_template lib) ca_key ca_key)
      \<and> files ''ca.crt'' = Some (gs_client_cas srv) \<and> gs_client_auth srv = Require_And_Verify_Client_Cert
    else cs_secrets s (our_key ns) = None"
proof (cases "cs_existed s")
  case True
  let ?b = "gs_bundle srv" and ?tmpl = "server_template lib cn (build_dns_sans range_keys cn) [''127.0.0.1'']"
  have "holds_bundle ?b ns (cs_secrets s)"
    using certs_inv_reachable [OF assms(4)] assms(5) True by (simp add: certs_inv_def)
  then obtain files where files: "cs_secrets s (our_key ns) = Some files" "files ''tls.crt'' = Some (kb_server_cert ?b)"
    "files ''tls.key'' = Some (kb_server_key ?b)" "files ''ca.crt'' = Some (kb_ca_cert ?b)"
    by (auto simp: holds_bundle_def split: option.splits)
  from assms(1) obtain ca_key srv_key where k: "rsa_generate_key lib 0 4096 = Some ca_key"
    "rsa_generate_key lib 1 2048 = Some srv_key"
    "kb_ca_cert ?b = certificate_pem lib (ca_template lib) (ca_template lib) ca_key ca_key"
    "kb_server_cert ?b = certificate_pem lib ?tmpl (ca_template lib) srv_key ca_key"
    "kb_server_key ?b = key_pem lib srv_key"
    "x509_key_pair lib (kb_server_cert ?b) (kb_server_key ?b) = Some (gs_certificate srv)"
    "gs_client_cas srv = kb_ca_cert ?b" "gs_client_auth srv = Require_And_Verify_Client_Cert"
    by (rule new_server_keys)
  have t: "cn \<in> set (ct_dns_names ?tmpl)" "set (ct_ext_key_usage ?tmpl) = {Server_Auth, Client_Auth}"
    "ct_not_after ?tmpl = add_years lib 1 (clock lib 3)"
    using common_name_listed [OF assms(3,2)] by (simp_all add: server_template_def)
  have ca: "files ''ca.crt'' = Some (certificate_pem lib (ca_template lib) (ca_template lib) ca_key ca_key)"
    "files ''ca.crt'' = Some (gs_client_cas srv)"
    using files(4) k(3,7) by simp_all
  show ?thesis
    unfolding if_P [OF True]
    by (intro exI [of _ files] exI [of _ "kb_server_cert ?b"] exI [of _ "kb_server_key ?b"] exI [of _ ca_key]
        exI [of _ srv_key] exI [of _ ?tmpl] conjI files(1-3) k(1,2,4-6,8) t ca)
next
  case False
  then show ?thesis using certs_inv_reachable [OF assms(4)] assms(5) by (simp add: certs_inv_def)
qed

section \<open>An instance\<close>

text \<open>
  A library in which keys are numbers, a certificate is the numerals of its key and of its
  signer's, and years have no leap days.
\<close>

definition demo_x509 :: "nat x509_lib" where
  "demo_x509 =
     \<lparr>rsa_generate_key = (\<lambda>n _. Some n), rand_int = (\<lambda>n _. n),
      create_certificate = (\<lambda>_ _ key signer. Some (show_nat key @ ''/'' @ show_nat signer)),
      marshal_pkcs1 = show_nat, pem_encode = (\<lambda>_ s. s), clock = (\<lambda>_. 1000), add_years = (\<lambda>n t. t + n * 31536000),
      x509_key_pair = (\<lambda>c k. Some (c, k))\<rparr>"

text \<open>The Secret with the key material of a server, and the controller that has looked at it.\<close>

lemma settled_reachable:
  assumes "files = [''tls.crt'' \<mapsto> kb_server_cert b, ''tls.key'' \<mapsto> kb_server_key b, ''ca.crt'' \<mapsto> kb_ca_cert b]"
  shows "certs_reachable b ns \<lparr>cs_secrets = [our_key ns \<mapsto> files], cs_queue = {}, cs_existed = True\<rparr>"
proof -
  let ?s = "certs_init ns [our_key ns \<mapsto> files]"
  have queue: "cs_queue ?s = {our_key ns}" by (auto simp: certs_init_def only_our_secret_iff)
  have "certs_reconcile b ns (our_key ns) [our_key ns \<mapsto> files] = [our_key ns \<mapsto> files]"
    by (simp add: certs_reconcile_def create_certs_secret_def our_key_def Let_def assms fun_upd_twist)
  then have "certs_step b ns ?s \<lparr>cs_secrets = [our_key ns \<mapsto> files], cs_queue = {}, cs_existed = True\<rparr>"
    using secret_reconciled [of "our_key ns" ?s b ns] queue by (simp add: certs_init_def enqueue_def only_our_secret_iff)
  with certs_start show ?thesis by (rule certs_run)
qed

theorem secret_matches_server_witness:
  "\<exists>srv s files. new_server demo_x509 id '':18000'' ''argon'' = Some srv
     \<and> certs_reachable (gs_bundle srv) ''argon'' s \<and> cs_secrets s (our_key ''argon'') = Some files
     \<and> files ''ca.crt'' = Some (gs_client_cas srv)
     \<and> (\<exists>crt key. files ''tls.crt'' = Some crt \<and> files ''tls.key'' = Some key \<and> gs_certificate srv = (crt, key))"
proof -
  obtain srv where srv: "new_server demo_x509 id '':18000'' ''argon'' = Some srv"
    by (simp add: new_server_def new_grpc_server_certs_def demo_x509_def Let_def)
  define files where "files = [''tls.crt'' \<mapsto> kb_server_cert (gs_bundle srv), ''tls.key'' \<mapsto> kb_server_key (gs_bundle srv),
    ''ca.crt'' \<mapsto> kb_ca_cert (gs_bundle srv)]"
  let ?s = "\<lparr>cs_secrets = [our_key ''argon'' \<mapsto> files], cs_queue = {}, cs_existed = True\<rparr>"
  have settled: "certs_reachable (gs_bundle srv) ''argon'' ?s" using files_def by (rule settled_reachable)
  have "x509_key_pair demo_x509 crt key = Some (crt, key)" for crt key by (simp add: demo_x509_def)
  with secret_matches_server [OF srv _ _ settled] srv settled show ?thesis
    by (intro exI [of _ srv] exI [of _ ?s] exI [of _ files]) auto
qed

end
