(* ===== verification/Control_Main.thy ===== *)
theory Control_Main
  imports Control_Certs
begin

text \<open>
  The start of the control plane (\<open>controlplane/cmd/main.go\<close>): the flags with their defaults,
  the settings derived from them, and every way in which the start can end.  What the
  controller library answers is a parameter.
\<close>

section \<open>Flags\<close>

record control_flags =
  cf_metrics_addr :: string
  cf_probe_addr :: string
  cf_leader_elect :: bool
  cf_secure_metrics :: bool
  cf_webhook_cert_path :: string
  cf_webhook_cert_name :: string
  cf_webhook_cert_key :: string
  cf_metrics_cert_path :: string
  cf_metrics_cert_name :: string
  cf_metrics_cert_key :: string
  cf_enable_http2 :: bool
  cf_ingress_class :: string
  cf_gateway_class :: string
  cf_config :: string
  cf_grpc_server_name :: string
  cf_namespace :: string

definition default_flags :: control_flags where
  "default_flags =
     \<lparr>cf_metrics_addr = ''0'', cf_probe_addr = '':8081'', cf_leader_elect = False, cf_secure_metrics = True,
      cf_webhook_cert_path = [], cf_webhook_cert_name = ''tls.crt'', cf_webhook_cert_key = ''tls.key'',
      cf_metrics_cert_path = [], cf_metrics_cert_name = ''tls.crt'', cf_metrics_cert_key = ''tls.key'',
      cf_enable_http2 = False, cf_ingress_class = ''argon'', cf_gateway_class = ''argon-gateway'', cf_config = [],
      cf_grpc_server_name = ''argon'', cf_namespace = ''argon''\<rparr>"

section \<open>Settings\<close>

text \<open>The functions applied to a TLS configuration, and the certificate watcher by the two files it reads.\<close>

type_synonym cert_watcher = "string \<times> string"

datatype tls_opt = Disable_Http2 | Get_Certificate cert_watcher

record metrics_options =
  mo_bind_address :: string
  mo_secure_serving :: bool
  mo_tls_opts :: "tls_opt list"
  mo_with_authorization :: bool

datatype runnable = Grpc_Runnable | Watcher_Runnable cert_watcher

record running_control =
  ru_webhook_tls_opts :: "tls_opt list"
  ru_metrics :: metrics_options
  ru_probe_addr :: string
  ru_leader_election :: bool
  ru_ingress_class :: string
  ru_server :: grpc_server
  ru_certs_namespace :: "string option"
  ru_runnables :: "runnable list"

text \<open>
  The answers of the library: whether a certificate watcher can be made, a manager can be made,
  the two controllers and each runnable can be registered, and the checks added.
\<close>

record control_env =
  ce_join :: "string \<Rightarrow> string \<Rightarrow> string"
  ce_cert_watcher :: "cert_watcher \<Rightarrow> bool"
  ce_new_manager :: bool
  ce_setup_ingress :: bool
  ce_setup_certs :: bool
  ce_add :: "runnable \<Rightarrow> bool"
  ce_healthz :: bool
  ce_readyz :: bool

text \<open>\<open>Nil_Pointer\<close> is the panic on the missing server, \<open>Exited\<close> the call of \<open>os.Exit(1)\<close>.\<close>

datatype control_outcome = Exited string | Nil_Pointer | Started running_control

definition tls_opts :: "control_flags \<Rightarrow> tls_opt list" where
  "tls_opts fl = (if \<not> cf_enable_http2 fl then [Disable_Http2] else [])"

text \<open>A watcher if a directory is given; \<open>Inl\<close> is the exit.\<close>

definition make_watcher :: "control_env \<Rightarrow> string \<Rightarrow> string \<Rightarrow> string \<Rightarrow> unit + cert_watcher option" where
  "make_watcher env path cert key =
     (if path \<noteq> [] then
        (let w = (ce_join env path cert, ce_join env path key) in if ce_cert_watcher env w then Inr (Some w) else Inl ())
      else Inr None)"

definition watcher_opts :: "cert_watcher option \<Rightarrow> tls_opt list" where
  "watcher_opts w = (case w of None \<Rightarrow> [] | Some w \<Rightarrow> [Get_Certificate w])"

definition watcher_runnables :: "cert_watcher option \<Rightarrow> runnable list" where
  "watcher_runnables w = (case w of None \<Rightarrow> [] | Some w \<Rightarrow> [Watcher_Runnable w])"

definition metrics_server_options :: "control_flags \<Rightarrow> cert_watcher option \<Rightarrow> metrics_options" where
  "metrics_server_options fl w =
     \<lparr>mo_bind_address = cf_metrics_addr fl, mo_secure_serving = cf_secure_metrics fl,
      mo_tls_opts = tls_opts fl @ watcher_opts w, mo_with_authorization = cf_secure_metrics fl\<rparr>"

definition grpc_addr :: string where
  "grpc_addr = '':18000''"

text \<open>
  From the manager on: an error of \<open>NewServer\<close> is only logged, and the next line reads a field
  of the missing server; an error of \<open>SetupCertController\<close> is only logged as well.
\<close>

definition control_register ::
  "'k x509_lib \<Rightarrow> (string list \<Rightarrow> string list) \<Rightarrow> control_env \<Rightarrow> control_flags \<Rightarrow> cert_watcher option \<Rightarrow> cert_watcher option
    \<Rightarrow> control_outcome" where
  "control_register lib range_keys env fl webhook metrics =
     (if \<not> ce_new_manager env then Exited ''unable to start manager''
      else if \<not> ce_setup_ingress env then Exited ''unable to create controller''
      else case new_server lib range_keys grpc_addr (cf_grpc_server_name fl) of
        None \<Rightarrow> Nil_Pointer
      | Some srv \<Rightarrow>
          if \<not> ce_add env Grpc_Runnable then Exited ''unable to register grpc controller''
          else if \<not> list_all (ce_add env) (watcher_runnables metrics) then
            Exited ''unable to add metrics certificate watcher to manager''
          else if \<not> list_all (ce_add env) (watcher_runnables webhook) then
            Exited ''unable to add webhook certificate watcher to manager''
          else if \<not> ce_healthz env then Exited ''unable to set up health check''
          else if \<not> ce_readyz env then Exited ''unable to set up ready check''
          else Started
            \<lparr>ru_webhook_tls_opts = tls_opts fl @ watcher_opts webhook, ru_metrics = metrics_server_options fl metrics,
             ru_probe_addr = cf_probe_addr fl, ru_leader_election = cf_leader_elect fl,
             ru_ingress_class = cf_ingress_class fl, ru_server = srv,
             ru_certs_namespace = (if ce_setup_certs env then Some (cf_namespace fl) else None),
             ru_runnables = Grpc_Runnable # watcher_runnables metrics @ watcher_runnables webhook\<rparr>)"

definition control_main ::
  "'k x509_lib \<Rightarrow> (string list \<Rightarrow> string list) \<Rightarrow> control_env \<Rightarrow> control_flags \<Rightarrow> control_outcome" where
  "control_main lib range_keys env fl =
     (case make_watcher env (cf_webhook_cert_path fl) (cf_webhook_cert_name fl) (cf_webhook_cert_key fl) of
        Inl _ \<Rightarrow> Exited ''Failed to initialize webhook certificate watcher''
      | Inr webhook \<Rightarrow>
          (case make_watcher env (cf_metrics_cert_path fl) (cf_metrics_cert_name fl) (cf_metrics_cert_key fl) of
             Inl _ \<Rightarrow> Exited ''to initialize metrics certificate watcher''
           | Inr metrics \<Rightarrow> control_register lib range_keys env fl webhook metrics))"

section \<open>What a start gives\<close>

text \<open>
  A control plane that has started offers no HTTP/2 on its metrics and webhook servers unless
  the flag asks for it, serves metrics securely exactly behind authorization, and has a server
  that asks every data plane for a certificate.  It runs without the controller of the Secret
  if that could not be registered.  The start panics exactly if no server could be made.
\<close>

theorem control_main_outcome:
  "case control_main lib range_keys env fl of
     Started ru \<Rightarrow>
       (Disable_Http2 \<in> set (ru_webhook_tls_opts ru) \<longleftrightarrow> \<not> cf_enable_http2 fl)
       \<and> (Disable_Http2 \<in> set (mo_tls_opts (ru_metrics ru)) \<longleftrightarrow> \<not> cf_enable_http2 fl)
       \<and> mo_with_authorization (ru_metrics ru) = mo_secure_serving (ru_metrics ru)
       \<and> gs_client_auth (ru_server ru) = Require_And_Verify_Client_Cert
       \<and> Grpc_Runnable \<in> set (ru_runnables ru)
       \<and> (ru_certs_namespace ru = None \<longleftrightarrow> \<not> ce_setup_certs env)
   | Nil_Pointer \<Rightarrow> new_server lib range_keys grpc_addr (cf_grpc_server_name fl) = None
   | Exited _ \<Rightarrow> True"
proof -
  have auth: "new_server lib range_keys grpc_addr (cf_grpc_server_name fl) = Some srv \<Longrightarrow>
      gs_client_auth srv = Require_And_Verify_Client_Cert" for srv
    by (auto simp: new_server_def split: option.splits)
  have opts: "Disable_Http2 \<in> set (tls_opts fl @ watcher_opts w) \<longleftrightarrow> \<not> cf_enable_http2 fl" for w
    by (auto simp: tls_opts_def watcher_opts_def split: option.splits)
  show ?thesis
    using auth by (auto simp: control_main_def control_register_def metrics_server_options_def opts
        simp del: set_append split: sum.split option.split)
qed

end
