(* ===== verification/Control_Gateway.thy ===== *)
theory Control_Gateway
  imports Control_Ingress
begin

text \<open>
  The Gateway controller (\<open>controlplane/internal/controller/gateway_controller.go\<close>), which is
  not started by \<open>main\<close>: the addresses and listeners of a Gateway, the certificates its
  listeners refer to, and the index from Gateways to the routes attached to them.  The
  Kubernetes API and the resolver are parameters; every error is a value, and \<open>Gw_Panic\<close> the
  panic on a nil pointer.  The lemmas show that no reconciliation succeeds and that the
  index never finds a route.
\<close>

section \<open>Gateways\<close>

record secret_object_reference =
  so_group :: "string option"
  so_kind :: "string option"
  so_name :: string
  so_namespace :: "string option"

record gateway_tls =
  gt_mode :: "string option"
  gt_certificate_refs :: "secret_object_reference list"

record gateway_listener =
  gl_name :: string
  gl_port :: i32
  gl_protocol :: string
  gl_hostname :: "string option"
  gl_tls :: "gateway_tls option"

record gateway_address =
  ga_type :: "string option"
  ga_value :: string

record gateway =
  gw_name :: string
  gw_namespace :: string
  gw_addresses :: "gateway_address list"
  gw_listeners :: "gateway_listener list"

record listener_snapshot =
  ls_name :: string
  ls_port :: i32
  ls_protocol :: string
  ls_hostname :: "string option"
  ls_tls_mode :: "string option"
  ls_certificates :: "secret_object_reference list"

record 'ip gateway_snapshot =
  gs_name :: string
  gs_namespace :: string
  gs_addresses :: "'ip list"
  gs_listeners :: "listener_snapshot list"
  gs_tls :: "tls_secret list"

datatype gateway_error =
    Gw_Api_Error
  | Gw_No_Listeners string
  | Gw_No_Addresses string
  | Gw_Invalid_Ip string string
  | Gw_Not_Resolved string string
  | Gw_Unsupported_Address string string
  | Gw_Ref_Kind string string
  | Gw_Ref_Group string string
  | Gw_Secret_Incomplete string string
  | Gw_Not_Decoded string string
  | Gw_Not_Parsed string string
  | Gw_No_Gateways
  | Gw_Panic

text \<open>The API calls of the controller, \<open>netip.ParseAddr\<close> and the resolver; \<open>None\<close> is an error.\<close>

record 'ip gateway_api =
  gp_gateways :: "string \<Rightarrow> gateway list option"
  gp_secret :: "string \<Rightarrow> string \<Rightarrow> (string \<rightharpoonup> string) option"
  gp_list_routes :: "string \<Rightarrow> unit option"
  gp_parse_addr :: "string \<Rightarrow> 'ip option"
  gp_lookup :: "string \<Rightarrow> 'ip list option"

section \<open>Reading a Gateway\<close>

fun gateway_addresses :: "'ip gateway_api \<Rightarrow> string \<Rightarrow> gateway_address list \<Rightarrow> gateway_error + 'ip list" where
  "gateway_addresses api name [] = Inr []"
| "gateway_addresses api name (addr # addrs) =
     (let addr_type = (case ga_type addr of None \<Rightarrow> ''IPAddress'' | Some t \<Rightarrow> t);
          ips =
            (if addr_type = ''IPAddress'' then
               (case gp_parse_addr api (ga_value addr) of
                  None \<Rightarrow> Inl (Gw_Invalid_Ip name (ga_value addr))
                | Some ip \<Rightarrow> Inr [ip])
             else if addr_type = ''Hostname'' \<or> addr_type = ''NamedAddress'' then
               (case gp_lookup api (ga_value addr) of
                  None \<Rightarrow> Inl (Gw_Not_Resolved name (ga_value addr))
                | Some resolved \<Rightarrow> Inr resolved)
             else Inl (Gw_Unsupported_Address name addr_type))
      in case ips of
           Inl e \<Rightarrow> Inl e
         | Inr ips \<Rightarrow>
             (case gateway_addresses api name addrs of Inl e \<Rightarrow> Inl e | Inr rest \<Rightarrow> Inr (ips @ rest)))"

definition get_addresses_from_gateway :: "'ip gateway_api \<Rightarrow> gateway \<Rightarrow> gateway_error + 'ip list" where
  "get_addresses_from_gateway api gw =
     (if gw_addresses gw = [] then Inl (Gw_No_Addresses (gw_name gw))
      else gateway_addresses api (gw_name gw) (gw_addresses gw))"

definition build_tls_secret_from_ref ::
  "'ip gateway_api \<Rightarrow> crypto \<Rightarrow> string \<Rightarrow> secret_object_reference \<Rightarrow> string list \<Rightarrow> gateway_error + tls_secret" where
  "build_tls_secret_from_ref api x gateway_namespace ref sni =
     (if so_kind ref \<noteq> None \<and> so_kind ref \<noteq> Some ''Secret'' then Inl (Gw_Ref_Kind (the (so_kind ref)) (so_name ref))
      else if so_group ref \<noteq> None \<and> so_group ref \<noteq> Some [] then Inl (Gw_Ref_Group (the (so_group ref)) (so_name ref))
      else
        (let namespace =
           (case so_namespace ref of None \<Rightarrow> gateway_namespace | Some ns \<Rightarrow> if ns \<noteq> [] then ns else gateway_namespace)
         in case gp_secret api namespace (so_name ref) of
              None \<Rightarrow> Inl Gw_Api_Error
            | Some data \<Rightarrow>
                (let crt = (case data ''tls.crt'' of Some v \<Rightarrow> v | None \<Rightarrow> []);
                     key = (case data ''tls.key'' of Some v \<Rightarrow> v | None \<Rightarrow> [])
                 in if crt = [] \<or> key = [] then Inl (Gw_Secret_Incomplete namespace (so_name ref))
                    else case x_pem_decode x crt of
                      None \<Rightarrow> Inl (Gw_Not_Decoded namespace (so_name ref))
                    | Some block \<Rightarrow>
                        (case x_parse x block of
                           None \<Rightarrow> Inl (Gw_Not_Parsed namespace (so_name ref))
                         | Some [] \<Rightarrow> Inl (Gw_Not_Parsed namespace (so_name ref))
                         | Some (not_after # _) \<Rightarrow>
                             Inr \<lparr>ts_name = namespace @ ''/'' @ so_name ref, ts_sni = sni, ts_cert_pem = crt,
                                  ts_key_pem = key, ts_not_after = not_after, ts_version = x_sha256 x (crt @ key)\<rparr>))))"

text \<open>The loop over the certificate references of a listener.\<close>

fun collect_bundles ::
  "'ip gateway_api \<Rightarrow> crypto \<Rightarrow> string \<Rightarrow> string list \<Rightarrow> secret_object_reference list \<Rightarrow> gateway_error + tls_secret list" where
  "collect_bundles api x ns sni [] = Inr []"
| "collect_bundles api x ns sni (ref # refs) =
     (case build_tls_secret_from_ref api x ns ref sni of
        Inl e \<Rightarrow> Inl e
      | Inr bu \<Rightarrow> (case collect_bundles api x ns sni refs of Inl e \<Rightarrow> Inl e | Inr bus \<Rightarrow> Inr (bu # bus)))"

definition parse_listener ::
  "'ip gateway_api \<Rightarrow> crypto \<Rightarrow> gateway \<Rightarrow> gateway_listener \<Rightarrow> gateway_error + (listener_snapshot \<times> tls_secret list)" where
  "parse_listener api x gw l =
     (let snap = \<lparr>ls_name = gl_name l, ls_port = gl_port l, ls_protocol = gl_protocol l, ls_hostname = gl_hostname l,
                  ls_tls_mode = None, ls_certificates = []\<rparr>
      in case gl_tls l of
           None \<Rightarrow> Inr (snap, [])
         | Some tls \<Rightarrow>
             (let snap = snap\<lparr>ls_tls_mode := gt_mode tls, ls_certificates := gt_certificate_refs tls\<rparr>
              in if gt_mode tls = None \<or> gt_mode tls = Some ''Terminate'' then
                   (let sni = (case gl_hostname l of None \<Rightarrow> [] | Some h \<Rightarrow> [h])
                    in case collect_bundles api x (gw_namespace gw) sni (gt_certificate_refs tls) of
                         Inl e \<Rightarrow> Inl e
                       | Inr bundles \<Rightarrow> Inr (snap, bundles))
                 else Inr (snap, [])))"

fun parse_listeners ::
  "'ip gateway_api \<Rightarrow> crypto \<Rightarrow> gateway \<Rightarrow> gateway_listener list
    \<Rightarrow> gateway_error + (listener_snapshot list \<times> tls_secret list)" where
  "parse_listeners api x gw [] = Inr ([], [])"
| "parse_listeners api x gw (l # ls) =
     (case parse_listener api x gw l of
        Inl e \<Rightarrow> Inl e
      | Inr (snap, bundles) \<Rightarrow>
          (case parse_listeners api x gw ls of
             Inl e \<Rightarrow> Inl e
           | Inr (snaps, rest) \<Rightarrow> Inr (snap # snaps, bundles @ rest)))"

section \<open>Attached routes\<close>

record parent_ref =
  pr_group :: "string option"
  pr_kind :: "string option"
  pr_namespace :: "string option"
  pr_name :: string

text \<open>The keys under which \<open>setupHTTPRouteCache\<close> indexes a route.\<close>

definition parent_key :: "string \<Rightarrow> parent_ref \<Rightarrow> string list" where
  "parent_key route_namespace ref =
     (if \<not> (pr_group ref = None \<or> pr_group ref = Some ''gateway.networking.k8s.io'')
        \<or> \<not> (pr_kind ref = None \<or> pr_kind ref = Some ''Gateway'') then []
      else if pr_name ref = [] then []
      else
        (let namespace =
           (case pr_namespace ref of None \<Rightarrow> route_namespace | Some ns \<Rightarrow> if ns \<noteq> [] then ns else route_namespace)
         in [namespace @ pr_name ref]))"

definition http_route_index :: "string \<Rightarrow> parent_ref list \<Rightarrow> string list" where
  "http_route_index route_namespace refs = concat (map (parent_key route_namespace) refs)"

text \<open>The key \<open>ObjectKey.String\<close> with which the routes of a Gateway are looked up.\<close>

definition gateway_key :: "gateway \<Rightarrow> string" where
  "gateway_key gw = gw_namespace gw @ ''/'' @ gw_name gw"

text \<open>
  The list is a nil pointer, passed by value: if the call succeeds, reading the items of the
  pointer panics.
\<close>

definition get_http_routes_for_gateway :: "'ip gateway_api \<Rightarrow> string \<Rightarrow> gateway_error + 'r list" where
  "get_http_routes_for_gateway api name = (case gp_list_routes api name of None \<Rightarrow> Inl Gw_Api_Error | Some _ \<Rightarrow> Inl Gw_Panic)"

section \<open>Reconciling\<close>

definition gateway_to_snap :: "'ip gateway_api \<Rightarrow> crypto \<Rightarrow> gateway \<Rightarrow> gateway_error + 'ip gateway_snapshot" where
  "gateway_to_snap api x gw =
     (if gw_listeners gw = [] then Inl (Gw_No_Listeners (gw_name gw))
      else case get_addresses_from_gateway api gw of
        Inl e \<Rightarrow> Inl e
      | Inr addresses \<Rightarrow>
          (case parse_listeners api x gw (gw_listeners gw) of
             Inl e \<Rightarrow> Inl e
           | Inr (listeners, tls) \<Rightarrow>
               (case (get_http_routes_for_gateway api (gateway_key gw) :: gateway_error + unit list) of
                  Inl e \<Rightarrow> Inl e
                | Inr _ \<Rightarrow>
                    Inr \<lparr>gs_name = gw_name gw, gs_namespace = gw_namespace gw, gs_addresses = addresses,
                         gs_listeners = listeners, gs_tls = tls\<rparr>)))"

fun gateways_to_snap :: "'ip gateway_api \<Rightarrow> crypto \<Rightarrow> gateway list \<Rightarrow> gateway_error + 'ip gateway_snapshot list" where
  "gateways_to_snap api x [] = Inr []"
| "gateways_to_snap api x (gw # gws) =
     (case gateway_to_snap api x gw of
        Inl e \<Rightarrow> Inl e
      | Inr s \<Rightarrow> (case gateways_to_snap api x gws of Inl e \<Rightarrow> Inl e | Inr ss \<Rightarrow> Inr (s # ss)))"

definition gateway_list_to_snap :: "'ip gateway_api \<Rightarrow> crypto \<Rightarrow> gateway list \<Rightarrow> gateway_error + 'ip gateway_snapshot list" where
  "gateway_list_to_snap api x gws =
     (case gateways_to_snap api x gws of
        Inl e \<Rightarrow> Inl e
      | Inr snaps \<Rightarrow> if snaps = [] then Inl Gw_No_Gateways else Inr snaps)"

definition gateway_reconcile :: "'ip gateway_api \<Rightarrow> crypto \<Rightarrow> string \<Rightarrow> gateway_error + unit" where
  "gateway_reconcile api x gateway_class =
     (case gp_gateways api gateway_class of
        None \<Rightarrow> Inl Gw_Api_Error
      | Some gws \<Rightarrow> (case gateway_list_to_snap api x gws of Inl e \<Rightarrow> Inl e | Inr _ \<Rightarrow> Inr ()))"

section \<open>What it does\<close>

text \<open>
  No reconciliation of the Gateway controller succeeds, whatever the cluster holds: with a
  Gateway the call for its routes fails or its result panics, without one the empty list
  is an error.
\<close>

theorem gateway_reconcile_fails: "\<exists>e. gateway_reconcile api x gateway_class = Inl e"
proof -
  have one: "\<exists>e. gateway_to_snap api x gw = Inl e" for gw
    by (auto simp: gateway_to_snap_def get_http_routes_for_gateway_def split: sum.split option.split prod.split)
  have all: "\<exists>e. gateway_list_to_snap api x gws = Inl e" for gws
  proof (cases gws)
    case (Cons gw rest)
    obtain e where "gateway_to_snap api x gw = Inl e" using one by blast
    then show ?thesis by (simp add: gateway_list_to_snap_def Cons)
  qed (simp add: gateway_list_to_snap_def)
  show ?thesis
  proof (cases "gp_gateways api gateway_class")
    case (Some gws)
    obtain e where "gateway_list_to_snap api x gws = Inl e" using all by blast
    with Some show ?thesis by (simp add: gateway_reconcile_def)
  qed (simp add: gateway_reconcile_def)
qed

text \<open>
  The lookup of attached routes finds nothing: namespaces and names have no slash, so no route
  is indexed under the key of a Gateway.
\<close>

theorem index_misses_gateway:
  assumes "CHR ''/'' \<notin> set route_namespace"
    and "\<forall>ref \<in> set refs. CHR ''/'' \<notin> set (pr_name ref) \<and> (\<forall>ns. pr_namespace ref = Some ns \<longrightarrow> CHR ''/'' \<notin> set ns)"
  shows "gateway_key gw \<notin> set (http_route_index route_namespace refs)"
proof
  assume "gateway_key gw \<in> set (http_route_index route_namespace refs)"
  then obtain ref where ref: "ref \<in> set refs" "gateway_key gw \<in> set (parent_key route_namespace ref)"
    by (auto simp: http_route_index_def)
  have "CHR ''/'' \<notin> set k" if "k \<in> set (parent_key route_namespace ref)" for k
    using that ref(1) assms by (fastforce simp: parent_key_def Let_def split: if_splits option.splits)
  from this [OF ref(2)] show False by (simp add: gateway_key_def)
qed

end
