(* ===== verification/Spec2Isabelle.thy ===== *)
theory Spec2Isabelle
  imports App Tasks Config_Rpc Recovery Ingress_Tls Control_Events Control_Main Control_Gateway
begin

text \<open>
  \<^bold>\<open>Argon, verified.\<close>

  Argon is a Kubernetes ingress: a control plane (Go, under \<open>src/images/controlplane\<close>) watches
  the cluster and streams snapshots of routes, clusters and certificates; a data plane
  (Rust, under \<open>src/images/dataplane/src\<close>) terminates client connections and proxies each
  request to an endpoint.  This library models both, and the two together.

  \<^bold>\<open>The control plane.\<close>  On a change in the cluster \<open>ingress_controller.go\<close> lists all Ingresses,
  reads their annotations, Services, EndpointSlices and Secrets with \<open>utils.go\<close>, builds a
  sorted snapshot of \<open>model/snapshot.go\<close> and, if its version is new, hands it to \<open>hub.go\<close>,
  which offers it to the channel of every stream; \<open>Watch\<close> of \<open>server.go\<close> sends what it takes
  from its channel.  \<open>secrets_controller.go\<close> keeps the key material for the data planes in a
  Secret.

  \<^bold>\<open>The data plane.\<close>  \<open>grpc.rs\<close> receives snapshots and replaces, one after the other, the
  stored snapshot, the routing table and the certificate map that \<open>main.rs\<close> shares with
  its two listeners.  \<open>snapshot.rs\<close> builds the routing table: routes in buckets per host,
  clusters with atomic counters.  For each request \<open>proxy.rs\<close> takes the host, picks a
  route, a cluster and an endpoint under the read lock of the table, counts the request
  in, asks the authorization service if the cluster says so, rewrites the request, sends
  it with retries and counts it out.  \<open>certs.rs\<close> builds the certificate map and chooses a
  certificate for each TLS handshake.

  \<^bold>\<open>The theories\<close>, in the order of their imports.

  \<^item> \<open>Prelude\<close>: integer types as words, the string functions of the standard libraries on
    byte lists, reading and printing of integers, shared collections of facts.
  \<^item> \<open>Ordering\<close>: \<open>std::cmp::Ordering\<close>, stable sorting and minima by a comparator; the
    locale \<open>total_cmp\<close> is the contract of a comparator.
  \<^item> \<open>Config\<close>: the messages of \<open>argon.config.rs\<close>.
  \<^item> \<open>Atomics\<close>: \<open>Arc<AtomicUsize>\<close> as an address in a store, so that sharing a counter is
    sharing an address.
  \<^item> \<open>Dash_Map\<close>, \<open>Http_Lib\<close>: the interfaces of the crates \<open>dashmap\<close> and \<open>http\<close> as records of
    functions; the locales \<open>dash_map\<close> and \<open>header_map\<close> state their documented laws and are
    interpreted on association lists and multimaps.
  \<^item> \<open>Auth_Runtime\<close>, \<open>Header_Rules\<close>, \<open>Routes\<close>, \<open>Clusters\<close>, \<open>Route_Table\<close>: \<open>snapshot.rs\<close>.  The
    locale \<open>counter_map\<close> is what the load balancers need of the map of counters.  Which
    route wins is specified on the routes of the snapshot, without the comparator and the
    buckets of the code; round robin is fair; least connections takes a minimal counter;
    counters are distinct and fresh.
  \<^item> \<open>Inflight\<close>: the guard of \<open>proxy.rs\<close> and a state machine that interleaves the steps of
    any number of requests with table updates.  Each counter equals the number of
    requests that hold it, in every reachable state.  The scan of least connections loads
    each counter at a moment of its own.
  \<^item> \<open>Certs\<close>: \<open>certs.rs\<close>; the certificate of a host and the order of lookups.
  \<^item> \<open>Signin\<close>, \<open>Upstream_Request\<close>, \<open>Auth_Gate\<close>, \<open>Forward\<close>, \<open>Proxy\<close>: \<open>proxy.rs\<close>, function by
    function.  The HTTP client is a parameter that answers from the list of all requests
    sent so far; the model records that list, so theorems speak of what was sent, where,
    in which order and how often.  The gate fails closed, the retry loop equals a plan of
    attempts fixed in advance, the headers of the upstream request are given completely,
    hop-by-hop headers stop at the proxy, counters are restored on every path, the
    status of every response is given, and nothing reaches an upstream without a route and
    past the gate.
  \<^item> \<open>Grpc_Manager\<close>: \<open>grpc.rs\<close> as two tasks, one step per access to shared state, interleaved
    with the requests.  The locale \<open>manager_invariant\<close> is the contract of an invariant and
    is interpreted once for each: the configuration served is that of the last snapshot,
    the tables and counters stay within the state machine of \<open>Inflight\<close>, the delays follow
    their schedule, readiness and key material.  A cancelled task ends, unless its call of
    \<open>watch\<close>, which has no timeout, is never answered.
  \<^item> \<open>Tasks\<close>: \<open>proxy_handler\<close> once more, cut into steps at every access to shared state and
    every wait.  On its own such a task gives what \<open>proxy_handler\<close> gives.  Here an answer may
    also never come: under any scheduling a task ends or waits for the authorization
    service, whose subrequest has no timeout.  Any number of tasks, of which some are
    dropped while they wait, interleaved with table updates stay within the state machine
    of \<open>Inflight\<close>.
  \<^item> \<open>Config_Rpc\<close>: the generated client and server of \<open>argon.config.rs\<close>.
  \<^item> \<open>Client_Pool\<close>: \<open>client_pool.rs\<close>; which client, and so which certificate check, a request
    uses.
  \<^item> \<open>Servers\<close>: \<open>main.rs\<close> and \<open>utils.rs\<close>: the admin endpoint, the listeners' service
    functions, TLS handshakes and the accept loops.  The requests of an HTTP/2 connection run
    as tasks of their own and may outlive it.
  \<^item> \<open>Startup\<close>: \<open>main.rs\<close> up to the point where the listeners are spawned: settings, number
    parsing and everything that can fail.
  \<^item> \<open>App\<close>: the rest of \<open>main.rs\<close>: the main task, the listeners with their connections and
    requests, and the manager, interleaved.  The order of a shutdown and which requests it may
    leave behind, that it can always be completed, and what a failed bind does.
  \<^item> \<open>Control_Model\<close>: \<open>model/snapshot.go\<close>.  \<open>sort.Slice\<close> is a parameter under the law \<open>slice_sort\<close>,
    which is interpreted on insertion sort.  A pointer is an address with a value.
  \<^item> \<open>Control_Annotations\<close>: the settings an Ingress gives in its annotations, and that they
    stay within the bounds the data plane relies on.
  \<^item> \<open>Control_Hub\<close>: \<open>hub.go\<close> and \<open>Watch\<close> as a state machine, one step per access to the hub or
    a channel, and the translation into messages.  A stream follows the history of
    broadcasts; it can miss the last one.
  \<^item> \<open>Control_Ingress\<close>: from the objects of the cluster to a snapshot.  Exactly the ready
    addresses are served; the random order of a range over a map does not show.
  \<^item> \<open>Control_Events\<close>: which events start a reconciliation.  With an empty queue the snapshot
    reflects the present Ingresses and EndpointSlices, but not Secrets and Services; an object
    whose lookup fails is taken for missing, as the code does.
  \<^item> \<open>Control_Certs\<close>: the certificates the control plane issues, the names in them, and the
    controller of the Secret, which restores it after every change.  The Secret holds the key
    material of the running server.
  \<^item> \<open>Control_Main\<close>: \<open>cmd/main.go\<close>, from the flags to the registered controllers.
  \<^item> \<open>Control_Gateway\<close>: the unfinished controller for the Gateway API and why it cannot succeed.
  \<^item> \<open>End_To_End\<close>: the snapshot of the control plane in the table of the data plane.  A request
    is routed by the precedence of Ingress paths, and a declared path is served; the
    annotation that should switch off the verification of backends has no effect.
  \<^item> \<open>Whole_System\<close>: the steps of the control plane, of the manager and of the wire between
    them interleaved.  The data plane does not go back in time, routes at every moment by
    the reconciliation in force, that of the last snapshot it has installed, and is up to
    date once nothing is on its way.
  \<^item> \<open>Recovery\<close>: a data plane that has fallen behind can always catch up.
  \<^item> \<open>Ingress_Tls\<close>: from the Secrets that Ingresses name to the certificate of a handshake.

  \<^bold>\<open>Conventions.\<close>  Strings are lists of bytes.  A \<open>Result\<close> is a sum with the error on the
  left, an \<open>Option\<close> an option; the panics of the start are values of the type \<open>stop\<close>, those of
  the control plane the results \<open>Panicked\<close>, \<open>Gw_Panic\<close> and \<open>Nil_Pointer\<close>; the other modelled code has none.  \<open>i32\<close>, \<open>u16\<close>,
  \<open>u64\<close> and \<open>usize\<close> are words of 32, 16, 64 and 64 bits.  Log output is left out.  All loops
  of the modelled functions are bounded by their input, so no definition needs fuel; the
  endless loops of \<open>grpc.rs\<close> and of the listeners are step relations.

  \<^bold>\<open>Abstractions.\<close>  The allocation of a new table's counters and its installation are
  one step: the cells are reachable only once the table is installed.  The counters that
  least connections compares are an argument of the selection, so that each may have been
  loaded at another moment.  Theory \<open>Proxy\<close> runs \<open>proxy_handler\<close> on one request without
  interruption, with a client that always answers or fails; what concurrent requests and updates
  can do in between is the subject of \<open>Inflight\<close>, \<open>Tasks\<close> and \<open>Grpc_Manager\<close>.  Time appears
  only as the duration of sleeps and timeouts and as the choice whether a deadline passed
  first.  Texts of foreign errors are parameters.  Kubernetes lists and gets are functions
  that stay fixed during one reconciliation, in which any of them may fail, and reconciliations do not overlap, as the
  controller library runs one at a time.  In \<open>Whole_System\<close> one data plane is followed; the
  streams of others are steps of the control plane beside it.

  \<^bold>\<open>Not modelled.\<close>  The wire encoding of the messages, the HTTP and TLS connection state
  machines, sockets, log output: library code, of which the model keeps the operations the
  source calls.  The build script.  The functions that register the
  Gateway controller and run the gRPC server, which only call libraries; the generated Go
  code of the messages; \<open>buildRoutes\<close> of the Gateway controller, which is unfinished; the
  cryptographic algorithms.  The deployment files, which are no program.
\<close>

end
